(* ===== verification/Go_Prelude.thy ===== *)
theory Go_Prelude
  imports Main "HOL-Library.Multiset" "HOL-Library.Word"
begin

section \<open>Shared vocabulary: Go integers, errors, decimal text, event runs\<close>

text \<open>
  The conventions every other theory uses.  Go's \<open>int\<close> and \<open>int64\<close> are 64-bit two's
  complement; they are held as HOL \<open>int\<close> and every addition the program does on them is
  followed by \<open>i64\<close>, the wrap-around.  Go's \<open>uint64\<close> is \<open>64 word\<close> and a byte is
  \<open>8 word\<close>.  A Go \<open>error\<close> result is \<open>'e option\<close> (\<open>None\<close> is nil), a value
  with an error is a sum (\<open>Inl\<close> is the error), a panic is an outer \<open>None\<close>.
\<close>

type_synonym byte = "8 word"
type_synonym u64 = "64 word"
type_synonym go_error = string

named_theorems wrap_simps \<open>facts about the 64-bit wrap-around\<close>

subsection \<open>Signed 64-bit arithmetic\<close>

definition i64 :: "int \<Rightarrow> int" where
  "i64 x = (x + 2 ^ 63) mod 2 ^ 64 - 2 ^ 63"

definition in_i64 :: "int \<Rightarrow> bool" where
  "in_i64 x \<longleftrightarrow> - (2 ^ 63) \<le> x \<and> x < 2 ^ 63"

lemma i64_id [wrap_simps]: "in_i64 x \<Longrightarrow> i64 x = x"
  by (simp add: i64_def in_i64_def)

lemma i64_0 [simp]: "i64 0 = 0"
  by (simp add: i64_def)

lemma in_i64_i64 [simp, intro]: "in_i64 (i64 x)"
proof -
  have "0 \<le> (x + 2 ^ 63) mod 2 ^ 64" and "(x + 2 ^ 63) mod 2 ^ 64 < (2 ^ 64 :: int)"
    by simp_all
  then show ?thesis by (simp add: i64_def in_i64_def)
qed

lemma i64_cong: "i64 x = i64 y \<longleftrightarrow> x mod 2 ^ 64 = y mod 2 ^ 64"
proof -
  have "i64 x = i64 y \<longleftrightarrow> (x + 2 ^ 63) mod 2 ^ 64 = (y + 2 ^ 63) mod 2 ^ 64"
    by (simp add: i64_def)
  also have "\<dots> \<longleftrightarrow> x mod 2 ^ 64 = y mod 2 ^ 64"
    by (simp add: mod_eq_dvd_iff)
  finally show ?thesis .
qed

lemma i64_mod: "i64 x mod 2 ^ 64 = x mod 2 ^ 64"
proof -
  have "i64 x mod 2 ^ 64 = ((x + 2 ^ 63) mod 2 ^ 64 - 2 ^ 63) mod 2 ^ 64"
    by (simp add: i64_def)
  also have "\<dots> = (x + 2 ^ 63 - 2 ^ 63) mod 2 ^ 64"
    by (rule mod_diff_left_eq)
  finally show ?thesis by simp
qed

lemma i64_add_left [wrap_simps]: "i64 (i64 x + y) = i64 (x + y)"
  by (metis i64_cong i64_mod mod_add_left_eq)

lemma i64_add_right [wrap_simps]: "i64 (x + i64 y) = i64 (x + y)"
  by (metis i64_add_left add.commute)

text \<open>Go's accumulation loop \<open>total += x\<close> over a sequence of values.\<close>

fun go_sum_from :: "int \<Rightarrow> int list \<Rightarrow> int" where
  "go_sum_from t [] = t"
| "go_sum_from t (x # xs) = go_sum_from (i64 (t + x)) xs"

abbreviation go_sum :: "int list \<Rightarrow> int" where
  "go_sum \<equiv> go_sum_from 0"

lemma go_sum_from_eq: "in_i64 t \<Longrightarrow> go_sum_from t xs = i64 (t + sum_list xs)"
proof (induction xs arbitrary: t)
  case Nil
  then show ?case by (simp add: i64_id)
next
  case (Cons x xs)
  then show ?case by (simp add: wrap_simps add.assoc)
qed

lemma go_sum_eq: "go_sum xs = i64 (sum_list xs)"
  by (subst go_sum_from_eq) (simp_all add: in_i64_def)

lemma go_sum_perm: "mset xs = mset ys \<Longrightarrow> go_sum xs = go_sum ys"
  by (metis go_sum_eq sum_mset_sum_list)

lemma go_sum_no_overflow: "in_i64 (sum_list xs) \<Longrightarrow> go_sum xs = sum_list xs"
  by (simp add: go_sum_eq i64_id)

subsection \<open>Decimal text: the \<open>%d\<close> verb\<close>

definition digit_char :: "nat \<Rightarrow> char" where
  "digit_char d = char_of (48 + d)"

fun show_nat :: "nat \<Rightarrow> string" where
  "show_nat n = (if n < 10 then [digit_char n] else show_nat (n div 10) @ [digit_char (n mod 10)])"

declare show_nat.simps [simp del]

definition show_int :: "int \<Rightarrow> string" where
  "show_int x = (if x < 0 then CHR ''-'' # show_nat (nat (- x)) else show_nat (nat x))"

subsection \<open>Runes: ranging over a string\<close>

text \<open>
  \<open>for _, r := range s\<close> decodes UTF-8; a byte that starts no valid encoding is the rune
  U+FFFD and advances by one byte.  The bounds on the second byte are those of package
  unicode/utf8 (no overlong forms, no surrogates, nothing past U+10FFFF).
\<close>

definition cont_byte :: "nat \<Rightarrow> bool" where
  "cont_byte b \<longleftrightarrow> 0x80 \<le> b \<and> b \<le> 0xBF"

definition second_ok :: "nat \<Rightarrow> nat \<Rightarrow> bool" where
  "second_ok b0 b1 \<longleftrightarrow>
     (if b0 = 0xE0 then 0xA0 else if b0 = 0xF0 then 0x90 else 0x80) \<le> b1 \<and>
     b1 \<le> (if b0 = 0xED then 0x9F else if b0 = 0xF4 then 0x8F else 0xBF)"

abbreviation rune_error :: nat where
  "rune_error \<equiv> 0xFFFD"

definition decode_rune :: "nat \<Rightarrow> nat list \<Rightarrow> nat \<times> nat" where
  "decode_rune b0 bs =
     (if b0 < 0x80 then (b0, 0)
      else if 0xC2 \<le> b0 \<and> b0 \<le> 0xDF then
        (case bs of b1 # _ \<Rightarrow>
           if second_ok b0 b1 then ((b0 - 0xC0) * 64 + (b1 - 0x80), 1) else (rune_error, 0)
         | _ \<Rightarrow> (rune_error, 0))
      else if 0xE0 \<le> b0 \<and> b0 \<le> 0xEF then
        (case bs of b1 # b2 # _ \<Rightarrow>
           if second_ok b0 b1 \<and> cont_byte b2
           then (((b0 - 0xE0) * 64 + (b1 - 0x80)) * 64 + (b2 - 0x80), 2) else (rune_error, 0)
         | _ \<Rightarrow> (rune_error, 0))
      else if 0xF0 \<le> b0 \<and> b0 \<le> 0xF4 then
        (case bs of b1 # b2 # b3 # _ \<Rightarrow>
           if second_ok b0 b1 \<and> cont_byte b2 \<and> cont_byte b3
           then ((((b0 - 0xF0) * 64 + (b1 - 0x80)) * 64 + (b2 - 0x80)) * 64 + (b3 - 0x80), 3)
           else (rune_error, 0)
         | _ \<Rightarrow> (rune_error, 0))
      else (rune_error, 0))"

function decode_runes :: "nat list \<Rightarrow> nat list" where
  "decode_runes [] = []"
| "decode_runes (b # bs) =
     (let (r, extra) = decode_rune b bs in r # decode_runes (drop extra bs))"
  by pat_completeness auto
termination
  by (relation "measure length") (auto simp: less_Suc_eq_le)

definition runes :: "string \<Rightarrow> nat list" where
  "runes s = decode_runes (map of_char s)"

lemma decode_runes_ascii: "list_all (\<lambda>b. b < 0x80) bs \<Longrightarrow> decode_runes bs = bs"
  by (induction bs) (simp_all add: decode_rune_def)

subsection \<open>Running a deterministic handler over a sequence of events\<close>

text \<open>
  A component is a step function on a state and an event.  The locale is the contract
  between such a step and a predicate it keeps; its lemma lifts the one-step fact to every
  run.  Components interpret it on their own step function and invariant.
\<close>

locale kept_by_steps =
  fixes step :: "'e \<Rightarrow> 's \<Rightarrow> 's"
    and keeps :: "'s \<Rightarrow> bool"
  assumes step_keeps: "keeps s \<Longrightarrow> keeps (step e s)"
begin

lemma run_keeps: "keeps s \<Longrightarrow> keeps (fold step es s)"
  by (induction es arbitrary: s) (auto intro: step_keeps)

lemma run_keeps_prefix:
  assumes "keeps s"
  shows "keeps (fold step (take n es) s)"
  using assms by (rule run_keeps)

end

text \<open>The same contract for a step relation: what one step keeps, every run keeps.\<close>

locale kept_by_relation =
  fixes step :: "'s \<Rightarrow> 's \<Rightarrow> bool"
    and keeps :: "'s \<Rightarrow> bool"
  assumes step_keeps: "step s t \<Longrightarrow> keeps s \<Longrightarrow> keeps t"
begin

lemma run_keeps: "step\<^sup>*\<^sup>* s t \<Longrightarrow> keeps s \<Longrightarrow> keeps t"
  by (induction rule: rtranclp_induct) (auto intro: step_keeps)

end

end
