(* ===== verification/Rand_Str.thy ===== *)
theory Rand_Str
  imports Go_Prelude
begin

section \<open>Random strings (pkg/loadtest/rand.go)\<close>

text \<open>
  \<open>randStr\<close> draws bytes from crypto/rand and maps each to one of 62 characters.  The
  random source is the list of bytes it will deliver next; a source with too few bytes is
  a failed \<open>rand.Read\<close>, which the code turns into a panic (\<open>None\<close>).  A Go string or
  byte slice is a HOL \<open>string\<close>, one \<open>char\<close> per byte.
\<close>

type_synonym entropy = "byte list"

definition strChars :: string where
  "strChars = ''0123456789ABCDEFGHIJKLMNOPQRSTUVWXYZabcdefghijklmnopqrstuvwxyz''"

definition rand_char :: "byte \<Rightarrow> char" where
  "rand_char b = strChars ! unat (b mod word_of_nat (length strChars))"

definition randStr :: "int \<Rightarrow> entropy \<Rightarrow> (string \<times> entropy) option" where
  "randStr len ent =
     (if len \<le> 0 then Some ('''', ent)
      else if length ent < nat len then None
      else Some (map rand_char (take (nat len) ent), drop (nat len) ent))"

lemma length_strChars: "length strChars = 62"
  by (simp add: strChars_def)

lemma unat_mod_62: "unat (b mod 62 :: byte) = unat b mod 62"
  by (simp add: unat_mod)

lemma rand_char_nat: "rand_char b = strChars ! (unat b mod 62)"
  by (simp add: rand_char_def length_strChars unat_mod_62)

lemma rand_char_in: "rand_char b \<in> set strChars"
  by (simp add: rand_char_nat length_strChars)

lemma distinct_strChars: "distinct strChars"
  by (simp add: strChars_def)

lemma randStr_Some:
  assumes "randStr len ent = Some (s, ent')"
  shows "int (length s) = max 0 len" and "set s \<subseteq> set strChars"
    and "ent = take (nat len) ent @ ent'"
  using assms rand_char_in by (auto simp: randStr_def split: if_splits)

lemma randStr_panics_iff: "randStr len ent = None \<longleftrightarrow> int (length ent) < len"
  by (auto simp: randStr_def)

lemma randStr_enough: "len \<le> int (length ent) \<Longrightarrow> \<exists>s ent'. randStr len ent = Some (s, ent')"
  by (auto simp: randStr_def)

text \<open>
  How many byte values select the character at a position: \<open>256 = 4 * 62 + 8\<close>, so the
  first eight characters of the alphabet are drawn by five byte values and the others by
  four.
\<close>

lemma card_bytes: "card {b :: byte. P (unat b)} = card {n. n < 256 \<and> P n}"
proof (rule bij_betw_same_card)
  show "bij_betw unat {b :: byte. P (unat b)} {n. n < 256 \<and> P n}"
  proof (rule bij_betw_byWitness [where f' = word_of_nat])
    show "\<forall>b \<in> {b :: byte. P (unat b)}. word_of_nat (unat b) = b" by simp
    show "\<forall>n \<in> {n. n < 256 \<and> P n}. unat (word_of_nat n :: byte) = n"
      by (simp add: unat_of_nat)
    show "unat ` {b :: byte. P (unat b)} \<subseteq> {n. n < 256 \<and> P n}"
    proof -
      have "unat (b :: byte) < 256" for b using unsigned_less [of b] by simp
      then show ?thesis by auto
    qed
    show "word_of_nat ` {n. n < 256 \<and> P n} \<subseteq> {b :: byte. P (unat b)}"
      by (auto simp: unat_of_nat)
  qed
qed

lemma card_residue:
  assumes "i < 62"
  shows "card {n :: nat. n < 256 \<and> n mod 62 = i} = (if i < 8 then 5 else 4)"
proof -
  have "{n :: nat. n < 256 \<and> n mod 62 = i} = (\<lambda>k. 62 * k + i) ` {k. 62 * k + i < 256}"
  proof (rule set_eqI)
    fix n
    show "n \<in> {n. n < 256 \<and> n mod 62 = i} \<longleftrightarrow> n \<in> (\<lambda>k. 62 * k + i) ` {k. 62 * k + i < 256}"
    proof
      assume "n \<in> {n. n < 256 \<and> n mod 62 = i}"
      then have m: "n mod 62 = i" "n < 256" by simp_all
      have "n = 62 * (n div 62) + n mod 62" by simp
      with m have n: "n = 62 * (n div 62) + i" "n < 256" by (simp_all only:)
      then have "n div 62 \<in> {k. 62 * k + i < 256}" by simp
      then show "n \<in> (\<lambda>k. 62 * k + i) ` {k. 62 * k + i < 256}"
        using n(1) by (rule rev_image_eqI)
    next
      assume "n \<in> (\<lambda>k. 62 * k + i) ` {k. 62 * k + i < 256}"
      then obtain k where "n = 62 * k + i" "62 * k + i < 256" by blast
      then show "n \<in> {n. n < 256 \<and> n mod 62 = i}" using assms by simp
    qed
  qed
  also have "card \<dots> = card {k. 62 * k + i < 256}"
    by (rule card_image) (simp add: inj_on_def)
  also have "{k. 62 * k + i < 256} = {..<(if i < 8 then 5 else 4)}"
  proof -
    have "62 * k + i < 256 \<longleftrightarrow> k < (if i < 8 then 5 else 4)" for k
    proof (cases "i < 8")
      case True
      then have "62 * k + i < 256 \<longleftrightarrow> k < 5" by (intro iffI) linarith+
      with True show ?thesis by (simp only: if_True)
    next
      case False
      then have "62 * k + i < 256 \<longleftrightarrow> k < 4" using assms by (intro iffI) linarith+
      with False show ?thesis by (simp only: if_False)
    qed
    then show ?thesis unfolding lessThan_def by (simp only:)
  qed
  finally show ?thesis by simp
qed

lemma rand_char_frequency:
  assumes "i < 62"
  shows "card {b :: byte. rand_char b = strChars ! i} = (if i < 8 then 5 else 4)"
proof -
  have "rand_char b = strChars ! i \<longleftrightarrow> unat b mod 62 = i" for b :: byte
    using assms distinct_strChars
    by (simp add: rand_char_nat nth_eq_iff_index_eq length_strChars)
  then have "{b :: byte. rand_char b = strChars ! i} = {b. unat b mod 62 = i}" by simp
  then show ?thesis
    using card_bytes [of "\<lambda>n. n mod 62 = i"] card_residue [OF assms] by simp
qed

end
