(* ===== verification/Go_Map.thy ===== *)
theory Go_Map
  imports Go_Prelude "HOL-Library.AList"
begin

section \<open>Go maps\<close>

text \<open>
  A Go \<open>map[K]V\<close> as an association list with one entry per key: look-up \<open>m[k]\<close>, store
  \<open>m[k] = v\<close>, \<open>delete(m, k)\<close> and \<open>len(m)\<close>.  \<open>range m\<close> visits the entries in an
  unspecified order, which is a permutation of the list (\<open>ranges_over\<close>).  The locale
  \<open>dictionary\<close> is the interface the components use; it is interpreted on the
  association lists, and its lemmas are what they know about maps.
\<close>

type_synonym ('k, 'v) gomap = "('k \<times> 'v) list"

abbreviation gget :: "('k, 'v) gomap \<Rightarrow> 'k \<Rightarrow> 'v option" where
  "gget \<equiv> map_of"

abbreviation gset :: "'k \<Rightarrow> 'v \<Rightarrow> ('k, 'v) gomap \<Rightarrow> ('k, 'v) gomap" where
  "gset \<equiv> AList.update"

abbreviation gdel :: "'k \<Rightarrow> ('k, 'v) gomap \<Rightarrow> ('k, 'v) gomap" where
  "gdel \<equiv> AList.delete"

abbreviation gkeys :: "('k, 'v) gomap \<Rightarrow> 'k list" where
  "gkeys m \<equiv> map fst m"

abbreviation gvals :: "('k, 'v) gomap \<Rightarrow> 'v list" where
  "gvals m \<equiv> map snd m"

definition gwf :: "('k, 'v) gomap \<Rightarrow> bool" where
  "gwf m \<longleftrightarrow> distinct (gkeys m)"

definition ghas :: "('k, 'v) gomap \<Rightarrow> 'k \<Rightarrow> bool" where
  "ghas m k \<longleftrightarrow> gget m k \<noteq> None"

definition ranges_over :: "('k \<times> 'v) list \<Rightarrow> ('k, 'v) gomap \<Rightarrow> bool" where
  "ranges_over es m \<longleftrightarrow> mset es = mset m"

subsection \<open>The interface\<close>

locale dictionary =
  fixes get :: "'m \<Rightarrow> 'k \<Rightarrow> 'v option"
    and put :: "'k \<Rightarrow> 'v \<Rightarrow> 'm \<Rightarrow> 'm"
    and del :: "'k \<Rightarrow> 'm \<Rightarrow> 'm"
    and len :: "'m \<Rightarrow> nat"
    and wf :: "'m \<Rightarrow> bool"
    and empty :: "'m"
  assumes get_empty: "get empty k = None"
    and get_put: "get (put k v m) k' = (if k' = k then Some v else get m k')"
    and get_del: "wf m \<Longrightarrow> get (del k m) k' = (if k' = k then None else get m k')"
    and len_empty: "len empty = 0"
    and len_put: "wf m \<Longrightarrow> len (put k v m) = (if get m k = None then Suc (len m) else len m)"
    and len_del: "wf m \<Longrightarrow> len (del k m) = (if get m k = None then len m else len m - 1)"
    and len_pos: "wf m \<Longrightarrow> get m k = Some v \<Longrightarrow> 0 < len m"
    and wf_empty: "wf empty"
    and wf_put: "wf m \<Longrightarrow> wf (put k v m)"
    and wf_del: "wf m \<Longrightarrow> wf (del k m)"
begin

lemma put_then_get: "get (put k v m) k = Some v"
  by (simp add: get_put)

lemma del_then_get: "wf m \<Longrightarrow> get (del k m) k = None"
  by (simp add: get_del)

lemma del_put_other: "wf m \<Longrightarrow> k' \<noteq> k \<Longrightarrow> get (del k (put k v m)) k' = get m k'"
  by (simp add: get_del get_put wf_put)

text \<open>A guarded insertion never takes a map past its bound.\<close>

lemma guarded_put_bounded:
  assumes "wf m" and "int (len m) \<le> b" and "int (len m) < b \<or> get m k \<noteq> None"
  shows "int (len (put k v m)) \<le> b"
  using assms by (auto simp: len_put)

lemma del_bounded: "wf m \<Longrightarrow> int (len m) \<le> b \<Longrightarrow> int (len (del k m)) \<le> b"
  by (auto simp: len_del)

end

lemma length_gset_new: "gget m k = None \<Longrightarrow> length (gset k v m) = Suc (length m)"
  by (induction m) (auto split: if_splits)

lemma length_gset_old: "gget m k \<noteq> None \<Longrightarrow> length (gset k v m) = length m"
  by (induction m) (auto split: if_splits)

lemma gdel_absent: "gget m k = None \<Longrightarrow> gdel k m = m"
  by (induction m) (auto split: if_splits)

lemma length_gdel_present:
  "distinct (gkeys m) \<Longrightarrow> gget m k \<noteq> None \<Longrightarrow> length (gdel k m) = length m - 1"
proof (induction m)
  case Nil
  then show ?case by simp
next
  case (Cons p m)
  show ?case
  proof (cases "fst p = k")
    case True
    with Cons.prems have "gget m k = None" by (auto simp: map_of_eq_None_iff)
    with True show ?thesis by (cases p) (simp add: gdel_absent)
  next
    case False
    with Cons have "length (gdel k m) = length m - 1" and "gget m k \<noteq> None"
      by (cases p; simp split: if_splits)+
    then have "0 < length m" by (cases m) auto
    with \<open>length (gdel k m) = _\<close> False show ?thesis by (cases p) auto
  qed
qed

interpretation gomap: dictionary gget gset gdel length gwf "[]"
proof unfold_locales
  fix k k' :: 'k and v :: 'v and m :: "('k, 'v) gomap"
  show "gget [] k = (None :: 'v option)" by simp
  show "gget (gset k v m) k' = (if k' = k then Some v else gget m k')"
    by (simp add: update_conv')
  show "gget (gdel k m) k' = (if k' = k then None else gget m k')"
    by (simp add: delete_conv')
  show "length ([] :: ('k, 'v) gomap) = 0" by simp
  show "gwf ([] :: ('k, 'v) gomap)" by (simp add: gwf_def)
  assume wf: "gwf m"
  show "length (gset k v m) = (if gget m k = None then Suc (length m) else length m)"
    by (simp add: length_gset_new length_gset_old)
  show "length (gdel k m) = (if gget m k = None then length m else length m - 1)"
    using wf by (simp add: gdel_absent length_gdel_present gwf_def)
  show "gget m k = Some v \<Longrightarrow> 0 < length m" by (cases m) auto
  show "gwf (gset k v m)" using wf by (simp add: gwf_def distinct_update)
  show "gwf (gdel k m)" using wf by (simp add: gwf_def distinct_delete)
qed

lemmas gomap_simps = gomap.get_put gomap.get_del gomap.wf_put gomap.wf_del gomap.wf_empty

subsection \<open>Iteration order\<close>

lemma ranges_over_self [simp]: "ranges_over m m"
  by (simp add: ranges_over_def)

lemma ranges_over_set: "ranges_over es m \<Longrightarrow> set es = set m"
  unfolding ranges_over_def by (rule mset_eq_setD)

lemma ranges_over_length: "ranges_over es m \<Longrightarrow> length es = length m"
  unfolding ranges_over_def by (rule mset_eq_length)

lemma ranges_over_distinct: "ranges_over es m \<Longrightarrow> gwf m \<Longrightarrow> distinct (map fst es)"
  unfolding ranges_over_def gwf_def
  by (metis mset_map distinct_count_atmost_1 mset_eq_imp_distinct_iff)

lemma ranges_over_get:
  assumes "ranges_over es m" and "gwf m"
  shows "gget es = gget m"
proof
  fix k
  have "distinct (gkeys es)" using assms by (rule ranges_over_distinct)
  moreover have "distinct (gkeys m)" using assms(2) by (simp add: gwf_def)
  ultimately show "gget es k = gget m k"
    using ranges_over_set [OF assms(1)] by (metis map_of_eqI map_of_is_SomeI
      map_of_SomeD option.exhaust map_of_eq_None_iff set_map)
qed

lemma ranges_over_sum: "ranges_over es m \<Longrightarrow> go_sum (gvals es) = go_sum (gvals m)"
  unfolding ranges_over_def by (rule go_sum_perm) (metis mset_map)

lemma gvals_gset: "set (gvals (gset k v m)) \<subseteq> insert v (set (gvals m))"
  by (induction m) auto

lemma gvals_gset_all:
  "\<forall>x \<in> set (gvals m). P x \<Longrightarrow> P v \<Longrightarrow> \<forall>x \<in> set (gvals (gset k v m)). P x"
  using gvals_gset [of k v m] by blast

end
