(* ===== verification/Load_Config.thy ===== *)
theory Load_Config
  imports Go_Map
begin

section \<open>Configuration and client factories (config.go, client.go)\<close>

text \<open>
  The three configuration records and their \<open>Validate\<close> methods, the \<open>Client\<close> and
  \<open>ClientFactory\<close> interfaces as records of functions, and the global registry of
  factories as a Go map.  A client draws on a world of type \<open>'w\<close> (for the kvstore client,
  the random source); an outer \<open>None\<close> is a panic.
\<close>

record config =
  ClientFactory :: string
  Connections :: int
  Time :: int
  SendPeriod :: int
  Rate :: int
  Size :: int
  Count :: int
  BroadcastTxMethod :: string
  Endpoints :: "string list"
  EndpointSelectMethod :: string
  ExpectPeers :: int
  MaxEndpoints :: int
  MinConnectivity :: int
  PeerConnectTimeout :: int
  StatsOutputFile :: string
  NoTrapInterrupts :: bool

record coordinator_config =
  BindAddr :: string
  ExpectWorkers :: int
  WorkerConnectTimeout :: int
  ShutdownWait :: int
  LoadTestID :: int

record worker_config =
  WorkerID :: string
  CoordAddr :: string
  CoordConnectTimeout :: int

definition SelectSuppliedEndpoints :: string where
  "SelectSuppliedEndpoints = ''supplied''"

definition SelectDiscoveredEndpoints :: string where
  "SelectDiscoveredEndpoints = ''discovered''"

definition SelectAnyEndpoints :: string where
  "SelectAnyEndpoints = ''any''"

definition validEndpointSelectMethods :: "string list" where
  "validEndpointSelectMethods =
     [SelectSuppliedEndpoints, SelectDiscoveredEndpoints, SelectAnyEndpoints]"

definition validBroadcastTxMethods :: "string list" where
  "validBroadcastTxMethods = [''async'', ''sync'', ''commit'']"

text \<open>The values the command line's flags have when none is given (\<open>buildCLI\<close>, cli.go).\<close>

definition flag_defaults :: "string \<Rightarrow> config" where
  "flag_defaults DefaultClientFactory =
     \<lparr>ClientFactory = DefaultClientFactory, Connections = 1, Time = 60, SendPeriod = 1,
      Rate = 1000, Size = 250, Count = -1, BroadcastTxMethod = ''async'', Endpoints = [],
      EndpointSelectMethod = SelectSuppliedEndpoints, ExpectPeers = 0, MaxEndpoints = 0,
      MinConnectivity = 0, PeerConnectTimeout = 600, StatsOutputFile = [],
      NoTrapInterrupts = False\<rparr>"

text \<open>The integer fields are Go \<open>int\<close>s.\<close>

definition config_ints :: "config \<Rightarrow> bool" where
  "config_ints c \<longleftrightarrow> in_i64 (Connections c) \<and> in_i64 (Time c) \<and> in_i64 (SendPeriod c) \<and>
     in_i64 (Rate c) \<and> in_i64 (Size c) \<and> in_i64 (Count c) \<and> in_i64 (ExpectPeers c) \<and>
     in_i64 (MaxEndpoints c) \<and> in_i64 (MinConnectivity c) \<and> in_i64 (PeerConnectTimeout c)"

subsection \<open>Clients and their factories\<close>

record 'w client =
  GenerateTx :: "'w \<Rightarrow> ((string + string) \<times> 'w) option"

record 'w client_factory =
  ValidateConfig :: "config \<Rightarrow> string option"
  NewClient :: "config \<Rightarrow> 'w \<Rightarrow> ((string + 'w client) \<times> 'w) option"

type_synonym 'w registry = "(string, 'w client_factory) gomap"

definition RegisterClientFactory ::
    "string \<Rightarrow> 'w client_factory \<Rightarrow> 'w registry \<Rightarrow> string option \<times> 'w registry" where
  "RegisterClientFactory name factory reg =
     (if ghas reg name
      then (Some (''client factory with the specified name already exists: '' @ name), reg)
      else (None, gset name factory reg))"

text \<open>
  The contract of a factory whose clients honour the configured transaction size: after a
  successful validation a client can be made, and it never fails and never produces a
  transaction of another size.
\<close>

locale exact_size_clients =
  fixes f :: "'w client_factory"
  assumes new_client_ok:
      "config_ints cfg \<Longrightarrow> ValidateConfig f cfg = None \<Longrightarrow> NewClient f cfg w = Some (r, w') \<Longrightarrow>
       \<exists>cl. r = Inr cl"
    and tx_exact:
      "config_ints cfg \<Longrightarrow> ValidateConfig f cfg = None \<Longrightarrow> NewClient f cfg w = Some (Inr cl, w') \<Longrightarrow>
       GenerateTx cl v = Some (g, v') \<Longrightarrow> \<exists>tx. g = Inr tx \<and> int (length tx) = Size cfg"
begin

lemma never_fails:
  assumes "config_ints cfg" and "ValidateConfig f cfg = None"
    and "NewClient f cfg w = Some (Inr cl, w')"
  shows "GenerateTx cl v \<noteq> Some (Inl e, v')"
  using tx_exact [OF assms, of v "Inl e" v'] by auto

lemma tx_size:
  assumes "config_ints cfg" and "ValidateConfig f cfg = None"
    and "NewClient f cfg w = Some (Inr cl, w')" and "GenerateTx cl v = Some (Inr tx, v')"
  shows "int (length tx) = Size cfg"
  using tx_exact [OF assms] by auto

end

subsection \<open>Config.Validate\<close>

datatype config_error =
    NoClientFactory
  | FactoryMissing string
  | FactoryConfig string string
  | BadConnections int
  | BadTime int
  | BadSendPeriod int
  | BadRate int
  | BadCount int
  | BadBroadcastTxMethod string
  | NoEndpoints
  | BadEndpointSelectMethod string
  | BadExpectPeers int
  | BadPeerConnectTimeout int
  | BadMaxEndpoints int
  | BadMinConnectivity int

fun config_error_text :: "config_error \<Rightarrow> string" where
  "config_error_text NoClientFactory = ''client factory name must be specified''"
| "config_error_text (FactoryMissing n) = ''client factory \"'' @ n @ ''\" does not exist''"
| "config_error_text (FactoryConfig n e) =
     ''invalid configuration for client factory \"'' @ n @ ''\": '' @ e"
| "config_error_text (BadConnections n) = ''expected connections to be >= 1, but was '' @ show_int n"
| "config_error_text (BadTime n) =
     ''expected load test time to be >= 1 second, but was '' @ show_int n"
| "config_error_text (BadSendPeriod n) =
     ''expected transaction send period to be >= 1 second, but was '' @ show_int n"
| "config_error_text (BadRate n) = ''expected transaction rate to be >= 1, but was '' @ show_int n"
| "config_error_text (BadCount n) =
     ''expected max transaction count to either be -1 or >= 1, but was '' @ show_int n"
| "config_error_text (BadBroadcastTxMethod m) =
     ''expected broadcast_tx method to be one of \"sync\", \"async\" or \"commit\", but was '' @ m"
| "config_error_text NoEndpoints =
     ''expected at least one endpoint to conduct load test against, but found none''"
| "config_error_text (BadEndpointSelectMethod m) = ''invalid endpoint-select-method: '' @ m"
| "config_error_text (BadExpectPeers n) = ''expect-peers must be at least 0, but got '' @ show_int n"
| "config_error_text (BadPeerConnectTimeout n) =
     ''peer-connect-timeout must be at least 1 if expect-peers is non-zero, but got '' @ show_int n"
| "config_error_text (BadMaxEndpoints n) = ''invalid value for max-endpoints: '' @ show_int n"
| "config_error_text (BadMinConnectivity n) =
     ''invalid value for min-peer-connectivity: '' @ show_int n"

definition Config_Validate :: "'w registry \<Rightarrow> config \<Rightarrow> config_error option" where
  "Config_Validate reg c =
     (if ClientFactory c = '''' then Some NoClientFactory
      else case gget reg (ClientFactory c) of
        None \<Rightarrow> Some (FactoryMissing (ClientFactory c))
      | Some factory \<Rightarrow>
        (case ValidateConfig factory c of
          Some e \<Rightarrow> Some (FactoryConfig (ClientFactory c) e)
        | None \<Rightarrow>
          if Connections c < 1 then Some (BadConnections (Connections c))
          else if Time c < 1 then Some (BadTime (Time c))
          else if SendPeriod c < 1 then Some (BadSendPeriod (SendPeriod c))
          else if Rate c < 1 then Some (BadRate (Rate c))
          else if Count c < 1 \<and> Count c \<noteq> -1 then Some (BadCount (Count c))
          else if BroadcastTxMethod c \<notin> set validBroadcastTxMethods
            then Some (BadBroadcastTxMethod (BroadcastTxMethod c))
          else if length (Endpoints c) = 0 then Some NoEndpoints
          else if EndpointSelectMethod c \<notin> set validEndpointSelectMethods
            then Some (BadEndpointSelectMethod (EndpointSelectMethod c))
          else if ExpectPeers c < 0 then Some (BadExpectPeers (ExpectPeers c))
          else if ExpectPeers c > 0 \<and> PeerConnectTimeout c < 1
            then Some (BadPeerConnectTimeout (PeerConnectTimeout c))
          else if MaxEndpoints c < 0 then Some (BadMaxEndpoints (MaxEndpoints c))
          else if MinConnectivity c < 0 then Some (BadMinConnectivity (MinConnectivity c))
          else None))"

definition MaxTxsPerEndpoint :: "config \<Rightarrow> u64" where
  "MaxTxsPerEndpoint c =
     (if Count c > -1 then word_of_int (Count c)
      else word_of_int (Rate c) * word_of_int (Time c))"

subsection \<open>CoordinatorConfig.Validate and WorkerConfig.Validate\<close>

datatype coordinator_config_error =
    NoBindAddr
  | BadExpectWorkers int
  | BadWorkerConnectTimeout
  | BadLoadTestID

definition CoordinatorConfig_Validate ::
    "coordinator_config \<Rightarrow> coordinator_config_error option" where
  "CoordinatorConfig_Validate c =
     (if BindAddr c = '''' then Some NoBindAddr
      else if ExpectWorkers c < 1 then Some (BadExpectWorkers (ExpectWorkers c))
      else if WorkerConnectTimeout c < 1 then Some BadWorkerConnectTimeout
      else if LoadTestID c < 0 then Some BadLoadTestID
      else None)"

datatype worker_config_error =
    BadWorkerID string
  | NoCoordAddr
  | BadCoordConnectTimeout int

text \<open>
  \<open>isValidWorkerID\<close> (worker.go) ranges over the runes of the identifier.  For a rune up
  to U+00FF \<open>unicode.IsLower\<close> and \<open>unicode.IsDigit\<close> read the Latin-1 table; above,
  they consult the Unicode tables, which are the argument \<open>ucd\<close>.
\<close>

record unicode_tables =
  table_lower :: "nat \<Rightarrow> bool"
  table_digit :: "nat \<Rightarrow> bool"

definition IsLower :: "unicode_tables \<Rightarrow> nat \<Rightarrow> bool" where
  "IsLower ucd r \<longleftrightarrow>
     (if r \<le> 0xFF then (97 \<le> r \<and> r \<le> 122) \<or> r = 0xB5 \<or> (0xDF \<le> r \<and> r \<noteq> 0xF7)
      else table_lower ucd r)"

definition IsDigit :: "unicode_tables \<Rightarrow> nat \<Rightarrow> bool" where
  "IsDigit ucd r \<longleftrightarrow> (if r \<le> 0xFF then 48 \<le> r \<and> r \<le> 57 else table_digit ucd r)"

definition isValidWorkerID :: "unicode_tables \<Rightarrow> string \<Rightarrow> bool" where
  "isValidWorkerID ucd wid \<longleftrightarrow> list_all (\<lambda>r. IsLower ucd r \<or> IsDigit ucd r) (runes wid)"

definition WorkerConfig_Validate ::
    "unicode_tables \<Rightarrow> worker_config \<Rightarrow> worker_config_error option" where
  "WorkerConfig_Validate ucd c =
     (if WorkerID c \<noteq> '''' \<and> \<not> isValidWorkerID ucd (WorkerID c) then Some (BadWorkerID (WorkerID c))
      else if CoordAddr c = '''' then Some NoCoordAddr
      else if CoordConnectTimeout c < 1 then Some (BadCoordConnectTimeout (CoordConnectTimeout c))
      else None)"

end
