(* ===== verification/Client_KVStore.thy ===== *)
theory Client_KVStore
  imports Load_Config Rand_Str
begin

section \<open>The kvstore client (client_kvstore.go)\<close>

text \<open>
  The factory and the client of the built-in kvstore application: the table of key
  capacities, the search for a sufficient key suffix, the factory-specific validation,
  \<open>NewClient\<close> and \<open>GenerateTx\<close>, and the factory as an instance of the interface of
  \<open>Load_Config\<close>.
\<close>

definition KVStoreClientIDLen :: int where
  "KVStoreClientIDLen = 5"

definition kvstoreMinValueLen :: int where
  "kvstoreMinValueLen = 1"

definition kvstoreMaxTxsByKeySuffixLen :: "u64 list" where
  "kvstoreMaxTxsByKeySuffixLen =
     [0, 62, 1891, 37820, 557845, 6471002, 61474519, 491796152, 3381098545, 20286591270,
      107518933731, 508271323092, 2160153123141, 8308281242850, 29078984349975,
      93052749919920]"

datatype kv_error =
    NoMaxTxs u64
  | TooManyTxsSuffix u64 nat
  | TooManyTxs u64
  | TxTooSmall int int

fun kv_error_text :: "kv_error \<Rightarrow> string" where
  "kv_error_text (NoMaxTxs n) =
     ''cannot calculate an appropriate maximum number of transactions per endpoint (got ''
     @ show_nat (unat n) @ '')''"
| "kv_error_text (TooManyTxsSuffix n l) =
     ''cannot cater for maximum tx count of '' @ show_nat (unat n)
     @ '' (too many unique transactions, suffix length '' @ show_nat l @ '')''"
| "kv_error_text (TooManyTxs n) =
     ''cannot cater for maximum tx count of '' @ show_nat (unat n)
     @ '' (too many unique transactions)''"
| "kv_error_text (TxTooSmall sz minSz) =
     ''transaction size '' @ show_int sz
     @ '' is too small for given parameters (should be at least '' @ show_int minSz
     @ '' bytes)''"

text \<open>The \<open>range\<close> loop over the table; \<open>l\<close> is the index.\<close>

fun suffix_scan :: "u64 \<Rightarrow> nat \<Rightarrow> u64 list \<Rightarrow> kv_error + nat" where
  "suffix_scan maxTxCount l [] = Inl (TooManyTxs maxTxCount)"
| "suffix_scan maxTxCount l (maxTxs # rest) =
     (if maxTxCount < maxTxs then
        (if l + 1 > length kvstoreMaxTxsByKeySuffixLen
         then Inl (TooManyTxsSuffix maxTxCount (l + 1)) else Inr (l + 1))
      else suffix_scan maxTxCount (l + 1) rest)"

definition requiredKVStoreSuffixLen :: "u64 \<Rightarrow> kv_error + nat" where
  "requiredKVStoreSuffixLen maxTxCount = suffix_scan maxTxCount 0 kvstoreMaxTxsByKeySuffixLen"

definition KVStore_ValidateConfig :: "config \<Rightarrow> kv_error option" where
  "KVStore_ValidateConfig cfg =
     (let maxTxsPerEndpoint = MaxTxsPerEndpoint cfg in
      if maxTxsPerEndpoint < 1 then Some (NoMaxTxs maxTxsPerEndpoint)
      else case requiredKVStoreSuffixLen maxTxsPerEndpoint of
        Inl e \<Rightarrow> Some e
      | Inr minKeySuffixLen \<Rightarrow>
          (let minTxSize = KVStoreClientIDLen + int minKeySuffixLen + 1 + kvstoreMinValueLen in
           if Size cfg < minTxSize then Some (TxTooSmall (Size cfg) minTxSize) else None))"

record kv_client =
  keyPrefix :: string
  keySuffixLen :: int
  valueLen :: int

definition KVStore_NewClient :: "config \<Rightarrow> entropy \<Rightarrow> ((kv_error + kv_client) \<times> entropy) option" where
  "KVStore_NewClient cfg ent =
     (case randStr KVStoreClientIDLen ent of
        None \<Rightarrow> None
      | Some (prefix, ent') \<Rightarrow>
        (case requiredKVStoreSuffixLen (MaxTxsPerEndpoint cfg) of
           Inl e \<Rightarrow> Some (Inl e, ent')
         | Inr suffixLen \<Rightarrow>
             (let keyLen = int (length prefix) + int suffixLen;
                  vLen = i64 (i64 (Size cfg - keyLen) - 1)
              in Some (Inr \<lparr>keyPrefix = prefix, keySuffixLen = int suffixLen, valueLen = vLen\<rparr>,
                       ent'))))"

definition KVStore_GenerateTx :: "kv_client \<Rightarrow> entropy \<Rightarrow> ((string + string) \<times> entropy) option" where
  "KVStore_GenerateTx c ent =
     (case randStr (keySuffixLen c) ent of
        None \<Rightarrow> None
      | Some (suffix, ent1) \<Rightarrow>
        (case randStr (valueLen c) ent1 of
           None \<Rightarrow> None
         | Some (v, ent2) \<Rightarrow>
             (let k = keyPrefix c @ suffix in Some (Inr (k @ (''='' @ v)), ent2))))"

text \<open>The factory as the interface sees it.\<close>

definition KVStoreClientFactory :: "entropy client_factory" where
  "KVStoreClientFactory =
     \<lparr>ValidateConfig = (\<lambda>cfg. map_option kv_error_text (KVStore_ValidateConfig cfg)),
      NewClient = (\<lambda>cfg ent. map_option (\<lambda>(r, ent').
        (case r of Inl e \<Rightarrow> Inl (kv_error_text e)
                 | Inr c \<Rightarrow> Inr \<lparr>GenerateTx = KVStore_GenerateTx c\<rparr>, ent'))
        (KVStore_NewClient cfg ent))\<rparr>"

text \<open>The package's \<open>init\<close>: the registry after start-up.\<close>

definition init_registry :: "string option \<times> entropy registry" where
  "init_registry = RegisterClientFactory ''kvstore'' KVStoreClientFactory []"

subsection \<open>The suffix length\<close>

lemma length_suffix_table [simp]: "length kvstoreMaxTxsByKeySuffixLen = 16"
  by (simp add: kvstoreMaxTxsByKeySuffixLen_def)

text \<open>The scan stops at the first capacity above the count.\<close>

lemma suffix_scan_Inr:
  assumes "suffix_scan n l xs = Inr k"
  shows "\<exists>i. k = l + i + 1 \<and> i < length xs \<and> n < xs ! i \<and> (\<forall>j < i. xs ! j \<le> n)"
  using assms
proof (induction n l xs rule: suffix_scan.induct)
  case (1 n l)
  then show ?case by simp
next
  case (2 n l x rest)
  show ?case
  proof (cases "n < x")
    case True
    with 2 show ?thesis by (intro exI [of _ 0]) (auto split: if_splits)
  next
    case False
    with 2 obtain i where "k = l + 1 + i + 1" "i < length rest" "n < rest ! i"
        "\<forall>j < i. rest ! j \<le> n"
      by auto
    with False show ?thesis
      by (intro exI [of _ "Suc i"]) (auto simp: nth_Cons' not_less)
  qed
qed

lemma suffix_scan_total:
  assumes "x \<in> set xs" and "n < x" and "l + length xs \<le> 16"
  shows "\<exists>k. suffix_scan n l xs = Inr k"
  using assms by (induction n l xs rule: suffix_scan.induct) auto

lemma suffix_scan_Inl:
  assumes "suffix_scan n l xs = Inl e" and "l + length xs \<le> 16"
  shows "e = TooManyTxs n \<and> (\<forall>x \<in> set xs. x \<le> n)"
  using assms by (induction n l xs rule: suffix_scan.induct) (auto split: if_splits)

lemma suffix_table_sorted: "sorted kvstoreMaxTxsByKeySuffixLen"
  by (simp add: kvstoreMaxTxsByKeySuffixLen_def)

lemma suffix_table_last: "x \<in> set kvstoreMaxTxsByKeySuffixLen \<Longrightarrow> x \<le> 93052749919920"
  by (auto simp: kvstoreMaxTxsByKeySuffixLen_def)

lemma requiredKVStoreSuffixLen_Inr:
  assumes "requiredKVStoreSuffixLen n = Inr k"
  shows "2 \<le> k" and "k \<le> 16" and "n < kvstoreMaxTxsByKeySuffixLen ! (k - 1)"
    and "kvstoreMaxTxsByKeySuffixLen ! (k - 2) \<le> n"
proof -
  obtain i where i: "k = i + 1" "i < 16" "n < kvstoreMaxTxsByKeySuffixLen ! i"
      "\<forall>j < i. kvstoreMaxTxsByKeySuffixLen ! j \<le> n"
    using suffix_scan_Inr [of n 0 kvstoreMaxTxsByKeySuffixLen k] assms
    by (auto simp: requiredKVStoreSuffixLen_def)
  have "i \<noteq> 0"
    using i(3) by (intro notI) (simp add: kvstoreMaxTxsByKeySuffixLen_def)
  with i show "2 \<le> k" "k \<le> 16" "n < kvstoreMaxTxsByKeySuffixLen ! (k - 1)"
    "kvstoreMaxTxsByKeySuffixLen ! (k - 2) \<le> n" by simp_all
qed

lemma requiredKVStoreSuffixLen_unique:
  assumes "requiredKVStoreSuffixLen n = Inr k'" and "k \<le> 16" and "2 \<le> k"
    and "n < kvstoreMaxTxsByKeySuffixLen ! (k - 1)" and "kvstoreMaxTxsByKeySuffixLen ! (k - 2) \<le> n"
  shows "k' = k"
proof (rule linorder_cases)
  assume "k' < k"
  then have "kvstoreMaxTxsByKeySuffixLen ! (k' - 1) \<le> kvstoreMaxTxsByKeySuffixLen ! (k - 2)"
    using assms(2) by (intro sorted_nth_mono suffix_table_sorted) auto
  with requiredKVStoreSuffixLen_Inr(3) [OF assms(1)] assms(5) show ?thesis by simp
next
  assume "k < k'"
  then have "kvstoreMaxTxsByKeySuffixLen ! (k - 1) \<le> kvstoreMaxTxsByKeySuffixLen ! (k' - 2)"
    using requiredKVStoreSuffixLen_Inr(2) [OF assms(1)]
    by (intro sorted_nth_mono suffix_table_sorted) auto
  with requiredKVStoreSuffixLen_Inr(4) [OF assms(1)] assms(4) show ?thesis by simp
qed

lemma requiredKVStoreSuffixLen_total:
  assumes "n < 93052749919920"
  shows "\<exists>k. requiredKVStoreSuffixLen n = Inr k"
  unfolding requiredKVStoreSuffixLen_def
  using assms by (intro suffix_scan_total [where x = 93052749919920])
    (simp_all add: kvstoreMaxTxsByKeySuffixLen_def)

lemma requiredKVStoreSuffixLen_Inl:
  assumes "requiredKVStoreSuffixLen n = Inl e"
  shows "e = TooManyTxs n" and "93052749919920 \<le> n"
proof -
  from assms have "e = TooManyTxs n \<and> (\<forall>x \<in> set kvstoreMaxTxsByKeySuffixLen. x \<le> n)"
    unfolding requiredKVStoreSuffixLen_def by (rule suffix_scan_Inl) simp
  then show "e = TooManyTxs n" "93052749919920 \<le> n"
    by (simp_all add: kvstoreMaxTxsByKeySuffixLen_def)
qed

lemma requiredKVStoreSuffixLen_too_many:
  assumes "93052749919920 \<le> n"
  shows "requiredKVStoreSuffixLen n = Inl (TooManyTxs n)"
proof (cases "requiredKVStoreSuffixLen n")
  case (Inl e)
  then show ?thesis using requiredKVStoreSuffixLen_Inl(1) by simp
next
  case (Inr k)
  have "kvstoreMaxTxsByKeySuffixLen ! (k - 1) \<le> 93052749919920"
    using requiredKVStoreSuffixLen_Inr(1,2) [OF Inr] by (intro suffix_table_last nth_mem) simp
  with requiredKVStoreSuffixLen_Inr(3) [OF Inr] assms show ?thesis by simp
qed

text \<open>\<open>requiredKVStoreSuffixLen\<close> returns exactly the length one past the first table entry
  above the count, always between 2 and 16, and fails exactly from the last entry on; the
  guard inside the loop never fires.\<close>

theorem suffix_length_exact:
  "(requiredKVStoreSuffixLen n = Inr k \<longleftrightarrow>
      2 \<le> k \<and> k \<le> 16 \<and> kvstoreMaxTxsByKeySuffixLen ! (k - 2) \<le> n \<and>
      n < kvstoreMaxTxsByKeySuffixLen ! (k - 1)) \<and>
   (requiredKVStoreSuffixLen n = Inl e \<longleftrightarrow> e = TooManyTxs n \<and> 93052749919920 \<le> n)"
proof (intro conjI iffI)
  assume "requiredKVStoreSuffixLen n = Inr k"
  then show "2 \<le> k" "k \<le> 16" "kvstoreMaxTxsByKeySuffixLen ! (k - 2) \<le> n"
    "n < kvstoreMaxTxsByKeySuffixLen ! (k - 1)"
    by (rule requiredKVStoreSuffixLen_Inr)+
next
  assume k: "2 \<le> k \<and> k \<le> 16 \<and> kvstoreMaxTxsByKeySuffixLen ! (k - 2) \<le> n \<and>
      n < kvstoreMaxTxsByKeySuffixLen ! (k - 1)"
  then have "kvstoreMaxTxsByKeySuffixLen ! (k - 1) \<le> 93052749919920"
    by (intro suffix_table_last nth_mem) auto
  with k have "n < 93052749919920" by (blast intro: less_le_trans)
  then obtain k' where "requiredKVStoreSuffixLen n = Inr k'"
    using requiredKVStoreSuffixLen_total by blast
  with k show "requiredKVStoreSuffixLen n = Inr k"
    using requiredKVStoreSuffixLen_unique by blast
next
  assume "requiredKVStoreSuffixLen n = Inl e"
  then show "e = TooManyTxs n" "93052749919920 \<le> n"
    by (rule requiredKVStoreSuffixLen_Inl)+
next
  assume "e = TooManyTxs n \<and> 93052749919920 \<le> n"
  then show "requiredKVStoreSuffixLen n = Inl e"
    by (simp add: requiredKVStoreSuffixLen_too_many)
qed

lemma choose_step: "(n choose Suc k) = (n - k) * (n choose k) div Suc k"
  by (metis binomial_absorb_comp binomial_absorption nonzero_mult_div_cancel_left nat.distinct(1))

lemma choose_next:
  assumes "(n choose k) = c" and "k' = Suc k" and "(n - k) * c div k' = c'"
  shows "(n choose k') = c'"
  using assms choose_step [of n k] by simp

lemma choose_62_1: "(62 choose 1) = (62 :: nat)"
  by (rule choose_one)

lemma choose_62_2: "(62 choose 2) = (1891 :: nat)"
  by (rule choose_next [OF choose_62_1]) simp_all

lemma choose_62_3: "(62 choose 3) = (37820 :: nat)"
  by (rule choose_next [OF choose_62_2]) simp_all

lemma choose_62_4: "(62 choose 4) = (557845 :: nat)"
  by (rule choose_next [OF choose_62_3]) simp_all

lemma choose_62_5: "(62 choose 5) = (6471002 :: nat)"
  by (rule choose_next [OF choose_62_4]) simp_all

lemma choose_62_6: "(62 choose 6) = (61474519 :: nat)"
  by (rule choose_next [OF choose_62_5]) simp_all

lemma choose_62_7: "(62 choose 7) = (491796152 :: nat)"
  by (rule choose_next [OF choose_62_6]) simp_all

lemma choose_62_8: "(62 choose 8) = (3381098545 :: nat)"
  by (rule choose_next [OF choose_62_7]) simp_all

lemma choose_62_9: "(62 choose 9) = (20286591270 :: nat)"
  by (rule choose_next [OF choose_62_8]) simp_all

lemma choose_62_10: "(62 choose 10) = (107518933731 :: nat)"
  by (rule choose_next [OF choose_62_9]) simp_all

lemma choose_62_11: "(62 choose 11) = (508271323092 :: nat)"
  by (rule choose_next [OF choose_62_10]) simp_all

lemma choose_62_12: "(62 choose 12) = (2160153123141 :: nat)"
  by (rule choose_next [OF choose_62_11]) simp_all

lemma choose_62_13: "(62 choose 13) = (8308281242850 :: nat)"
  by (rule choose_next [OF choose_62_12]) simp_all

lemma choose_62_14: "(62 choose 14) = (29078984349975 :: nat)"
  by (rule choose_next [OF choose_62_13]) simp_all

lemma choose_62_15: "(62 choose 15) = (93052749919920 :: nat)"
  by (rule choose_next [OF choose_62_14]) simp_all

lemmas choose_62 = choose_62_1 choose_62_2 choose_62_3 choose_62_4 choose_62_5 choose_62_6 choose_62_7 choose_62_8 choose_62_9 choose_62_10 choose_62_11 choose_62_12 choose_62_13 choose_62_14 choose_62_15

lemma suffix_table_choose:
  "map unat kvstoreMaxTxsByKeySuffixLen = 0 # map (\<lambda>r. length strChars choose r) [1..<16]"
proof -
  have "[1..<16] = [1, 2, 3, 4, 5, 6, 7, 8, 9, 10, 11, 12, 13, 14, 15 :: nat]"
    by code_simp
  then show ?thesis
    by (simp add: kvstoreMaxTxsByKeySuffixLen_def length_strChars choose_62
        del: upt_rec_numeral binomial_Suc_Suc)
qed

text \<open>The capacity table is the one its comment describes: entry \<open>r\<close> is the number of
  \<open>r\<close>-element subsets of the 62 characters, for \<open>r\<close> from 1 to 15; entry 0 is 0, where the
  formula would give 1.\<close>

theorem suffix_table_binomial:
  "map unat kvstoreMaxTxsByKeySuffixLen = 0 # map (\<lambda>r. length strChars choose r) [1..<16]"
  by (rule suffix_table_choose)

lemma suffix_table_le_power:
  assumes "i < 16"
  shows "unat (kvstoreMaxTxsByKeySuffixLen ! i) \<le> 62 ^ i"
proof (cases i)
  case 0
  then show ?thesis by (simp add: kvstoreMaxTxsByKeySuffixLen_def)
next
  case (Suc j)
  have "unat (kvstoreMaxTxsByKeySuffixLen ! i) = map unat kvstoreMaxTxsByKeySuffixLen ! i"
    using assms by simp
  also have "\<dots> = (62 choose i)"
    using assms Suc by (simp add: suffix_table_choose nth_append length_strChars)
  also have "\<dots> \<le> 62 ^ i" using assms by (intro binomial_le_pow) simp
  finally show ?thesis .
qed

text \<open>The suffix leaves room for more distinct keys than there are transactions: the strings
  of the chosen length over the alphabet outnumber the count.\<close>

theorem suffix_key_space:
  assumes "requiredKVStoreSuffixLen n = Inr k"
  shows "unat n * 62 < card {s. set s \<subseteq> set strChars \<and> length s = k}"
proof -
  note r = requiredKVStoreSuffixLen_Inr [OF assms]
  have "unat n < unat (kvstoreMaxTxsByKeySuffixLen ! (k - 1))"
    using r(3) by (simp add: word_less_nat_alt)
  also have "\<dots> \<le> 62 ^ (k - 1)" using r(1,2) by (intro suffix_table_le_power) simp
  finally have "unat n * 62 < 62 ^ (k - 1) * 62" by simp
  also have "\<dots> = 62 ^ k" using r(1) by (cases k) simp_all
  also have "\<dots> = card {s. set s \<subseteq> set strChars \<and> length s = k}"
    by (simp add: card_lists_length_eq distinct_card [OF distinct_strChars] length_strChars)
  finally show ?thesis .
qed

theorem suffix_key_space_witness:
  "requiredKVStoreSuffixLen 60000 = Inr 5 \<and>
   unat (60000 :: u64) * 62 < card {s. set s \<subseteq> set strChars \<and> length s = 5}"
proof -
  have "requiredKVStoreSuffixLen 60000 = Inr 5"
    by (simp add: requiredKVStoreSuffixLen_def kvstoreMaxTxsByKeySuffixLen_def)
  from this suffix_key_space [OF this] show ?thesis by (rule conjI)
qed

subsection \<open>The estimate of the number of transactions\<close>

lemma unat_word_of_int_nonneg:
  "0 \<le> n \<Longrightarrow> n < 2 ^ 64 \<Longrightarrow> unat (word_of_int n :: u64) = nat n"
  by (simp add: unat_eq_nat_uint uint_word_of_int)

text \<open>\<open>MaxTxsPerEndpoint\<close> is the configured limit, or rate times duration when there is
  none, as long as that product fits in 64 bits.\<close>

theorem max_txs_exact:
  assumes "config_ints c" and "Count c > -1 \<or> 0 \<le> Rate c \<and> 0 \<le> Time c \<and> Rate c * Time c < 2 ^ 64"
  shows "int (unat (MaxTxsPerEndpoint c)) = (if Count c > -1 then Count c else Rate c * Time c)"
proof (cases "Count c > -1")
  case True
  with assms(1) show ?thesis
    by (simp add: MaxTxsPerEndpoint_def unat_word_of_int_nonneg config_ints_def in_i64_def)
next
  case False
  with assms(2) have p: "0 \<le> Rate c * Time c" "Rate c * Time c < 2 ^ 64" by simp_all
  have "MaxTxsPerEndpoint c = word_of_int (Rate c * Time c)"
    using False by (simp add: MaxTxsPerEndpoint_def)
  with False p show ?thesis by (simp only: unat_word_of_int_nonneg) simp
qed

theorem max_txs_exact_witness:
  "int (unat (MaxTxsPerEndpoint (flag_defaults ''kvstore''))) = 60000"
  by (subst max_txs_exact) (simp_all add: flag_defaults_def config_ints_def in_i64_def)

subsection \<open>Validation\<close>

lemma KVStore_ValidateConfig_None:
  "KVStore_ValidateConfig cfg = None \<longleftrightarrow>
     MaxTxsPerEndpoint cfg \<noteq> 0 \<and>
     (\<exists>k. requiredKVStoreSuffixLen (MaxTxsPerEndpoint cfg) = Inr k \<and> int k + 7 \<le> Size cfg)"
  by (auto simp: KVStore_ValidateConfig_def Let_def KVStoreClientIDLen_def
      kvstoreMinValueLen_def not_le split: sum.splits)

text \<open>The kvstore validation gives its four outcomes exactly: no transactions at all, too many
  for the table, a transaction size with no room for identifier, suffix, separator and one
  byte of value, and success otherwise.\<close>

theorem kv_validate_outcomes:
  "KVStore_ValidateConfig cfg =
     (let n = MaxTxsPerEndpoint cfg in
      if n = 0 then Some (NoMaxTxs 0)
      else if 93052749919920 \<le> n then Some (TooManyTxs n)
      else (let k = projr (requiredKVStoreSuffixLen n) in
            if Size cfg < int k + 7 then Some (TxTooSmall (Size cfg) (int k + 7)) else None))"
proof (cases "requiredKVStoreSuffixLen (MaxTxsPerEndpoint cfg)")
  case (Inl e)
  then have "e = TooManyTxs (MaxTxsPerEndpoint cfg)" "93052749919920 \<le> MaxTxsPerEndpoint cfg"
    by (rule requiredKVStoreSuffixLen_Inl)+
  with Inl show ?thesis
    by (simp add: KVStore_ValidateConfig_def Let_def)
next
  case (Inr k)
  have "\<not> 93052749919920 \<le> MaxTxsPerEndpoint cfg"
    using requiredKVStoreSuffixLen_too_many [of "MaxTxsPerEndpoint cfg"] Inr by auto
  with Inr show ?thesis
    by (simp add: KVStore_ValidateConfig_def Let_def KVStoreClientIDLen_def
        kvstoreMinValueLen_def algebra_simps)
qed

subsection \<open>Clients and transactions\<close>

lemma KVStore_NewClient_Inr:
  assumes "KVStore_NewClient cfg ent = Some (Inr c, ent')"
  shows "\<exists>k. requiredKVStoreSuffixLen (MaxTxsPerEndpoint cfg) = Inr k \<and> keySuffixLen c = int k \<and>
       length (keyPrefix c) = 5 \<and> set (keyPrefix c) \<subseteq> set strChars \<and>
       valueLen c = i64 (i64 (Size cfg - (5 + int k)) - 1)"
proof -
  obtain pre e1 where r: "randStr KVStoreClientIDLen ent = Some (pre, e1)"
    using assms by (cases "randStr KVStoreClientIDLen ent") (auto simp: KVStore_NewClient_def)
  have p: "length pre = 5" "set pre \<subseteq> set strChars"
    using randStr_Some [OF r] by (simp_all add: KVStoreClientIDLen_def)
  show ?thesis
    using assms p by (auto simp: KVStore_NewClient_def r Let_def split: sum.splits)
qed

lemma KVStore_NewClient_valid:
  assumes "KVStore_ValidateConfig cfg = None" and "KVStore_NewClient cfg ent = Some (r, ent')"
  shows "\<exists>c. r = Inr c"
  using assms by (auto simp: KVStore_ValidateConfig_None KVStore_NewClient_def Let_def
      split: option.splits sum.splits)

lemma KVStore_valueLen_valid:
  assumes "config_ints cfg" and "KVStore_ValidateConfig cfg = None"
    and "KVStore_NewClient cfg ent = Some (Inr c, ent')"
  shows "1 \<le> valueLen c" and "2 \<le> keySuffixLen c" and "5 + keySuffixLen c + 1 + valueLen c = Size cfg"
proof -
  obtain k where k: "requiredKVStoreSuffixLen (MaxTxsPerEndpoint cfg) = Inr k"
      "int k + 7 \<le> Size cfg"
    using assms(2) by (auto simp: KVStore_ValidateConfig_None)
  have c: "keySuffixLen c = int k" "valueLen c = i64 (i64 (Size cfg - (5 + int k)) - 1)"
    using KVStore_NewClient_Inr [OF assms(3)] k(1) by auto
  have "Size cfg < 2 ^ 63" using assms(1) by (simp add: config_ints_def in_i64_def)
  then have "valueLen c = Size cfg - (5 + int k) - 1"
    using k(2) c(2) by (simp add: i64_id in_i64_def)
  with c k(2) requiredKVStoreSuffixLen_Inr(1) [OF k(1)]
  show "1 \<le> valueLen c" "2 \<le> keySuffixLen c" "5 + keySuffixLen c + 1 + valueLen c = Size cfg"
    by simp_all
qed

lemma KVStore_GenerateTx_shape:
  assumes "KVStore_GenerateTx c ent = Some (g, ent')"
  shows "\<exists>suffix v. g = Inr (keyPrefix c @ suffix @ ''='' @ v) \<and>
      int (length suffix) = max 0 (keySuffixLen c) \<and> int (length v) = max 0 (valueLen c) \<and>
      set suffix \<subseteq> set strChars \<and> set v \<subseteq> set strChars"
proof -
  obtain suf e1 where 1: "randStr (keySuffixLen c) ent = Some (suf, e1)"
    using assms by (auto simp: KVStore_GenerateTx_def split: option.splits)
  obtain v e2 where 2: "randStr (valueLen c) e1 = Some (v, e2)"
    using assms 1 by (auto simp: KVStore_GenerateTx_def split: option.splits)
  show ?thesis
    using assms randStr_Some(1,2) [OF 1] randStr_Some(1,2) [OF 2]
    by (auto simp: KVStore_GenerateTx_def 1 2 Let_def)
qed

lemma KVStore_GenerateTx_enough:
  assumes "max 0 (keySuffixLen c) + max 0 (valueLen c) \<le> int (length ent)"
  shows "\<exists>g ent'. KVStore_GenerateTx c ent = Some (g, ent')"
proof -
  have "keySuffixLen c \<le> int (length ent)" using assms by linarith
  then obtain suf e1 where 1: "randStr (keySuffixLen c) ent = Some (suf, e1)"
    using randStr_enough by blast
  have "int (length e1) = int (length ent) - max 0 (keySuffixLen c)"
    using 1 by (auto simp: randStr_def split: if_splits)
  then have "valueLen c \<le> int (length e1)" using assms by linarith
  then obtain v e2 where "randStr (valueLen c) e1 = Some (v, e2)"
    using randStr_enough by blast
  with 1 show ?thesis by (simp add: KVStore_GenerateTx_def Let_def)
qed

text \<open>C11: a client made from a configuration that passed validation produces, given enough
  randomness, a transaction of exactly the configured size: a five-character identifier, a
  suffix of at least two characters, an equals sign and a non-empty value, all drawn from the
  62-character alphabet.\<close>

theorem kv_tx_exact:
  assumes "config_ints cfg" and "KVStore_ValidateConfig cfg = None"
    and "KVStore_NewClient cfg ent0 = Some (Inr c, ent1)" and "Size cfg \<le> int (length ent)"
  shows "\<exists>suffix v ent'. KVStore_GenerateTx c ent = Some (Inr (keyPrefix c @ suffix @ ''='' @ v), ent') \<and>
      length (keyPrefix c) = 5 \<and> 2 \<le> length suffix \<and> 1 \<le> length v \<and>
      int (length (keyPrefix c @ suffix @ ''='' @ v)) = Size cfg \<and>
      set (keyPrefix c) \<union> set suffix \<union> set v \<subseteq> set strChars"
proof -
  note l = KVStore_valueLen_valid [OF assms(1-3)]
  obtain g ent' where g: "KVStore_GenerateTx c ent = Some (g, ent')"
    using KVStore_GenerateTx_enough [of c ent] l assms(4) by auto
  obtain suf v where s: "g = Inr (keyPrefix c @ suf @ ''='' @ v)"
      "int (length suf) = max 0 (keySuffixLen c)" "int (length v) = max 0 (valueLen c)"
      "set suf \<subseteq> set strChars" "set v \<subseteq> set strChars"
    using KVStore_GenerateTx_shape [OF g] by blast
  have p: "length (keyPrefix c) = 5" "set (keyPrefix c) \<subseteq> set strChars"
    using KVStore_NewClient_Inr [OF assms(3)] by auto
  show ?thesis using g s p l by (intro exI [of _ suf] exI [of _ v] exI [of _ ent']) auto
qed

theorem kv_tx_exact_witness:
  "\<exists>suffix v ent'.
     KVStore_GenerateTx \<lparr>keyPrefix = ''00000'', keySuffixLen = 2, valueLen = 1\<rparr> (replicate 9 7) =
       Some (Inr (''00000'' @ suffix @ ''='' @ v), ent') \<and>
     length ''00000'' = 5 \<and> 2 \<le> length suffix \<and> 1 \<le> length v \<and>
     int (length (''00000'' @ suffix @ ''='' @ v)) = 9 \<and>
     set ''00000'' \<union> set suffix \<union> set v \<subseteq> set strChars"
proof -
  let ?cfg = "(flag_defaults ''kvstore'')\<lparr>Count := 10, Size := 9\<rparr>"
  let ?c = "\<lparr>keyPrefix = ''00000'', keySuffixLen = 2, valueLen = 1\<rparr>"
  have r: "requiredKVStoreSuffixLen 10 = Inr 2"
    by (simp add: requiredKVStoreSuffixLen_def kvstoreMaxTxsByKeySuffixLen_def)
  have m: "MaxTxsPerEndpoint ?cfg = 10" by (simp add: MaxTxsPerEndpoint_def flag_defaults_def)
  have "config_ints ?cfg" by (simp add: config_ints_def in_i64_def flag_defaults_def)
  moreover have "KVStore_ValidateConfig ?cfg = None"
    by (simp add: KVStore_ValidateConfig_None r m)
  moreover have "randStr 5 [0, 0, 0, 0, 0] = Some (''00000'', [])"
    by (simp add: randStr_def rand_char_def strChars_def)
  then have "KVStore_NewClient ?cfg [0, 0, 0, 0, 0] = Some (Inr ?c, [])"
    by (simp add: KVStore_NewClient_def KVStoreClientIDLen_def i64_def r m)
  moreover have "Size ?cfg \<le> int (length (replicate 9 7 :: entropy))" by simp
  ultimately show ?thesis
    using kv_tx_exact [of ?cfg "[0, 0, 0, 0, 0]" ?c "[]" "replicate 9 7"] by simp
qed

text \<open>The factory keeps the contract of exact-size clients.\<close>

interpretation kv: exact_size_clients KVStoreClientFactory
proof unfold_locales
  fix cfg w r w'
  assume "ValidateConfig KVStoreClientFactory cfg = None"
    and "NewClient KVStoreClientFactory cfg w = Some (r, w')"
  moreover from this obtain r0 where "KVStore_NewClient cfg w = Some (r0, w')"
      "r = (case r0 of Inl e \<Rightarrow> Inl (kv_error_text e) | Inr c \<Rightarrow> Inr \<lparr>GenerateTx = KVStore_GenerateTx c\<rparr>)"
    by (auto simp: KVStoreClientFactory_def)
  ultimately show "\<exists>cl. r = Inr cl"
    using KVStore_NewClient_valid [of cfg w r0 w'] by (auto simp: KVStoreClientFactory_def)
next
  fix cfg w cl w' v g v'
  assume i: "config_ints cfg" and val: "ValidateConfig KVStoreClientFactory cfg = None"
    and new: "NewClient KVStoreClientFactory cfg w = Some (Inr cl, w')"
    and gen: "GenerateTx cl v = Some (g, v')"
  from new obtain r0 where r0: "KVStore_NewClient cfg w = Some (r0, w')"
      "Inr cl = (case r0 of Inl e \<Rightarrow> Inl (kv_error_text e) | Inr c \<Rightarrow> Inr \<lparr>GenerateTx = KVStore_GenerateTx c\<rparr>)"
    by (auto simp: KVStoreClientFactory_def)
  then obtain c where c: "KVStore_NewClient cfg w = Some (Inr c, w')"
      "cl = \<lparr>GenerateTx = KVStore_GenerateTx c\<rparr>"
    by (cases r0) auto
  have v: "KVStore_ValidateConfig cfg = None" using val by (simp add: KVStoreClientFactory_def)
  have g: "KVStore_GenerateTx c v = Some (g, v')" using gen c(2) by simp
  show "\<exists>tx. g = Inr tx \<and> int (length tx) = Size cfg"
    using KVStore_GenerateTx_shape [OF g] KVStore_valueLen_valid [OF i v c(1)]
      KVStore_NewClient_Inr [OF c(1)] by auto
qed

subsection \<open>The registry at start-up\<close>

lemma gget_init_registry:
  "gget (snd init_registry) n = (if n = ''kvstore'' then Some KVStoreClientFactory else None)"
  by (simp add: init_registry_def RegisterClientFactory_def ghas_def)

lemma guard_None: "(if b then Some e else rest) = None \<longleftrightarrow> \<not> b \<and> rest = None"
  by simp

lemma config_validate_kvstore_iff:
  "Config_Validate (snd init_registry) c = None \<longleftrightarrow>
     ClientFactory c = ''kvstore'' \<and> KVStore_ValidateConfig c = None \<and>
     1 \<le> Connections c \<and> 1 \<le> Time c \<and> 1 \<le> SendPeriod c \<and> 1 \<le> Rate c \<and>
     (1 \<le> Count c \<or> Count c = -1) \<and> BroadcastTxMethod c \<in> {''async'', ''sync'', ''commit''} \<and>
     Endpoints c \<noteq> [] \<and> EndpointSelectMethod c \<in> {''supplied'', ''discovered'', ''any''} \<and>
     0 \<le> ExpectPeers c \<and> (ExpectPeers c = 0 \<or> 1 \<le> PeerConnectTimeout c) \<and>
     0 \<le> MaxEndpoints c \<and> 0 \<le> MinConnectivity c"
proof (cases "ClientFactory c = ''kvstore''")
  case False
  then show ?thesis by (simp add: Config_Validate_def gget_init_registry)
next
  case True
  have v: "set validBroadcastTxMethods = {''async'', ''sync'', ''commit''}"
    "set validEndpointSelectMethods = {''supplied'', ''discovered'', ''any''}"
    by (simp_all add: validBroadcastTxMethods_def validEndpointSelectMethods_def
        SelectSuppliedEndpoints_def SelectDiscoveredEndpoints_def SelectAnyEndpoints_def)
  have k: "ValidateConfig KVStoreClientFactory c = map_option kv_error_text (KVStore_ValidateConfig c)"
    by (simp add: KVStoreClientFactory_def)
  show ?thesis
  proof (cases "KVStore_ValidateConfig c")
    case (Some e)
    with True show ?thesis by (simp add: Config_Validate_def gget_init_registry k)
  next
    case None
    then have k': "ValidateConfig KVStoreClientFactory c = None" by (simp add: k)
    have "Config_Validate (snd init_registry) c = None \<longleftrightarrow>
        \<not> Connections c < 1 \<and> \<not> Time c < 1 \<and> \<not> SendPeriod c < 1 \<and> \<not> Rate c < 1 \<and>
        \<not> (Count c < 1 \<and> Count c \<noteq> -1) \<and> \<not> BroadcastTxMethod c \<notin> set validBroadcastTxMethods \<and>
        \<not> length (Endpoints c) = 0 \<and> \<not> EndpointSelectMethod c \<notin> set validEndpointSelectMethods \<and>
        \<not> ExpectPeers c < 0 \<and> \<not> (ExpectPeers c > 0 \<and> PeerConnectTimeout c < 1) \<and>
        \<not> MaxEndpoints c < 0 \<and> \<not> MinConnectivity c < 0"
      unfolding Config_Validate_def gget_init_registry True k'
      by (simp only: if_True option.simps guard_None list.distinct refl simp_thms k')
    also have "\<dots> \<longleftrightarrow> 1 \<le> Connections c \<and> 1 \<le> Time c \<and> 1 \<le> SendPeriod c \<and> 1 \<le> Rate c \<and>
        (1 \<le> Count c \<or> Count c = -1) \<and> BroadcastTxMethod c \<in> set validBroadcastTxMethods \<and>
        Endpoints c \<noteq> [] \<and> EndpointSelectMethod c \<in> set validEndpointSelectMethods \<and>
        0 \<le> ExpectPeers c \<and> (ExpectPeers c = 0 \<or> 1 \<le> PeerConnectTimeout c) \<and>
        0 \<le> MaxEndpoints c \<and> 0 \<le> MinConnectivity c"
      by (simp only: not_less not_not length_0_conv de_Morgan_conj) linarith
    finally show ?thesis using True None by (simp only: v refl simp_thms)
  qed
qed

text \<open>With the start-up registry, a configuration passes validation exactly when it names the
  kvstore client, passes the client's own validation and every one of the remaining checks.\<close>

theorem config_validate_kvstore:
  "Config_Validate (snd init_registry) c = None \<longleftrightarrow>
     ClientFactory c = ''kvstore'' \<and> KVStore_ValidateConfig c = None \<and>
     1 \<le> Connections c \<and> 1 \<le> Time c \<and> 1 \<le> SendPeriod c \<and> 1 \<le> Rate c \<and>
     (1 \<le> Count c \<or> Count c = -1) \<and> BroadcastTxMethod c \<in> {''async'', ''sync'', ''commit''} \<and>
     Endpoints c \<noteq> [] \<and> EndpointSelectMethod c \<in> {''supplied'', ''discovered'', ''any''} \<and>
     0 \<le> ExpectPeers c \<and> (ExpectPeers c = 0 \<or> 1 \<le> PeerConnectTimeout c) \<and>
     0 \<le> MaxEndpoints c \<and> 0 \<le> MinConnectivity c"
  by (rule config_validate_kvstore_iff)

end
