(* ===== verification/Go_Encoding.thy ===== *)
theory Go_Encoding
  imports Go_Prelude
begin

section \<open>Wire encodings: JSON values, base64 and hexadecimal\<close>

text \<open>
  What encoding/json, encoding/base64 and encoding/hex do with the values the program gives
  them.  A JSON document is the tree it denotes; objects keep the order of their members.
  Base64 is the padded standard alphabet; the decoder skips line breaks, wants full quanta
  and does not look at the unused bits of the last one, as \<open>base64.StdEncoding\<close> does.
\<close>

datatype json =
    JNull
  | JBool bool
  | JNum int
  | JStr string
  | JArr "json list"
  | JObj "(string \<times> json) list"

subsection \<open>Base64\<close>

definition b64_alphabet :: string where
  "b64_alphabet = ''ABCDEFGHIJKLMNOPQRSTUVWXYZabcdefghijklmnopqrstuvwxyz0123456789+/''"

definition b64_char :: "nat \<Rightarrow> char" where
  "b64_char n = b64_alphabet ! n"

definition b64_val :: "char \<Rightarrow> nat option" where
  "b64_val ch = map_of (zip b64_alphabet [0..<64]) ch"

fun b64_encode_bytes :: "nat list \<Rightarrow> string" where
  "b64_encode_bytes [] = []"
| "b64_encode_bytes [a] = [b64_char (a div 4), b64_char (a mod 4 * 16), CHR ''='', CHR ''='']"
| "b64_encode_bytes [a, b] =
     [b64_char (a div 4), b64_char (a mod 4 * 16 + b div 16), b64_char (b mod 16 * 4), CHR ''='']"
| "b64_encode_bytes (a # b # c # rest) =
     b64_char (a div 4) # b64_char (a mod 4 * 16 + b div 16) #
     b64_char (b mod 16 * 4 + c div 64) # b64_char (c mod 64) # b64_encode_bytes rest"

fun b64_decode_quanta :: "string \<Rightarrow> nat list option" where
  "b64_decode_quanta [] = Some []"
| "b64_decode_quanta (p # q # r # s # rest) =
     (if r = CHR ''='' \<and> s = CHR ''='' \<and> rest = [] then
        (case (b64_val p, b64_val q) of
           (Some u, Some v) \<Rightarrow> Some [u * 4 + v div 16]
         | _ \<Rightarrow> None)
      else if s = CHR ''='' \<and> rest = [] then
        (case (b64_val p, b64_val q, b64_val r) of
           (Some u, Some v, Some w) \<Rightarrow> Some [u * 4 + v div 16, v mod 16 * 16 + w div 4]
         | _ \<Rightarrow> None)
      else
        (case (b64_val p, b64_val q, b64_val r, b64_val s, b64_decode_quanta rest) of
           (Some u, Some v, Some w, Some x, Some bs) \<Rightarrow>
             Some ((u * 4 + v div 16) # (v mod 16 * 16 + w div 4) # (w mod 4 * 64 + x) # bs)
         | _ \<Rightarrow> None))"
| "b64_decode_quanta _ = None"

definition b64_encode :: "string \<Rightarrow> string" where
  "b64_encode s = b64_encode_bytes (map of_char s)"

definition b64_decode :: "string \<Rightarrow> string option" where
  "b64_decode s =
     map_option (map char_of) (b64_decode_quanta (filter (\<lambda>ch. ch \<noteq> CHR 0x0A \<and> ch \<noteq> CHR 0x0D) s))"

lemma length_b64_alphabet: "length b64_alphabet = 64"
  by (simp add: b64_alphabet_def)

lemma distinct_b64_alphabet: "distinct b64_alphabet"
  by (simp add: b64_alphabet_def)

lemma b64_val_char [simp]: "n < 64 \<Longrightarrow> b64_val (b64_char n) = Some n"
proof -
  assume "n < 64"
  then have "map_of (zip b64_alphabet [0..<64]) (b64_alphabet ! n) = Some ([0..<64] ! n)"
    by (intro map_of_zip_nth) (simp_all add: length_b64_alphabet distinct_b64_alphabet)
  with \<open>n < 64\<close> show ?thesis by (simp add: b64_val_def b64_char_def)
qed

lemma b64_char_in: "n < 64 \<Longrightarrow> b64_char n \<in> set b64_alphabet"
  by (simp add: b64_char_def length_b64_alphabet)

lemma b64_char_not_special [simp]:
  assumes "n < 64"
  shows "b64_char n \<noteq> CHR ''=''" and "b64_char n \<noteq> CHR 0x0A" and "b64_char n \<noteq> CHR 0x0D"
  using b64_char_in [OF assms] by (auto simp: b64_alphabet_def)

lemma b64_bounds [simp]:
  "(a::nat) < 256 \<Longrightarrow> a div 4 < 64"
  "a mod 4 * 16 < 64" "a mod 16 * 4 < 64"
  "b < 256 \<Longrightarrow> a mod 4 * 16 + b div 16 < 64"
  "b < 256 \<Longrightarrow> a mod 16 * 4 + b div 64 < 64"
  by simp_all

lemma b64_quanta_roundtrip:
  "list_all (\<lambda>b. b < 256) bs \<Longrightarrow> b64_decode_quanta (b64_encode_bytes bs) = Some bs"
  by (induction bs rule: b64_encode_bytes.induct) (auto simp: div_mult2_eq [symmetric])

lemma b64_encode_no_breaks:
  "list_all (\<lambda>b. b < 256) bs \<Longrightarrow>
   filter (\<lambda>ch. ch \<noteq> CHR 0x0A \<and> ch \<noteq> CHR 0x0D) (b64_encode_bytes bs) = b64_encode_bytes bs"
  by (induction bs rule: b64_encode_bytes.induct) auto

lemma list_all_of_char: "list_all (\<lambda>b. b < 256) (map of_char s :: nat list)"
  by (induction s) simp_all

lemma char_of_of_char_map: "map char_of (map of_char s :: nat list) = s"
  by (induction s) simp_all

lemma b64_roundtrip: "b64_decode (b64_encode s) = Some s"
  using char_of_of_char_map [of s]
  by (simp add: b64_decode_def b64_encode_def b64_encode_no_breaks list_all_of_char
      b64_quanta_roundtrip del: map_map)

subsection \<open>Hexadecimal\<close>

definition hex_digits :: string where
  "hex_digits = ''0123456789abcdef''"

fun hex_encode :: "string \<Rightarrow> string" where
  "hex_encode [] = []"
| "hex_encode (ch # rest) =
     hex_digits ! (of_char ch div 16) # hex_digits ! (of_char ch mod 16) # hex_encode rest"

definition hex_val :: "char \<Rightarrow> nat option" where
  "hex_val ch =
     (let n = of_char ch :: nat in
      if 48 \<le> n \<and> n \<le> 57 then Some (n - 48)
      else if 97 \<le> n \<and> n \<le> 102 then Some (n - 87)
      else if 65 \<le> n \<and> n \<le> 70 then Some (n - 55)
      else None)"

fun hex_decode :: "string \<Rightarrow> string option" where
  "hex_decode [] = Some []"
| "hex_decode [_] = None"
| "hex_decode (p # q # rest) =
     (case (hex_val p, hex_val q, hex_decode rest) of
        (Some u, Some v, Some s) \<Rightarrow> Some (char_of (u * 16 + v) # s)
      | _ \<Rightarrow> None)"

text \<open>\<open>strings.ToUpper\<close> on the ASCII text that hex produces.\<close>

definition upper_char :: "char \<Rightarrow> char" where
  "upper_char ch =
     (let n = of_char ch :: nat in if 97 \<le> n \<and> n \<le> 122 then char_of (n - 32) else ch)"

lemma length_hex_encode: "length (hex_encode s) = 2 * length s"
  by (induction s) simp_all

lemma hex_digit_val:
  "n < 16 \<Longrightarrow> hex_val (hex_digits ! n) = Some n \<and> hex_val (upper_char (hex_digits ! n)) = Some n"
proof -
  have all: "list_all (\<lambda>n. hex_val (hex_digits ! n) = Some n \<and>
      hex_val (upper_char (hex_digits ! n)) = Some n) [0..<16]"
    by code_simp
  assume "n < 16"
  with all show ?thesis by (simp add: list_all_iff del: upt_rec_numeral)
qed

lemma hex_upper_roundtrip: "hex_decode (map upper_char (hex_encode s)) = Some s"
proof (induction s)
  case Nil
  then show ?case by simp
next
  case (Cons ch s)
  have "(of_char ch :: nat) < 256" by simp
  then have "(of_char ch :: nat) div 16 < 16" by linarith
  then have "hex_val (upper_char (hex_digits ! (of_char ch div 16))) = Some (of_char ch div 16)"
    "hex_val (upper_char (hex_digits ! (of_char ch mod 16))) = Some (of_char ch mod 16)"
    by (simp_all add: hex_digit_val)
  with Cons show ?case by simp
qed

end
