(* ===== verification/Go_Float.thy ===== *)
theory Go_Float
  imports Complex_Main Go_Prelude "HOL-Library.Log_Nat" "HOL-Library.Signed_Division"
begin

section \<open>Go \<open>float64\<close> arithmetic on finite values\<close>

text \<open>
  The program's rates and elapsed times are IEEE binary64 values.  A finite value is the
  rational it denotes and every operation rounds its exact result to 53 significant bits,
  ties to even (\<open>f64\<close>).  The magnitudes of the program (counts up to \<open>2^63\<close>,
  times from a nanosecond up) stay far inside the exponent range, so overflow and subnormal
  numbers do not occur; the divisions are guarded in the source, so no NaN does either.
\<close>

text \<open>Rounding a rational to the nearest integer, ties to even.\<close>

definition round_half_even :: "rat \<Rightarrow> int" where
  "round_half_even x =
     (let f = \<lfloor>x\<rfloor>; d = x - of_int f in
      if d < 1 / 2 then f else if 1 / 2 < d then f + 1 else if even f then f else f + 1)"

text \<open>The exponent of the leading bit of a positive rational.\<close>

definition lead_exp :: "rat \<Rightarrow> int" where
  "lead_exp x =
     (let (p, q) = quotient_of x;
          l = int (floorlog 2 (nat p)) - int (floorlog 2 (nat q))
      in if x < 2 powi l then l - 1 else l)"

definition f64 :: "rat \<Rightarrow> rat" where
  "f64 x = (if x = 0 then 0 else
     (let e = lead_exp \<bar>x\<bar> - 52
      in sgn x * of_int (round_half_even (\<bar>x\<bar> / 2 powi e)) * 2 powi e))"

definition f64_of_int :: "int \<Rightarrow> rat" where
  "f64_of_int n = f64 (of_int n)"

definition f64_div :: "rat \<Rightarrow> rat \<Rightarrow> rat" where
  "f64_div x y = f64 (x / y)"

definition f64_add :: "rat \<Rightarrow> rat \<Rightarrow> rat" where
  "f64_add x y = f64 (x + y)"

text \<open>\<open>Duration.Seconds\<close> of the standard library; a duration is a number of nanoseconds.\<close>

type_synonym duration = int

abbreviation second :: duration where
  "second \<equiv> 1000000000"

definition seconds :: "duration \<Rightarrow> rat" where
  "seconds d = f64_add (f64_of_int (d sdiv second)) (f64_div (f64_of_int (d smod second)) (10 ^ 9))"

lemma round_half_even_near: "\<bar>of_int (round_half_even x) - x\<bar> \<le> 1 / 2"
proof -
  have f: "of_int \<lfloor>x\<rfloor> \<le> x" "x < of_int \<lfloor>x\<rfloor> + 1"
    by linarith+
  define g :: rat where "g = of_int \<lfloor>x\<rfloor>"
  have "round_half_even x = \<lfloor>x\<rfloor> \<and> x - g \<le> 1 / 2 \<or> round_half_even x = \<lfloor>x\<rfloor> + 1 \<and> 1 / 2 \<le> x - g"
    unfolding round_half_even_def Let_def g_def by auto
  then have "of_int (round_half_even x) = g \<and> x - g \<le> 1 / 2 \<or>
      of_int (round_half_even x) = g + 1 \<and> 1 / 2 \<le> x - g"
    unfolding g_def by auto
  then show ?thesis using f unfolding g_def [symmetric] by (elim disjE conjE) linarith+
qed

lemma round_half_even_int [simp]: "round_half_even (of_int n) = n"
  by (simp add: round_half_even_def)

lemma round_half_even_nonneg: "0 \<le> x \<Longrightarrow> 0 \<le> round_half_even x"
  by (simp add: round_half_even_def Let_def)

lemma f64_0 [simp]: "f64 0 = 0"
  by (simp add: f64_def)

lemma f64_nonneg [simp, intro]: "0 \<le> x \<Longrightarrow> 0 \<le> f64 x"
  by (simp add: f64_def Let_def sgn_if round_half_even_nonneg)

lemma f64_of_int_nonneg [simp, intro]: "0 \<le> n \<Longrightarrow> 0 \<le> f64_of_int n"
  by (simp add: f64_of_int_def f64_nonneg)

lemma f64_div_nonneg [simp, intro]: "0 \<le> x \<Longrightarrow> 0 \<le> y \<Longrightarrow> 0 \<le> f64_div x y"
  by (simp add: f64_div_def f64_nonneg)

text \<open>The leading bit: \<open>2^e \<le> x < 2^(e+1)\<close>.\<close>

lemma lead_exp_bounds:
  assumes "0 < x"
  shows "2 powi (lead_exp x) \<le> x" and "x < 2 powi (lead_exp x + 1)"
proof -
  obtain p q where pq: "quotient_of x = (p, q)" by (cases "quotient_of x")
  have q: "0 < q" using pq by (rule quotient_of_denom_pos)
  have x: "x = of_int p / of_int q" using pq by (rule quotient_of_div)
  have p: "0 < p" using assms q x by (simp add: zero_less_divide_iff)
  define a where "a = floorlog 2 (nat p)"
  define b where "b = floorlog 2 (nat q)"
  have pa: "2 ^ (a - 1) \<le> nat p" "nat p < 2 ^ a" "0 < a"
    using p floorlog_bounds [of "nat p" 2] by (simp_all add: a_def floorlog_def)
  have qb: "2 ^ (b - 1) \<le> nat q" "nat q < 2 ^ b" "0 < b"
    using q floorlog_bounds [of "nat q" 2] by (simp_all add: b_def floorlog_def)
  have P: "(2::rat) powi (int a - 1) \<le> of_int p" "of_int p < (2::rat) powi int a"
  proof -
    have "(2::rat) ^ (a - 1) \<le> of_nat (nat p)" using pa(1) by (metis of_nat_le_iff of_nat_numeral of_nat_power)
    then show "(2::rat) powi (int a - 1) \<le> of_int p" using p pa(3)
      by (simp add: power_int_def nat_diff_distrib)
    have "of_nat (nat p) < (2::rat) ^ a" using pa(2) by (metis of_nat_less_iff of_nat_numeral of_nat_power)
    then show "of_int p < (2::rat) powi int a" using p by simp
  qed
  have Q: "(2::rat) powi (int b - 1) \<le> of_int q" "of_int q < (2::rat) powi int b"
  proof -
    have "(2::rat) ^ (b - 1) \<le> of_nat (nat q)" using qb(1) by (metis of_nat_le_iff of_nat_numeral of_nat_power)
    then show "(2::rat) powi (int b - 1) \<le> of_int q" using q qb(3)
      by (simp add: power_int_def nat_diff_distrib)
    have "of_nat (nat q) < (2::rat) ^ b" using qb(2) by (metis of_nat_less_iff of_nat_numeral of_nat_power)
    then show "of_int q < (2::rat) powi int b" using q by simp
  qed
  have lo: "2 powi (int a - int b - 1) \<le> x"
  proof -
    have "(2::rat) powi (int a - int b - 1) = 2 powi (int a - 1) / 2 powi int b"
      by (simp add: power_int_diff)
    also have "\<dots> \<le> of_int p / of_int q"
      using P(1) Q q p by (intro frac_le) auto
    finally show ?thesis by (simp add: x)
  qed
  have hi: "x < 2 powi (int a - int b + 1)"
  proof -
    have "x < 2 powi int a / 2 powi (int b - 1)"
      unfolding x using P(2) Q(1) p q by (intro frac_less) auto
    also have "\<dots> = 2 powi (int a - int b + 1)"
      by (simp add: power_int_diff power_int_add)
    finally show ?thesis .
  qed
  have e: "lead_exp x = (if x < 2 powi (int a - int b) then int a - int b - 1 else int a - int b)"
    by (simp add: lead_exp_def pq a_def b_def)
  show "2 powi (lead_exp x) \<le> x" using lo by (simp add: e)
  show "x < 2 powi (lead_exp x + 1)" using hi by (simp add: e)
qed

text \<open>Every rounding is within half a unit of the last place, a relative error of \<open>2^-53\<close>.\<close>

lemma f64_relative_error: "\<bar>f64 x - x\<bar> \<le> \<bar>x\<bar> / 2 ^ 53"
proof (cases "x = 0")
  case True
  then show ?thesis by simp
next
  case False
  define e where "e = lead_exp \<bar>x\<bar> - 52"
  define y where "y = \<bar>x\<bar> / 2 powi e"
  have pos: "(0::rat) < 2 powi e" by simp
  have x: "x = sgn x * y * 2 powi e" by (simp add: y_def) (metis mult_sgn_abs)
  have f: "f64 x = sgn x * of_int (round_half_even y) * 2 powi e"
    using False by (simp add: f64_def e_def y_def Let_def)
  have "\<bar>f64 x - x\<bar> = \<bar>sgn x * (of_int (round_half_even y) - y) * 2 powi e\<bar>"
    by (subst (2) x) (simp add: f algebra_simps)
  also have "\<dots> = \<bar>of_int (round_half_even y) - y\<bar> * 2 powi e"
    using False pos by (simp add: abs_mult abs_sgn_eq)
  also have "\<dots> \<le> 1 / 2 * 2 powi e"
    using pos by (intro mult_right_mono round_half_even_near) simp
  also have "\<dots> = 2 powi (lead_exp \<bar>x\<bar>) / 2 ^ 53"
    by (simp add: e_def power_int_diff)
  also have "\<dots> \<le> \<bar>x\<bar> / 2 ^ 53"
    using False lead_exp_bounds(1) [of "\<bar>x\<bar>"] by (intro divide_right_mono) simp_all
  finally show ?thesis .
qed

text \<open>Counts below \<open>2^53\<close> are converted without loss.\<close>

lemma f64_of_int_exact:
  assumes "\<bar>n\<bar> < 2 ^ 53"
  shows "f64_of_int n = of_int n"
proof (cases "n = 0")
  case True
  then show ?thesis by (simp add: f64_of_int_def)
next
  case False
  define m where "m = \<bar>n\<bar>"
  define e where "e = lead_exp (of_int m) - 52"
  have m: "0 < m" "m < 2 ^ 53" using False assms by (simp_all add: m_def)
  have "(2::rat) powi lead_exp (of_int m) \<le> of_int m"
    using m by (intro lead_exp_bounds) simp
  also have "\<dots> < 2 powi 53"
    using m(2) by (metis of_int_less_iff of_int_numeral of_int_power power_int_numeral)
  finally have "lead_exp (of_int m) < 53"
    using power_int_increasing [of 53 "lead_exp (of_int m)" "2 :: rat"] by linarith
  then have e: "e \<le> 0" by (simp add: e_def)
  have "of_int m / (2::rat) powi e = of_int (m * 2 ^ nat (- e))"
    using e by (simp add: power_int_def field_simps power_inverse)
  then have "of_int (round_half_even (of_int m / 2 powi e)) * (2::rat) powi e = of_int m"
    by (metis round_half_even_int nonzero_eq_divide_eq power_int_not_zero zero_neq_numeral)
  then show ?thesis
    using False by (simp add: f64_of_int_def f64_def e_def m_def Let_def mult.assoc sgn_if)
qed

end
