(* ===== verification/Load_Transactor.thy ===== *)
theory Load_Transactor
  imports Client_KVStore Go_Encoding Go_Float
begin

section \<open>The transactor (transactor.go)\<close>

text \<open>
  A transactor owns one WebSockets connection: \<open>sendLoop\<close> sends batches of transactions on
  a ticker until a limit, an error or a cancellation stops it; \<open>receiveLoop\<close> drains the
  connection.  The connection is the list of frames written to it.  What the client
  generates comes from the \<open>client\<close> interface; what the connection and the clock answer is
  an argument of each operation.  A Go \<open>error\<close> is its text.
\<close>

datatype ws_frame = TextFrame json | PingFrame | CloseFrame

record transactor =
  remoteAddr :: string
  t_config :: config
  broadcastTxMethod :: string
  startTime :: int
  txCount :: int
  txBytes :: int
  txRate :: rat
  progressCallbackID :: int
  progressCallbackInterval :: duration
  progressCallback :: bool
  stop :: bool
  stopErr :: "go_error option"
  frames :: "ws_frame list"

abbreviation defaultProgressCallbackInterval :: duration where
  "defaultProgressCallbackInterval \<equiv> 5 * second"

text \<open>\<open>(30 * 9 / 10) * time.Second\<close>, with Go's integer division.\<close>

definition connPingPeriod :: duration where
  "connPingPeriod = (30 * 9 sdiv 10) * second"

definition jsonRPCID :: int where
  "jsonRPCID = -1"

text \<open>\<open>time.Duration(n) * time.Second\<close>.\<close>

definition seconds_duration :: "int \<Rightarrow> duration" where
  "seconds_duration n = i64 (n * second)"

text \<open>The accessors, each under its lock.\<close>

abbreviation GetTxCount :: "transactor \<Rightarrow> int" where
  "GetTxCount t \<equiv> txCount t"

abbreviation GetTxBytes :: "transactor \<Rightarrow> int" where
  "GetTxBytes t \<equiv> txBytes t"

abbreviation getProgressCallbackInterval :: "transactor \<Rightarrow> duration" where
  "getProgressCallbackInterval t \<equiv> progressCallbackInterval t"

subsection \<open>Stopping and statistics\<close>

definition setStop :: "go_error option \<Rightarrow> transactor \<Rightarrow> transactor" where
  "setStop err t =
     t\<lparr>stop := True, stopErr := (case err of None \<Rightarrow> stopErr t | Some e \<Rightarrow> Some e)\<rparr>"

definition Cancel :: "transactor \<Rightarrow> transactor" where
  "Cancel t = setStop (Some ''transactor operations cancelled'') t"

definition SetProgressCallback :: "int \<Rightarrow> duration \<Rightarrow> bool \<Rightarrow> transactor \<Rightarrow> transactor" where
  "SetProgressCallback n interval callback t =
     t\<lparr>progressCallbackID := n, progressCallbackInterval := interval, progressCallback := callback\<rparr>"

definition trackStartTime :: "int \<Rightarrow> transactor \<Rightarrow> transactor" where
  "trackStartTime now t = t\<lparr>startTime := now, txRate := 0\<rparr>"

definition trackSentTxs :: "int \<Rightarrow> int \<Rightarrow> int \<Rightarrow> transactor \<Rightarrow> transactor" where
  "trackSentTxs sent byteCount now t =
     (let n = i64 (txCount t + sent);
          elapsed = seconds (now - startTime t)
      in t\<lparr>txCount := n, txBytes := i64 (txBytes t + byteCount),
           txRate := (if 0 < elapsed then f64_div (f64_of_int n) elapsed else 0)\<rparr>)"

subsection \<open>Sending one batch\<close>

text \<open>
  A JSON-RPC request as the encoder writes it, which leaves an id of 0 out, and the frame that
  \<open>writeTx\<close> puts on the connection.
\<close>

definition RPCRequest_json :: "string \<Rightarrow> int \<Rightarrow> string \<Rightarrow> json \<Rightarrow> json" where
  "RPCRequest_json rpc_version rpc_id rpc_method params =
     JObj ([(''jsonrpc'', JStr rpc_version)] @ (if rpc_id = 0 then [] else [(''id'', JNum rpc_id)]) @
       [(''method'', JStr rpc_method), (''params'', params)])"

definition tx_frame :: "string \<Rightarrow> string \<Rightarrow> ws_frame" where
  "tx_frame rpc_method tx =
     TextFrame (RPCRequest_json ''2.0'' jsonRPCID rpc_method (JObj [(''tx'', JStr (b64_encode tx))]))"

lemma tx_frame_eq:
  "tx_frame rpc_method tx = TextFrame (JObj [(''jsonrpc'', JStr ''2.0''), (''id'', JNum jsonRPCID),
     (''method'', JStr rpc_method), (''params'', JObj [(''tx'', JStr (b64_encode tx))])])"
  by (simp add: tx_frame_def RPCRequest_json_def jsonRPCID_def)

text \<open>
  What the environment answers in a batch: the time at its start, and for each iteration the
  result of writing to the connection and the time elapsed since the batch began; last, the
  time at its end.
\<close>

record batch_io =
  batch_now :: int
  write_result :: "nat \<Rightarrow> go_error option"
  batch_elapsed :: "nat \<Rightarrow> duration"
  batch_end :: int

record 'w batch_out =
  batch_err :: "go_error option"
  batch_sent :: int
  batch_bytes :: int
  batch_world :: 'w
  batch_frames :: "ws_frame list"

text \<open>
  The loop of \<open>sendTransactions\<close>.  Leaving it on the elapsed time skips the increment of
  \<open>sent\<close>: the write before it is done and its bytes are counted.
\<close>

function batch_loop ::
    "'w client \<Rightarrow> string \<Rightarrow> duration \<Rightarrow> batch_io \<Rightarrow> int \<Rightarrow> int \<Rightarrow> int \<Rightarrow> 'w \<Rightarrow> ws_frame list \<Rightarrow>
     'w batch_out option" where
  "batch_loop cl rpc_method period io toSend sent sentBytes w fs =
     (if sent < toSend then
        (case GenerateTx cl w of
           None \<Rightarrow> None
         | Some (Inl err, w') \<Rightarrow> Some \<lparr>batch_err = Some err, batch_sent = sent,
             batch_bytes = sentBytes, batch_world = w', batch_frames = fs\<rparr>
         | Some (Inr tx, w') \<Rightarrow>
           (case write_result io (nat sent) of
              Some err \<Rightarrow> Some \<lparr>batch_err = Some err, batch_sent = sent,
                batch_bytes = sentBytes, batch_world = w', batch_frames = fs\<rparr>
            | None \<Rightarrow>
              (let sentBytes' = i64 (sentBytes + int (length tx));
                   fs' = fs @ [tx_frame rpc_method tx]
               in if period \<le> batch_elapsed io (nat sent)
                  then Some \<lparr>batch_err = None, batch_sent = sent,
                    batch_bytes = sentBytes', batch_world = w', batch_frames = fs'\<rparr>
                  else batch_loop cl rpc_method period io toSend (sent + 1) sentBytes' w' fs')))
      else Some \<lparr>batch_err = None, batch_sent = sent, batch_bytes = sentBytes,
             batch_world = w, batch_frames = fs\<rparr>)"
  by pat_completeness auto
termination
  by (relation "measure (\<lambda>(cl, rpc_method, period, io, toSend, sent, sentBytes, w, fs).
      nat (toSend - sent))") auto

declare batch_loop.simps [simp del]

definition batch_limit :: "transactor \<Rightarrow> int" where
  "batch_limit t =
     (let totalSent = txCount t; toSend = Rate (t_config t) in
      if Count (t_config t) > 0 \<and> i64 (totalSent + toSend) > Count (t_config t)
      then i64 (Count (t_config t) - totalSent) else toSend)"

definition sendTransactions ::
    "'w client \<Rightarrow> batch_io \<Rightarrow> 'w \<Rightarrow> transactor \<Rightarrow> (go_error option \<times> 'w \<times> transactor) option" where
  "sendTransactions cl io w t =
     (let toSend = batch_limit t;
          t1 = (if txCount t = 0 then trackStartTime (batch_now io) t else t)
      in case batch_loop cl (broadcastTxMethod t) (seconds_duration (SendPeriod (t_config t))) io
                toSend 0 0 w (frames t1) of
           None \<Rightarrow> None
         | Some r \<Rightarrow> Some (batch_err r, batch_world r,
             trackSentTxs (batch_sent r) (batch_bytes r) (batch_end io)
               (t1\<lparr>frames := batch_frames r\<rparr>)))"

subsection \<open>The send loop\<close>

definition sendPing :: "go_error option \<Rightarrow> transactor \<Rightarrow> transactor" where
  "sendPing res t = (case res of None \<Rightarrow> t\<lparr>frames := frames t @ [PingFrame]\<rparr> | Some _ \<Rightarrow> t)"

definition t_close :: "go_error option \<Rightarrow> transactor \<Rightarrow> transactor" where
  "t_close res t = (case res of None \<Rightarrow> t\<lparr>frames := frames t @ [CloseFrame]\<rparr> | Some _ \<Rightarrow> t)"

definition mustStop :: "transactor \<Rightarrow> bool" where
  "mustStop t = stop t"

text \<open>The check at the head of the loop.\<close>

definition count_check :: "transactor \<Rightarrow> transactor" where
  "count_check t =
     (if Count (t_config t) > 0 \<and> GetTxCount t \<ge> Count (t_config t) then setStop None t else t)"

text \<open>The cases of the loop's \<open>select\<close>, with what the environment answers in each.\<close>

datatype tick =
    SendTick batch_io
  | ProgressTick
  | PingTick "go_error option"
  | TimeLimitTick

text \<open>\<open>reportProgress\<close>: the call of the callback, if there is one.\<close>

definition t_reportProgress :: "transactor \<Rightarrow> (int \<times> int \<times> int) list" where
  "t_reportProgress t =
     (if progressCallback t then [(progressCallbackID t, txCount t, txBytes t)] else [])"

fun select_tick ::
    "'w client \<Rightarrow> tick \<Rightarrow> 'w \<Rightarrow> transactor \<Rightarrow> ('w \<times> transactor \<times> (int \<times> int \<times> int) list) option" where
  "select_tick cl (SendTick io) w t =
     (case sendTransactions cl io w t of
        None \<Rightarrow> None
      | Some (None, w', t') \<Rightarrow> Some (w', t', [])
      | Some (Some err, w', t') \<Rightarrow> Some (w', setStop (Some err) t', []))"
| "select_tick cl ProgressTick w t = Some (w, t, t_reportProgress t)"
| "select_tick cl (PingTick None) w t = Some (w, sendPing None t, [])"
| "select_tick cl (PingTick (Some err)) w t = Some (w, setStop (Some err) t, [])"
| "select_tick cl TimeLimitTick w t = Some (w, setStop None t, [])"

text \<open>
  The loop as a step relation: its three program points, the \<open>select\<close> choosing any ready
  case, and \<open>Cancel\<close> from another goroutine between any two of them.  \<open>Crashed\<close> is a
  panic in the client.
\<close>

datatype send_pc = LoopTop | Selecting | Checking | Returned | Crashed

record 'w send_state =
  tr :: transactor
  world :: 'w
  pc :: send_pc
  reports :: "(int \<times> int \<times> int) list"

inductive send_step :: "'w client \<Rightarrow> 'w send_state \<Rightarrow> 'w send_state \<Rightarrow> bool" for cl where
  at_top: "pc s = LoopTop \<Longrightarrow> send_step cl s (s\<lparr>tr := count_check (tr s), pc := Selecting\<rparr>)"
| selected: "pc s = Selecting \<Longrightarrow> select_tick cl tk (world s) (tr s) = Some (w', t', rs) \<Longrightarrow>
    send_step cl s (s\<lparr>tr := t', world := w', pc := Checking, reports := reports s @ rs\<rparr>)"
| panicked: "pc s = Selecting \<Longrightarrow> select_tick cl tk (world s) (tr s) = None \<Longrightarrow>
    send_step cl s (s\<lparr>pc := Crashed\<rparr>)"
| again: "pc s = Checking \<Longrightarrow> \<not> mustStop (tr s) \<Longrightarrow> send_step cl s (s\<lparr>pc := LoopTop\<rparr>)"
| leave: "pc s = Checking \<Longrightarrow> mustStop (tr s) \<Longrightarrow>
    send_step cl s (s\<lparr>tr := t_close res (tr s), pc := Returned\<rparr>)"
| cancelled: "send_step cl s (s\<lparr>tr := Cancel (tr s)\<rparr>)"

inductive_cases send_stepE: "send_step cl s s'"

text \<open>
  Entering \<open>sendLoop\<close>: \<open>time.NewTicker\<close> panics on an interval that is not positive.
\<close>

definition sendLoop_start :: "'w \<Rightarrow> transactor \<Rightarrow> 'w send_state" where
  "sendLoop_start w t =
     \<lparr>tr = t, world = w,
      pc = (if 0 < connPingPeriod \<and> 0 < seconds_duration (Time (t_config t))
               \<and> 0 < seconds_duration (SendPeriod (t_config t)) \<and> 0 < getProgressCallbackInterval t
            then LoopTop else Crashed),
      reports = []\<rparr>"

text \<open>
  The handler of pings that \<open>sendLoop\<close> installs: what it returns for the result of writing the
  pong.  The connection's error for a close message already sent is an argument.
\<close>

definition pingHandler :: "go_error \<Rightarrow> go_error option \<Rightarrow> go_error option" where
  "pingHandler errCloseSent res = (if res = Some errCloseSent then None else res)"

subsection \<open>The receive loop\<close>

datatype read_result = GotMessage | NormalClosure | OtherReadError

datatype receive_end = ReadFailed | SawStop | StillReading

text \<open>Each pass: what \<open>ReadMessage\<close> gave, and the stop flag as \<open>mustStop\<close> then finds it.\<close>

fun receiveLoop :: "(read_result \<times> bool) list \<Rightarrow> receive_end" where
  "receiveLoop [] = StillReading"
| "receiveLoop ((r, must) # rest) =
     (if r = OtherReadError then ReadFailed
      else if must then SawStop
      else receiveLoop rest)"

subsection \<open>What a batch does\<close>

text \<open>
  A batch was cut when it ended without error before its limit: it ran into the send
  period.
\<close>

definition batch_cut :: "int \<Rightarrow> 'w batch_out \<Rightarrow> bool" where
  "batch_cut toSend r \<longleftrightarrow> batch_err r = None \<and> batch_sent r < toSend"

definition txs_bytes :: "string list \<Rightarrow> int" where
  "txs_bytes txs = int (sum_list (map length txs))"

lemma txs_bytes_simps [simp]:
  "txs_bytes [] = 0" "txs_bytes (tx # txs) = int (length tx) + txs_bytes txs"
  "txs_bytes (txs @ txs') = txs_bytes txs + txs_bytes txs'"
  by (simp_all add: txs_bytes_def)

definition generates :: "'w client \<Rightarrow> string \<Rightarrow> bool" where
  "generates cl tx \<longleftrightarrow> (\<exists>w w'. GenerateTx cl w = Some (Inr tx, w'))"

lemma batch_loop_spec:
  assumes "batch_loop cl m period io toSend sent sb w fs = Some r" and "in_i64 sb" and "0 \<le> sent"
  shows "\<exists>txs. batch_frames r = fs @ map (tx_frame m) txs \<and> sent \<le> batch_sent r \<and>
      batch_sent r \<le> max sent toSend \<and> batch_bytes r = i64 (sb + txs_bytes txs) \<and>
      int (length txs) = batch_sent r - sent + of_bool (batch_cut toSend r) \<and>
      (batch_cut toSend r \<longrightarrow> period \<le> batch_elapsed io (nat (batch_sent r))) \<and>
      (\<forall>tx \<in> set txs. generates cl tx)"
  using assms
proof (induction cl m period io toSend sent sb w fs arbitrary: r rule: batch_loop.induct)
  case (1 cl m period io toSend sent sb w fs)
  note unf = batch_loop.simps [of cl m period io toSend sent sb w fs]
  show ?case
  proof (cases "sent < toSend")
    case False
    with 1(2,3) show ?thesis
      by (intro exI [of _ "[]"]) (auto simp: unf batch_cut_def i64_id)
  next
    case True
    show ?thesis
    proof (cases "\<exists>tx w'. GenerateTx cl w = Some (Inr tx, w') \<and> write_result io (nat sent) = None")
      case False
      with True 1(2,3) show ?thesis
        by (intro exI [of _ "[]"])
          (auto simp: unf batch_cut_def i64_id split: option.splits sum.splits prod.splits)
    next
      case True': True
      then obtain tx w' where g: "GenerateTx cl w = Some (Inr tx, w')"
        and wr: "write_result io (nat sent) = None" by blast
      have gen: "generates cl tx" unfolding generates_def using g by blast
      show ?thesis
      proof (cases "period \<le> batch_elapsed io (nat sent)")
        case cut: True
        from 1(2) show ?thesis
          by (intro exI [of _ "[tx]"])
            (auto simp: unf g wr cut True batch_cut_def Let_def gen)
      next
        case False
        have rec: "batch_loop cl m period io toSend (sent + 1) (i64 (sb + int (length tx))) w'
            (fs @ [tx_frame m tx]) = Some r"
          using 1(2) by (simp add: unf g wr False True Let_def)
        obtain txs where "batch_frames r = (fs @ [tx_frame m tx]) @ map (tx_frame m) txs"
          "sent + 1 \<le> batch_sent r" "batch_sent r \<le> max (sent + 1) toSend"
          "batch_bytes r = i64 (i64 (sb + int (length tx)) + txs_bytes txs)"
          "int (length txs) = batch_sent r - (sent + 1) + of_bool (batch_cut toSend r)"
          "batch_cut toSend r \<longrightarrow> period \<le> batch_elapsed io (nat (batch_sent r))"
          "\<forall>tx \<in> set txs. generates cl tx"
          using "1.IH" [OF True g refl refl wr refl refl False rec] 1(4) by auto
        with gen show ?thesis
          using True by (intro exI [of _ "tx # txs"]) (auto simp: wrap_simps add.assoc)
      qed
    qed
  qed
qed

lemma trackSentTxs_fields [simp]:
  "txCount (trackSentTxs n b now t) = i64 (txCount t + n)"
  "txBytes (trackSentTxs n b now t) = i64 (txBytes t + b)"
  "frames (trackSentTxs n b now t) = frames t"
  "t_config (trackSentTxs n b now t) = t_config t"
  "stop (trackSentTxs n b now t) = stop t"
  "stopErr (trackSentTxs n b now t) = stopErr t"
  "startTime (trackSentTxs n b now t) = startTime t"
  "broadcastTxMethod (trackSentTxs n b now t) = broadcastTxMethod t"
  by (simp_all add: trackSentTxs_def Let_def)

lemma trackStartTime_fields [simp]:
  "txCount (trackStartTime now t) = txCount t" "txBytes (trackStartTime now t) = txBytes t"
  "frames (trackStartTime now t) = frames t" "t_config (trackStartTime now t) = t_config t"
  "stop (trackStartTime now t) = stop t" "stopErr (trackStartTime now t) = stopErr t"
  "broadcastTxMethod (trackStartTime now t) = broadcastTxMethod t"
  by (simp_all add: trackStartTime_def)

text \<open>One batch, seen from the transactor: \<open>n\<close> counted, \<open>txs\<close> written.\<close>

definition batch_effect ::
    "'w client \<Rightarrow> batch_io \<Rightarrow> transactor \<Rightarrow> go_error option \<Rightarrow> transactor \<Rightarrow> int \<Rightarrow> string list \<Rightarrow> bool" where
  "batch_effect cl io t err t' n txs \<longleftrightarrow>
     frames t' = frames t @ map (tx_frame (broadcastTxMethod t)) txs \<and>
     txCount t' = i64 (txCount t + n) \<and> txBytes t' = i64 (txBytes t + txs_bytes txs) \<and>
     0 \<le> n \<and> n \<le> max 0 (batch_limit t) \<and>
     int (length txs) = n + of_bool (err = None \<and> n < batch_limit t) \<and>
     (err = None \<and> n < batch_limit t \<longrightarrow>
        seconds_duration (SendPeriod (t_config t)) \<le> batch_elapsed io (nat n)) \<and>
     (\<forall>tx \<in> set txs. generates cl tx)"

lemma sendTransactions_frame:
  assumes "sendTransactions cl io w t = Some (err, w', t')"
  shows "t_config t' = t_config t" and "stop t' = stop t" and "stopErr t' = stopErr t"
    and "broadcastTxMethod t' = broadcastTxMethod t"
  using assms by (auto simp: sendTransactions_def Let_def split: option.splits if_splits)

lemma sendTransactions_effect:
  assumes "sendTransactions cl io w t = Some (err, w', t')"
  shows "\<exists>n txs. batch_effect cl io t err t' n txs"
proof -
  let ?t1 = "if txCount t = 0 then trackStartTime (batch_now io) t else t"
  obtain r where r: "batch_loop cl (broadcastTxMethod t) (seconds_duration (SendPeriod (t_config t))) io
        (batch_limit t) 0 0 w (frames ?t1) = Some r"
    and e: "err = batch_err r" "t' = trackSentTxs (batch_sent r) (batch_bytes r) (batch_end io)
        (?t1\<lparr>frames := batch_frames r\<rparr>)"
    using assms by (auto simp: sendTransactions_def Let_def split: option.splits)
  have "in_i64 0" by (simp add: in_i64_def)
  then obtain txs where s: "batch_frames r = frames ?t1 @ map (tx_frame (broadcastTxMethod t)) txs"
      "0 \<le> batch_sent r" "batch_sent r \<le> max 0 (batch_limit t)"
      "batch_bytes r = i64 (0 + txs_bytes txs)"
      "int (length txs) = batch_sent r - 0 + of_bool (batch_cut (batch_limit t) r)"
      "batch_cut (batch_limit t) r \<longrightarrow>
        seconds_duration (SendPeriod (t_config t)) \<le> batch_elapsed io (nat (batch_sent r))"
      "\<forall>tx \<in> set txs. generates cl tx"
    using batch_loop_spec [OF r] by auto
  then have "batch_effect cl io t err t' (batch_sent r) txs"
    unfolding batch_effect_def e by (auto simp: batch_cut_def wrap_simps)
  then show ?thesis by blast
qed

text \<open>C7: the accounting of a batch.  The frames added to the connection are the requests of the
  transactions written; the byte count grows by exactly their sizes; the transaction count
  grows by their number, except that a batch cut short by the send period wrote one
  transaction more than it counted.\<close>

theorem batch_accounting:
  assumes "sendTransactions cl io w t = Some (err, w', t')"
  shows "\<exists>n txs. frames t' = frames t @ map (tx_frame (broadcastTxMethod t)) txs \<and>
     txCount t' = i64 (txCount t + n) \<and> txBytes t' = i64 (txBytes t + txs_bytes txs) \<and>
     0 \<le> n \<and> n \<le> max 0 (batch_limit t) \<and>
     int (length txs) = n + of_bool (err = None \<and> n < batch_limit t) \<and>
     (err = None \<and> n < batch_limit t \<longrightarrow>
        seconds_duration (SendPeriod (t_config t)) \<le> batch_elapsed io (nat n))"
  using sendTransactions_effect [OF assms] unfolding batch_effect_def by blast

text \<open>A batch of two of which the first write lasts the whole period: one written, none counted.\<close>

definition demo_client :: "unit client" where
  "demo_client = \<lparr>GenerateTx = (\<lambda>w. Some (Inr ''k=v'', w))\<rparr>"

definition demo_io :: batch_io where
  "demo_io = \<lparr>batch_now = 0, write_result = (\<lambda>_. None), batch_elapsed = (\<lambda>_. second), batch_end = second\<rparr>"

definition demo_transactor :: transactor where
  "demo_transactor =
     \<lparr>remoteAddr = ''ws://h'', t_config = (flag_defaults ''kvstore'')\<lparr>Rate := 2\<rparr>,
      broadcastTxMethod = ''broadcast_tx_async'', startTime = 0, txCount = 0, txBytes = 0, txRate = 0,
      progressCallbackID = 0, progressCallbackInterval = second, progressCallback = False,
      stop = False, stopErr = None, frames = []\<rparr>"

lemma demo_batch:
  "\<exists>t'. sendTransactions demo_client demo_io () demo_transactor = Some (None, (), t') \<and>
     txCount t' = 0 \<and> txBytes t' = 3 \<and> frames t' = [tx_frame ''broadcast_tx_async'' ''k=v'']"
proof -
  have "batch_loop demo_client ''broadcast_tx_async'' second demo_io 2 0 0 () [] =
      Some \<lparr>batch_err = None, batch_sent = 0, batch_bytes = 3, batch_world = (),
        batch_frames = [tx_frame ''broadcast_tx_async'' ''k=v'']\<rparr>"
    by (subst batch_loop.simps) (simp add: demo_client_def demo_io_def i64_id in_i64_def)
  moreover have "batch_limit demo_transactor = 2"
    by (simp add: batch_limit_def demo_transactor_def flag_defaults_def)
  moreover have "seconds_duration 1 = second"
    by (simp add: seconds_duration_def i64_id in_i64_def)
  ultimately show ?thesis
    by (simp add: sendTransactions_def demo_transactor_def flag_defaults_def i64_id in_i64_def)
qed

theorem batch_accounting_witness:
  "\<exists>t'. sendTransactions demo_client demo_io () demo_transactor = Some (None, (), t') \<and>
     txCount t' = 0 \<and> txBytes t' = 3 \<and>
     (\<exists>n txs. frames t' = frames demo_transactor @
          map (tx_frame (broadcastTxMethod demo_transactor)) txs \<and>
        txCount t' = i64 (txCount demo_transactor + n) \<and>
        int (length txs) = n + of_bool (None = (None :: go_error option) \<and> n < batch_limit demo_transactor))"
proof -
  obtain t' where t': "sendTransactions demo_client demo_io () demo_transactor = Some (None, (), t')"
    "txCount t' = 0" "txBytes t' = 3"
    using demo_batch by blast
  from batch_accounting [OF t'(1)] t' show ?thesis by blast
qed

subsection \<open>The loop: limits\<close>

definition is_tx_frame :: "ws_frame \<Rightarrow> bool" where
  "is_tx_frame f \<longleftrightarrow> (case f of TextFrame _ \<Rightarrow> True | _ \<Rightarrow> False)"

text \<open>The number of transactions written to the connection.\<close>

definition written :: "transactor \<Rightarrow> nat" where
  "written t = length (filter is_tx_frame (frames t))"

lemma is_tx_frame_simps [simp]:
  "is_tx_frame (TextFrame j)" "\<not> is_tx_frame PingFrame" "\<not> is_tx_frame CloseFrame"
  "is_tx_frame (tx_frame m tx)"
  by (simp_all add: is_tx_frame_def tx_frame_eq)

lemma filter_tx_frames [simp]: "filter is_tx_frame (map (tx_frame m) txs) = map (tx_frame m) txs"
  by (induction txs) simp_all

lemma setStop_fields [simp]:
  "t_config (setStop e t) = t_config t" "txCount (setStop e t) = txCount t"
  "txBytes (setStop e t) = txBytes t" "frames (setStop e t) = frames t" "stop (setStop e t)"
  "stopErr (setStop e t) = (case e of None \<Rightarrow> stopErr t | Some x \<Rightarrow> Some x)"
  "written (setStop e t) = written t"
  by (simp_all add: setStop_def written_def)

lemma Cancel_fields [simp]:
  "t_config (Cancel t) = t_config t" "txCount (Cancel t) = txCount t"
  "txBytes (Cancel t) = txBytes t" "frames (Cancel t) = frames t" "stop (Cancel t)"
  "stopErr (Cancel t) = Some ''transactor operations cancelled''" "written (Cancel t) = written t"
  by (simp_all add: Cancel_def)

lemma sendPing_fields [simp]:
  "t_config (sendPing r t) = t_config t" "txCount (sendPing r t) = txCount t"
  "txBytes (sendPing r t) = txBytes t" "stop (sendPing r t) = stop t"
  "stopErr (sendPing r t) = stopErr t" "written (sendPing r t) = written t"
  by (simp_all add: sendPing_def written_def split: option.splits)

lemma t_close_fields [simp]:
  "t_config (t_close r t) = t_config t" "txCount (t_close r t) = txCount t"
  "txBytes (t_close r t) = txBytes t" "stop (t_close r t) = stop t"
  "stopErr (t_close r t) = stopErr t" "written (t_close r t) = written t"
  by (simp_all add: t_close_def written_def split: option.splits)

lemma count_check_fields [simp]:
  "t_config (count_check t) = t_config t" "txCount (count_check t) = txCount t"
  "txBytes (count_check t) = txBytes t" "frames (count_check t) = frames t"
  "stopErr (count_check t) = stopErr t" "written (count_check t) = written t"
  "stop t \<Longrightarrow> stop (count_check t)"
  by (simp_all add: count_check_def)

text \<open>What one \<open>select\<close> can do, in terms of a batch or of nothing but the stop flag.\<close>

lemma select_tick_cases:
  assumes "select_tick cl tk w t = Some (w', t', rs)"
  obtains (batch) io err n txs where "tk = SendTick io" "batch_effect cl io t err t' n txs"
      "t_config t' = t_config t" "stop t \<longrightarrow> stop t'" "stopErr t \<noteq> None \<longrightarrow> stopErr t' \<noteq> None"
      "err \<noteq> None \<longrightarrow> stop t' \<and> stopErr t' = err"
  | (other) "txCount t' = txCount t" "txBytes t' = txBytes t" "written t' = written t"
      "t_config t' = t_config t" "stop t \<longrightarrow> stop t'" "stopErr t \<noteq> None \<longrightarrow> stopErr t' \<noteq> None"
      "\<exists>fs. frames t' = frames t @ fs \<and> CloseFrame \<notin> set fs"
proof (cases tk)
  case (SendTick io)
  obtain err t1 where 1: "sendTransactions cl io w t = Some (err, w', t1)"
    and t': "t' = (case err of None \<Rightarrow> t1 | Some e \<Rightarrow> setStop (Some e) t1)"
    using assms by (auto simp: SendTick split: option.splits)
  obtain n txs where e: "batch_effect cl io t err t1 n txs"
    using sendTransactions_effect [OF 1] by blast
  have "batch_effect cl io t err t' n txs"
    using e by (auto simp: batch_effect_def t' split: option.splits)
  then show ?thesis
    using SendTick sendTransactions_frame [OF 1]
    by (intro batch [of io err n txs]) (auto simp: t' split: option.splits)
next
  case ProgressTick
  with assms show ?thesis by (intro other) auto
next
  case (PingTick r)
  with assms show ?thesis
    by (cases r; intro other) (auto simp: sendPing_def written_def)
next
  case TimeLimitTick
  with assms show ?thesis by (intro other) auto
qed

text \<open>The rate and the limit are small enough for their sum to be an \<open>int\<close>.\<close>

definition limited :: "config \<Rightarrow> bool" where
  "limited c \<longleftrightarrow> 0 < Count c \<and> 0 \<le> Rate c \<and> Rate c + Count c < 2 ^ 63"

definition count_ok :: "config \<Rightarrow> 'w send_state \<Rightarrow> bool" where
  "count_ok c s \<longleftrightarrow> t_config (tr s) = c \<and> 0 \<le> txCount (tr s) \<and> txCount (tr s) \<le> Count c \<and>
     txCount (tr s) \<le> int (written (tr s))"

lemma batch_limit_limited:
  assumes "limited (t_config t)" and "0 \<le> txCount t" and "txCount t \<le> Count (t_config t)"
  shows "batch_limit t = min (Rate (t_config t)) (Count (t_config t) - txCount t)"
proof -
  have "in_i64 (txCount t + Rate (t_config t))" and "in_i64 (Count (t_config t) - txCount t)"
    using assms by (auto simp: limited_def in_i64_def)
  with assms show ?thesis by (auto simp: batch_limit_def Let_def limited_def i64_id)
qed

lemma batch_effect_written:
  "batch_effect cl io t err t' n txs \<Longrightarrow> written t' = written t + length txs"
  by (simp add: batch_effect_def written_def)

lemma batch_keeps_count:
  assumes "batch_effect cl io t err t' n txs" and "limited (t_config t)"
    and "0 \<le> txCount t" and "txCount t \<le> Count (t_config t)" and "txCount t \<le> int (written t)"
  shows "0 \<le> txCount t' \<and> txCount t' \<le> Count (t_config t) \<and> txCount t' \<le> int (written t')"
proof -
  have l: "batch_limit t = min (Rate (t_config t)) (Count (t_config t) - txCount t)"
    using assms(2-4) by (rule batch_limit_limited)
  have n: "0 \<le> n" "n \<le> Count (t_config t) - txCount t" "n \<le> int (length txs)"
    using assms(1,2,4) l by (auto simp: batch_effect_def limited_def)
  then have "in_i64 (txCount t + n)"
    using assms(2,3) by (auto simp: limited_def in_i64_def)
  then have "txCount t' = txCount t + n"
    using assms(1) by (simp add: batch_effect_def i64_id)
  with n assms(3,5) batch_effect_written [OF assms(1)] show ?thesis by simp
qed

lemma send_step_count_ok:
  assumes "send_step cl s s'" and "limited c" and "count_ok c s"
  shows "count_ok c s'"
  using assms(1)
proof (cases rule: send_step.cases)
  case (selected tk w' t' rs)
  from selected(3) show ?thesis
  proof (cases rule: select_tick_cases)
    case (batch io err n txs)
    with assms(2,3) batch_keeps_count [OF batch(2)] selected show ?thesis
      by (auto simp: count_ok_def)
  next
    case other
    with assms(3) selected show ?thesis by (auto simp: count_ok_def)
  qed
qed (use assms(3) in \<open>auto simp: count_ok_def\<close>)

interpretation send_count: kept_by_relation "send_step cl" "\<lambda>s. limited c \<and> count_ok c s" for cl c
  by unfold_locales (auto intro: send_step_count_ok)


text \<open>
  A fresh transactor for a configuration, as \<open>NewTransactor\<close> returns it; and, for concrete
  runs, a client that always has the same transaction and a connection on which every write
  takes a whole send period.
\<close>

definition fresh_transactor :: "string \<Rightarrow> config \<Rightarrow> transactor" where
  "fresh_transactor addr cfg =
     \<lparr>remoteAddr = addr, t_config = cfg, broadcastTxMethod = ''broadcast_tx_'' @ BroadcastTxMethod cfg,
      startTime = 0, txCount = 0, txBytes = 0, txRate = 0, progressCallbackID = 0,
      progressCallbackInterval = defaultProgressCallbackInterval, progressCallback = False,
      stop = False, stopErr = None, frames = []\<rparr>"

lemma fresh_transactor_fields [simp]:
  "t_config (fresh_transactor a c) = c" "txCount (fresh_transactor a c) = 0"
  "txBytes (fresh_transactor a c) = 0" "frames (fresh_transactor a c) = []"
  "stop (fresh_transactor a c) = False" "stopErr (fresh_transactor a c) = None"
  "progressCallbackInterval (fresh_transactor a c) = 5 * second" "written (fresh_transactor a c) = 0"
  "progressCallback (fresh_transactor a c) = False"
  by (simp_all add: fresh_transactor_def written_def)

definition constant_client :: "string \<Rightarrow> 'w client" where
  "constant_client tx = \<lparr>GenerateTx = (\<lambda>w. Some (Inr tx, w))\<rparr>"

definition slow_io :: "config \<Rightarrow> batch_io" where
  "slow_io c = \<lparr>batch_now = 0, write_result = (\<lambda>_. None),
     batch_elapsed = (\<lambda>_. seconds_duration (SendPeriod c)), batch_end = 0\<rparr>"

definition limit_one :: config where
  "limit_one = (flag_defaults ''kvstore'')\<lparr>Count := 1, Endpoints := [''ws://h:26657/websocket'']\<rparr>"


lemma slow_batch:
  assumes "0 < batch_limit t" and "txCount t = 0"
  shows "\<exists>t'. sendTransactions (constant_client tx) (slow_io (t_config t)) w t = Some (None, w, t') \<and>
     txCount t' = 0 \<and> written t' = written t + 1 \<and> t_config t' = t_config t \<and>
     stop t' = stop t \<and> stopErr t' = stopErr t"
proof -
  have "batch_loop (constant_client tx) (broadcastTxMethod t) (seconds_duration (SendPeriod (t_config t)))
      (slow_io (t_config t)) (batch_limit t) 0 0 w (frames t) =
      Some \<lparr>batch_err = None, batch_sent = 0, batch_bytes = i64 (int (length tx)), batch_world = w,
        batch_frames = frames t @ [tx_frame (broadcastTxMethod t) tx]\<rparr>"
    using assms(1) by (subst batch_loop.simps) (simp add: constant_client_def slow_io_def)
  with assms(2) show ?thesis
    by (simp add: sendTransactions_def Let_def slow_io_def written_def)
qed

text \<open>C39: a limit on the transactions is no limit on what a slow connection is sent: when every
  write lasts a send period each batch writes one transaction and counts none, so for every
  \<open>n\<close> the loop, limited to one transaction, can have written \<open>n\<close> and still not have stopped.\<close>

theorem limit_overrun:
  "\<exists>s. (send_step (constant_client ''tx''))\<^sup>*\<^sup>* (sendLoop_start () (fresh_transactor ''a'' limit_one)) s \<and>
     Count (t_config (tr s)) = 1 \<and> written (tr s) = n \<and> txCount (tr s) = 0 \<and>
     \<not> stop (tr s) \<and> pc s = LoopTop"
proof (induction n)
  case 0
  show ?case
    by (intro exI [of _ "sendLoop_start () (fresh_transactor ''a'' limit_one)"])
      (simp add: sendLoop_start_def limit_one_def flag_defaults_def connPingPeriod_def
        seconds_duration_def i64_id in_i64_def)
next
  case (Suc n)
  then obtain s where s: "(send_step (constant_client ''tx''))\<^sup>*\<^sup>*
        (sendLoop_start () (fresh_transactor ''a'' limit_one)) s"
      "Count (t_config (tr s)) = 1" "written (tr s) = n" "txCount (tr s) = 0" "\<not> stop (tr s)"
      "pc s = LoopTop" by blast
  have c: "t_config (tr s) = limit_one"
  proof -
    have "count_ok limit_one (sendLoop_start () (fresh_transactor ''a'' limit_one))"
      by (simp add: count_ok_def sendLoop_start_def limit_one_def)
    then have "count_ok limit_one s"
      using send_count.run_keeps [OF s(1)]
      by (simp add: limited_def limit_one_def flag_defaults_def)
    then show ?thesis by (simp add: count_ok_def)
  qed
  let ?s1 = "s\<lparr>tr := count_check (tr s), pc := Selecting\<rparr>"
  have cc: "count_check (tr s) = tr s" using s(2,4) by (simp add: count_check_def)
  have "0 < batch_limit (tr s)"
    using c s(4) by (simp add: batch_limit_def limit_one_def flag_defaults_def i64_id in_i64_def)
  then obtain t' where t': "sendTransactions (constant_client ''tx'') (slow_io limit_one) (world s) (tr s)
        = Some (None, world s, t')" "txCount t' = 0" "written t' = n + 1"
      "t_config t' = limit_one" "\<not> stop t'"
    using slow_batch [of "tr s" "''tx''" "world s"] s(3,4,5) c by auto
  let ?s2 = "?s1\<lparr>tr := t', world := world s, pc := Checking, reports := reports s @ []\<rparr>"
  have "send_step (constant_client ''tx'') s ?s1" using s(6) by (rule send_step.at_top)
  moreover have "send_step (constant_client ''tx'') ?s1 ?s2"
    using send_step.selected [of ?s1 "constant_client ''tx''" "SendTick (slow_io limit_one)" "world s" t' "[]"]
      t'(1) by (simp add: cc)
  moreover have "send_step (constant_client ''tx'') ?s2 (?s2\<lparr>pc := LoopTop\<rparr>)"
    by (rule send_step.again) (use t' in \<open>simp_all add: mustStop_def\<close>)
  ultimately have "(send_step (constant_client ''tx''))\<^sup>*\<^sup>*
      (sendLoop_start () (fresh_transactor ''a'' limit_one)) (?s2\<lparr>pc := LoopTop\<rparr>)"
    using s(1) by (meson rtranclp.rtrancl_into_rtrancl)
  then show ?case
    using t' by (intro exI [of _ "?s2\<lparr>pc := LoopTop\<rparr>"]) (simp add: limit_one_def)
qed

subsection \<open>The loop: stopping\<close>

definition close_ok :: "'w send_state \<Rightarrow> bool" where
  "close_ok s \<longleftrightarrow> (pc s = Returned \<longrightarrow> stop (tr s)) \<and> CloseFrame \<notin> set (butlast (frames (tr s))) \<and>
     (CloseFrame \<in> set (frames (tr s)) \<longrightarrow> pc s = Returned)"

lemma select_tick_no_close:
  assumes "select_tick cl tk w t = Some (w', t', rs)" and "CloseFrame \<notin> set (frames t)"
  shows "CloseFrame \<notin> set (frames t')"
  using assms(1)
proof (cases rule: select_tick_cases)
  case (batch io err n txs)
  then show ?thesis using assms(2) by (auto simp: batch_effect_def tx_frame_eq)
next
  case other
  then show ?thesis using assms(2) by auto
qed

lemma send_step_close_ok:
  assumes "send_step cl s s'" and "close_ok s"
  shows "close_ok s'"
  using assms(1)
proof (cases rule: send_step.cases)
  case (selected tk w' t' rs)
  then have "CloseFrame \<notin> set (frames (tr s))" using assms(2) by (auto simp: close_ok_def)
  with selected select_tick_no_close [OF selected(3)] show ?thesis
    by (auto simp: close_ok_def dest: in_set_butlastD)
next
  case (leave res)
  then have "CloseFrame \<notin> set (frames (tr s))" using assms(2) by (auto simp: close_ok_def)
  with leave show ?thesis
    by (auto simp: close_ok_def mustStop_def t_close_def dest: in_set_butlastD split: option.splits)
qed (use assms(2) in \<open>auto simp: close_ok_def\<close>)

interpretation send_close: kept_by_relation "send_step cl" close_ok for cl
  by unfold_locales (rule send_step_close_ok)

text \<open>A concrete run: the time limit is reached before anything is sent.\<close>

definition demo_checking :: "unit send_state" where
  "demo_checking = \<lparr>tr = setStop None (fresh_transactor ''a'' limit_one), world = (),
     pc = Checking, reports = []\<rparr>"

definition demo_returned :: "unit send_state" where
  "demo_returned = demo_checking\<lparr>tr := t_close None (tr demo_checking), pc := Returned\<rparr>"

lemma demo_start:
  "sendLoop_start () (fresh_transactor ''a'' limit_one) =
     \<lparr>tr = fresh_transactor ''a'' limit_one, world = (), pc = LoopTop, reports = []\<rparr>"
  by (simp add: sendLoop_start_def connPingPeriod_def seconds_duration_def i64_id in_i64_def
      limit_one_def flag_defaults_def)

lemma demo_to_checking:
  "(send_step cl)\<^sup>*\<^sup>* (sendLoop_start () (fresh_transactor ''a'' limit_one)) demo_checking"
proof -
  let ?s0 = "\<lparr>tr = fresh_transactor ''a'' limit_one, world = (), pc = LoopTop, reports = []\<rparr>"
  let ?s1 = "?s0\<lparr>tr := count_check (tr ?s0), pc := Selecting\<rparr>"
  have "count_check (fresh_transactor ''a'' limit_one) = fresh_transactor ''a'' limit_one"
    by (simp add: count_check_def limit_one_def flag_defaults_def)
  then have "demo_checking = ?s1\<lparr>tr := setStop None (tr ?s1), world := (), pc := Checking,
      reports := reports ?s1 @ []\<rparr>"
    by (simp add: demo_checking_def)
  moreover have "send_step cl ?s1 (?s1\<lparr>tr := setStop None (tr ?s1), world := (), pc := Checking,
      reports := reports ?s1 @ []\<rparr>)"
    by (rule send_step.selected [where tk = TimeLimitTick]) simp_all
  moreover have "send_step cl ?s0 ?s1" by (rule send_step.at_top) simp
  ultimately show ?thesis
    unfolding demo_start by (metis converse_rtranclp_into_rtranclp rtranclp.rtrancl_refl)
qed

lemma demo_to_returned:
  "(send_step cl)\<^sup>*\<^sup>* (sendLoop_start () (fresh_transactor ''a'' limit_one)) demo_returned"
proof -
  have "send_step cl demo_checking demo_returned"
    unfolding demo_returned_def
    by (rule send_step.leave) (simp_all add: demo_checking_def mustStop_def)
  with demo_to_checking show ?thesis by (rule rtranclp.rtrancl_into_rtrancl)
qed

text \<open>C17: the close message is the last thing a transactor writes: whatever the schedule, if a
  close frame is on the connection then the loop has returned, was told to stop, and the close
  frame is the last frame and the only one.\<close>

theorem close_is_last:
  assumes "(send_step cl)\<^sup>*\<^sup>* (sendLoop_start w (fresh_transactor addr cfg)) s"
    and "CloseFrame \<in> set (frames (tr s))"
  shows "pc s = Returned \<and> stop (tr s) \<and> last (frames (tr s)) = CloseFrame \<and>
    count_list (frames (tr s)) CloseFrame = 1"
proof -
  have "close_ok (sendLoop_start w (fresh_transactor addr cfg))"
    by (auto simp: close_ok_def sendLoop_start_def)
  with assms(1) have ok: "close_ok s" by (rule send_close.run_keeps)
  obtain fs f where fs: "frames (tr s) = fs @ [f]"
    using assms(2) by (cases "frames (tr s)" rule: rev_cases) auto
  have "CloseFrame \<notin> set fs" using ok fs by (simp add: close_ok_def)
  with ok fs assms(2) show ?thesis by (auto simp: close_ok_def)
qed

theorem close_is_last_witness:
  "pc demo_returned = Returned \<and> stop (tr demo_returned) \<and> last (frames (tr demo_returned)) = CloseFrame \<and>
    count_list (frames (tr demo_returned)) CloseFrame = 1"
proof (rule close_is_last [OF demo_to_returned [of "constant_client ''tx''"]])
  show "CloseFrame \<in> set (frames (tr demo_returned))"
    by (simp add: demo_returned_def t_close_def)
qed

definition quiet :: "nat \<Rightarrow> 'w send_state \<Rightarrow> bool" where
  "quiet k s \<longleftrightarrow> pc s \<in> {Checking, Returned} \<and> stop (tr s) \<and> written (tr s) = k"

lemma send_step_quiet: "send_step cl s s' \<Longrightarrow> quiet k s \<Longrightarrow> quiet k s'"
  by (erule send_step.cases) (auto simp: quiet_def mustStop_def)

interpretation send_quiet: kept_by_relation "send_step cl" "quiet k" for cl k
  by unfold_locales (rule send_step_quiet)

text \<open>C18: a stop seen at the end of an iteration is final: from then on no transaction is written,
  and the only move of the loop itself is to return.\<close>

theorem no_tx_after_stop:
  assumes "pc s = Checking" and "stop (tr s)" and "(send_step cl)\<^sup>*\<^sup>* s s'"
  shows "written (tr s') = written (tr s) \<and> (pc s' = Checking \<or> pc s' = Returned) \<and>
    send_step cl s (s\<lparr>tr := t_close None (tr s), pc := Returned\<rparr>)"
proof -
  have "quiet (written (tr s)) s" using assms(1,2) by (simp add: quiet_def)
  with assms(3) have "quiet (written (tr s)) s'" by (rule send_quiet.run_keeps)
  with assms(1,2) show ?thesis
    by (auto simp: quiet_def mustStop_def intro: send_step.leave)
qed

theorem no_tx_after_stop_witness:
  "written (tr demo_returned) = written (tr demo_checking) \<and>
   (pc demo_returned = Checking \<or> pc demo_returned = Returned) \<and>
   send_step (constant_client ''tx'') demo_checking
     (demo_checking\<lparr>tr := t_close None (tr demo_checking), pc := Returned\<rparr>)"
proof (rule no_tx_after_stop)
  show "pc demo_checking = Checking" "stop (tr demo_checking)" by (simp_all add: demo_checking_def)
  show "(send_step (constant_client ''tx''))\<^sup>*\<^sup>* demo_checking demo_returned"
    unfolding demo_returned_def
    by (rule r_into_rtranclp, rule send_step.leave) (simp_all add: demo_checking_def mustStop_def)
qed

definition has_error :: "'w send_state \<Rightarrow> bool" where
  "has_error s \<longleftrightarrow> stopErr (tr s) \<noteq> None"

lemma send_step_has_error:
  assumes "send_step cl s s'" and "has_error s"
  shows "has_error s'"
  using assms(1)
proof (cases rule: send_step.cases)
  case (selected tk w' t' rs)
  from selected(3) show ?thesis
    by (cases rule: select_tick_cases) (use assms(2) selected in \<open>auto simp: has_error_def\<close>)
qed (use assms(2) in \<open>auto simp: has_error_def\<close>)

interpretation send_error: kept_by_relation "send_step cl" has_error for cl
  by unfold_locales (rule send_step_has_error)

text \<open>\<open>Wait\<close> returns the stop error once both loops are done.\<close>

definition t_Wait :: "transactor \<Rightarrow> go_error option" where
  "t_Wait t = stopErr t"

text \<open>C19: an error that stopped the loop is never lost: reaching the limit or the time limit
  afterwards, which stop without an error, does not clear it, so \<open>Wait\<close> reports one.\<close>

theorem error_survives:
  assumes "t_Wait (tr s) \<noteq> None" and "(send_step cl)\<^sup>*\<^sup>* s s'"
  shows "t_Wait (tr s') \<noteq> None"
proof -
  have "has_error s" using assms(1) by (simp add: has_error_def t_Wait_def)
  with assms(2) have "has_error s'" by (rule send_error.run_keeps)
  then show ?thesis by (simp add: has_error_def t_Wait_def)
qed

theorem error_survives_witness:
  "t_Wait (tr (demo_returned\<lparr>tr := Cancel (tr demo_returned)\<rparr>)) \<noteq> None"
  by (rule error_survives [of "demo_returned\<lparr>tr := Cancel (tr demo_returned)\<rparr>" "constant_client ''tx''"])
    (simp_all add: t_Wait_def)

subsection \<open>Entering the loop\<close>

lemma seconds_duration_pos: "1 \<le> n \<Longrightarrow> n \<le> 9223372036 \<Longrightarrow> 0 < seconds_duration n"
  by (simp add: seconds_duration_def i64_id in_i64_def)

lemma Config_Validate_None:
  assumes "Config_Validate reg c = None"
  shows "1 \<le> Connections c" and "1 \<le> Time c" and "1 \<le> SendPeriod c" and "1 \<le> Rate c"
    and "1 \<le> Count c \<or> Count c = -1" and "BroadcastTxMethod c \<in> set validBroadcastTxMethods"
    and "Endpoints c \<noteq> []" and "EndpointSelectMethod c \<in> set validEndpointSelectMethods"
    and "0 \<le> MaxEndpoints c" and "0 \<le> MinConnectivity c" and "0 \<le> ExpectPeers c"
    and "ghas reg (ClientFactory c)"
  using assms by (auto simp: Config_Validate_def ghas_def split: option.splits if_splits)

text \<open>With a validated configuration the four tickers of the send loop can be made, as long as
  the duration and the send period are at most 9223372036 seconds.\<close>

theorem tickers_start:
  assumes "Config_Validate reg (t_config t) = None"
    and "Time (t_config t) \<le> 9223372036" and "SendPeriod (t_config t) \<le> 9223372036"
    and "0 < progressCallbackInterval t"
  shows "pc (sendLoop_start w t) = LoopTop"
  using assms Config_Validate_None(2,3) [OF assms(1)]
  by (simp add: sendLoop_start_def seconds_duration_pos connPingPeriod_def)

theorem tickers_start_witness:
  "pc (sendLoop_start () (fresh_transactor ''a'' limit_one)) = LoopTop"
proof -
  have "MaxTxsPerEndpoint limit_one = 1"
    by (simp add: MaxTxsPerEndpoint_def limit_one_def flag_defaults_def)
  moreover have "requiredKVStoreSuffixLen 1 = Inr 2"
    by (simp add: requiredKVStoreSuffixLen_def kvstoreMaxTxsByKeySuffixLen_def)
  ultimately have "KVStore_ValidateConfig limit_one = None"
    by (simp add: KVStore_ValidateConfig_None limit_one_def flag_defaults_def)
  then have "Config_Validate (snd init_registry) limit_one = None"
    by (simp add: config_validate_kvstore_iff limit_one_def flag_defaults_def SelectSuppliedEndpoints_def)
  then show ?thesis
    by (intro tickers_start) (simp_all add: limit_one_def flag_defaults_def)
qed

text \<open>A time limit above 9223372036 seconds wraps around in nanoseconds: there is a configuration
  that passes validation and makes every send loop panic on its first ticker.\<close>

theorem validated_config_crashes:
  "\<exists>c. Config_Validate (snd init_registry) c = None \<and> config_ints c \<and>
     (\<forall>addr. pc (sendLoop_start w (fresh_transactor addr c)) = Crashed)"
proof -
  let ?c = "limit_one\<lparr>Time := 9223372037\<rparr>"
  have "MaxTxsPerEndpoint ?c = 1"
    by (simp add: MaxTxsPerEndpoint_def limit_one_def flag_defaults_def)
  moreover have "requiredKVStoreSuffixLen 1 = Inr 2"
    by (simp add: requiredKVStoreSuffixLen_def kvstoreMaxTxsByKeySuffixLen_def)
  ultimately have "KVStore_ValidateConfig ?c = None"
    by (simp add: KVStore_ValidateConfig_None limit_one_def flag_defaults_def)
  then have "Config_Validate (snd init_registry) ?c = None"
    by (simp add: config_validate_kvstore_iff limit_one_def flag_defaults_def SelectSuppliedEndpoints_def)
  moreover have "config_ints ?c"
    by (simp add: config_ints_def in_i64_def limit_one_def flag_defaults_def)
  moreover have "\<not> 0 < seconds_duration (Time ?c)"
    by (simp add: seconds_duration_def i64_def)
  ultimately show ?thesis by (intro exI [of _ ?c]) (simp add: sendLoop_start_def)
qed

subsection \<open>Bytes sent by an exact-size client\<close>

definition bytes_ok :: "config \<Rightarrow> 'w send_state \<Rightarrow> bool" where
  "bytes_ok c s \<longleftrightarrow> txBytes (tr s) = i64 (Size c * int (written (tr s)))"

lemma txs_bytes_const:
  "\<forall>tx \<in> set txs. int (length tx) = k \<Longrightarrow> txs_bytes txs = k * int (length txs)"
  by (induction txs) (simp_all add: algebra_simps)

context exact_size_clients
begin

lemma sized_step:
  assumes "config_ints cfg" and "ValidateConfig f cfg = None"
    and "NewClient f cfg w0 = Some (Inr cl, w1)"
    and "send_step cl s s'" and "bytes_ok cfg s"
  shows "bytes_ok cfg s'"
  using assms(4)
proof (cases rule: send_step.cases)
  case (selected tk w' t' rs)
  from selected(3) show ?thesis
  proof (cases rule: select_tick_cases)
    case (batch io err n txs)
    have "\<forall>tx \<in> set txs. int (length tx) = Size cfg"
      using batch(2) tx_size [OF assms(1-3)] by (auto simp: batch_effect_def generates_def)
    then have "txs_bytes txs = Size cfg * int (length txs)" by (rule txs_bytes_const)
    moreover have "txBytes t' = i64 (txBytes (tr s) + txs_bytes txs)"
      using batch(2) unfolding batch_effect_def by blast
    moreover have "txBytes (tr s) = i64 (Size cfg * int (written (tr s)))"
      using assms(5) by (simp add: bytes_ok_def)
    ultimately have "txBytes t' = i64 (Size cfg * int (written (tr s)) + Size cfg * int (length txs))"
      by (simp only: wrap_simps)
    then show ?thesis
      using selected(1) batch_effect_written [OF batch(2)]
      by (simp add: bytes_ok_def distrib_left)
  next
    case other
    with assms(5) selected(1) show ?thesis by (simp add: bytes_ok_def)
  qed
qed (use assms(5) in \<open>auto simp: bytes_ok_def\<close>)

lemma sized_run:
  assumes "config_ints cfg" and "ValidateConfig f cfg = None"
    and "NewClient f cfg w0 = Some (Inr cl, w1)"
    and "(send_step cl)\<^sup>*\<^sup>* s s'" and "bytes_ok cfg s"
  shows "bytes_ok cfg s'"
  using assms(4,5) by (induction rule: rtranclp_induct) (auto intro: sized_step [OF assms(1-3)])

end

text \<open>C27: with the kvstore client of a validated configuration, the byte count of a transactor is at
  every moment the configured size times the number of transactions written (in 64-bit
  arithmetic), through every error, cancellation and cut batch.\<close>

theorem kv_bytes_exact:
  assumes "config_ints cfg" and "ValidateConfig KVStoreClientFactory cfg = None"
    and "NewClient KVStoreClientFactory cfg w0 = Some (Inr cl, w1)"
    and "(send_step cl)\<^sup>*\<^sup>* (sendLoop_start w (fresh_transactor addr cfg)) s"
  shows "txBytes (tr s) = i64 (Size cfg * int (written (tr s)))"
proof -
  have "bytes_ok cfg (sendLoop_start w (fresh_transactor addr cfg))"
    by (simp add: bytes_ok_def sendLoop_start_def)
  with kv.sized_run [OF assms] show ?thesis by (simp add: bytes_ok_def)
qed

theorem kv_bytes_exact_witness:
  "txBytes (tr (sendLoop_start ([] :: entropy) (fresh_transactor ''a''
      ((flag_defaults ''kvstore'')\<lparr>Count := 10, Size := 9\<rparr>))))
     = i64 (9 * int (written (tr (sendLoop_start ([] :: entropy) (fresh_transactor ''a''
      ((flag_defaults ''kvstore'')\<lparr>Count := 10, Size := 9\<rparr>))))))"
proof -
  let ?cfg = "(flag_defaults ''kvstore'')\<lparr>Count := 10, Size := 9\<rparr>"
  have r: "requiredKVStoreSuffixLen 10 = Inr 2"
    by (simp add: requiredKVStoreSuffixLen_def kvstoreMaxTxsByKeySuffixLen_def)
  have m: "MaxTxsPerEndpoint ?cfg = 10" by (simp add: MaxTxsPerEndpoint_def flag_defaults_def)
  have i: "config_ints ?cfg" by (simp add: config_ints_def in_i64_def flag_defaults_def)
  have "KVStore_ValidateConfig ?cfg = None"
    by (simp add: KVStore_ValidateConfig_None r m)
  then have v: "ValidateConfig KVStoreClientFactory ?cfg = None" by (simp add: KVStoreClientFactory_def)
  have "randStr 5 [0, 0, 0, 0, 0] = Some (''00000'', [])"
    by (simp add: randStr_def rand_char_def strChars_def)
  then obtain cl where n: "NewClient KVStoreClientFactory ?cfg [0, 0, 0, 0, 0] = Some (Inr cl, [])"
    by (simp add: KVStore_NewClient_def KVStoreClientIDLen_def KVStoreClientFactory_def r m)
  show ?thesis
    using kv_bytes_exact [OF i v n rtranclp.rtrancl_refl, of "[]" "''a''"] by simp
qed

end
