(* ===== verification/Transactor_Group.thy ===== *)
theory Transactor_Group
  imports Load_Transactor
begin

section \<open>Groups of transactors (transactor_group.go)\<close>

text \<open>
  A group makes the transactors of every endpoint, runs them together, keeps the last
  progress each one reported and waits for all of them.  The statistics are the two maps of
  the code, keyed by the transactor's index.  Running is a step relation that interleaves the
  send loops of the members, their progress callbacks, the group's own reports and the
  goroutines of \<open>Wait\<close>.
\<close>

subsection \<open>Connecting: NewTransactor (transactor.go)\<close>

text \<open>
  What \<open>url.Parse\<close> makes of an address (its scheme and its \<open>String()\<close>) and what the
  WebSockets dialer answers are arguments: an error, or the HTTP status code and text.
\<close>

type_synonym url_parser = "string \<Rightarrow> string + string \<times> string"

type_synonym dial_answer = "string + int \<times> string"

definition NewTransactor ::
    "'w registry \<Rightarrow> url_parser \<Rightarrow> dial_answer \<Rightarrow> string \<Rightarrow> config \<Rightarrow> 'w \<Rightarrow>
     ((go_error + transactor \<times> 'w client) \<times> 'w) option" where
  "NewTransactor clientFactories url_Parse dial addr cfg w =
     (case url_Parse addr of
        Inl err \<Rightarrow> Some (Inl err, w)
      | Inr (scheme, url) \<Rightarrow>
        if scheme \<noteq> ''ws'' \<and> scheme \<noteq> ''wss''
        then Some (Inl (''unsupported protocol: '' @ scheme @
               '' (only ws:// and wss:// are supported)''), w)
        else (case gget clientFactories (ClientFactory cfg) of
           None \<Rightarrow> Some (Inl (''unrecognized client factory: '' @ ClientFactory cfg), w)
         | Some clientFactory \<Rightarrow>
           (case NewClient clientFactory cfg w of
              None \<Rightarrow> None
            | Some (Inl err, w') \<Rightarrow> Some (Inl err, w')
            | Some (Inr cl, w') \<Rightarrow>
              (case dial of
                 Inl err \<Rightarrow> Some (Inl err, w')
               | Inr (code, status) \<Rightarrow>
                 if code \<ge> 400
                 then Some (Inl (''failed to connect to remote WebSockets endpoint '' @ addr @ '': '' @
                        status @ '' (status code '' @ show_int code @ '')''), w')
                 else Some (Inr (fresh_transactor url cfg, cl), w')))))"

subsection \<open>The group and its construction\<close>

record 'w group =
  transactors :: "(transactor \<times> 'w client) list"
  g_startTime :: int
  txCounts :: "(int, int) gomap"
  g_txBytes :: "(int, int) gomap"
  g_callbackInterval :: duration
  g_callback :: bool

definition NewTransactorGroup :: "'w group" where
  "NewTransactorGroup =
     \<lparr>transactors = [], g_startTime = 0, txCounts = [], g_txBytes = [],
      g_callbackInterval = defaultProgressCallbackInterval, g_callback = False\<rparr>"

abbreviation g_getProgressCallbackInterval :: "'w group \<Rightarrow> duration" where
  "g_getProgressCallbackInterval g \<equiv> g_callbackInterval g"

abbreviation setStartTime :: "int \<Rightarrow> 'w group \<Rightarrow> 'w group" where
  "setStartTime now g \<equiv> g\<lparr>g_startTime := now\<rparr>"

abbreviation getStartTime :: "'w group \<Rightarrow> int" where
  "getStartTime g \<equiv> g_startTime g"

definition g_SetProgressCallback :: "duration \<Rightarrow> bool \<Rightarrow> 'w group \<Rightarrow> 'w group" where
  "g_SetProgressCallback interval callback g =
     g\<lparr>g_callbackInterval := interval, g_callback := callback\<rparr>"

text \<open>\<open>close\<close> writes a close frame on every connection; \<open>res i\<close> is what that write returns.\<close>

definition g_close :: "(nat \<Rightarrow> go_error option) \<Rightarrow> 'w group \<Rightarrow> 'w group" where
  "g_close res g =
     g\<lparr>transactors := map (\<lambda>(i, t, cl). (t_close (res i) t, cl))
         (zip [0..<length (transactors g)] (transactors g))\<rparr>"

text \<open>
  The environment of the construction: the parser, the answer to the \<open>i\<close>-th dial and the
  results of the close frames written when one fails.
\<close>

record group_env =
  url_Parse :: url_parser
  dials :: "nat \<Rightarrow> dial_answer"
  close_result :: "nat \<Rightarrow> go_error option"

definition g_Add ::
    "'w registry \<Rightarrow> group_env \<Rightarrow> string \<Rightarrow> config \<Rightarrow> 'w \<times> 'w group \<Rightarrow>
     (go_error option \<times> 'w \<times> 'w group) option" where
  "g_Add reg env addr cfg = (\<lambda>(w, g).
     (case NewTransactor reg (url_Parse env) (dials env (length (transactors g))) addr cfg w of
        None \<Rightarrow> None
      | Some (Inl err, w') \<Rightarrow> Some (Some err, w', g_close (close_result env) g)
      | Some (Inr (t, cl), w') \<Rightarrow>
        (let t' = SetProgressCallback (int (length (transactors g)))
                    (g_callbackInterval g sdiv 2) True t
         in Some (None, w', g\<lparr>transactors := transactors g @ [(t', cl)]\<rparr>))))"

text \<open>The inner loop of \<open>AddAll\<close>, with the connections still to make, and the outer one.\<close>

fun add_connections ::
    "'w registry \<Rightarrow> group_env \<Rightarrow> config \<Rightarrow> string \<Rightarrow> nat \<Rightarrow> 'w \<times> 'w group \<Rightarrow>
     (go_error option \<times> 'w \<times> 'w group) option" where
  "add_connections reg env cfg endpoint 0 (w, g) = Some (None, w, g)"
| "add_connections reg env cfg endpoint (Suc n) (w, g) =
     (case g_Add reg env endpoint cfg (w, g) of
        None \<Rightarrow> None
      | Some (Some err, w', g') \<Rightarrow> Some (Some err, w', g')
      | Some (None, w', g') \<Rightarrow> add_connections reg env cfg endpoint n (w', g'))"

fun add_endpoints ::
    "'w registry \<Rightarrow> group_env \<Rightarrow> config \<Rightarrow> string list \<Rightarrow> 'w \<times> 'w group \<Rightarrow>
     (go_error option \<times> 'w \<times> 'w group) option" where
  "add_endpoints reg env cfg [] (w, g) = Some (None, w, g)"
| "add_endpoints reg env cfg (endpoint # rest) (w, g) =
     (case add_connections reg env cfg endpoint (nat (Connections cfg)) (w, g) of
        None \<Rightarrow> None
      | Some (Some err, w', g') \<Rightarrow> Some (Some err, w', g')
      | Some (None, w', g') \<Rightarrow> add_endpoints reg env cfg rest (w', g'))"

definition AddAll ::
    "'w registry \<Rightarrow> group_env \<Rightarrow> config \<Rightarrow> 'w \<times> 'w group \<Rightarrow>
     (go_error option \<times> 'w \<times> 'w group) option" where
  "AddAll reg env cfg = add_endpoints reg env cfg (Endpoints cfg)"

subsection \<open>Statistics\<close>

definition trackTransactorProgress :: "int \<times> int \<times> int \<Rightarrow> 'w group \<Rightarrow> 'w group" where
  "trackTransactorProgress = (\<lambda>(n, c, b) g.
     g\<lparr>txCounts := gset n c (txCounts g), g_txBytes := gset n b (g_txBytes g)\<rparr>)"

text \<open>The order in which \<open>range\<close> visits the map does not matter (\<open>ranges_over_sum\<close>).\<close>

definition totalTxs :: "'w group \<Rightarrow> int" where
  "totalTxs g = go_sum (gvals (txCounts g))"

definition totalBytes :: "'w group \<Rightarrow> int" where
  "totalBytes g = go_sum (gvals (g_txBytes g))"

definition g_reportProgress :: "'w group \<Rightarrow> (int \<times> int) list" where
  "g_reportProgress g = (if g_callback g then [(totalTxs g, totalBytes g)] else [])"

text \<open>
  The loop of \<open>progressReporter\<close> on the ticks it gets, each with the group as it then is, until its
  stop channel is closed: what the callback was given.  Its ticker panics on an interval that is
  not positive.
\<close>

datatype 'w reporter_event = ReporterTick "'w group" | StopReporter

fun report_loop :: "'w reporter_event list \<Rightarrow> (int \<times> int) list" where
  "report_loop [] = []"
| "report_loop (ReporterTick g # es) = g_reportProgress g @ report_loop es"
| "report_loop (StopReporter # es) = []"

definition progressReporter :: "'w group \<Rightarrow> 'w reporter_event list \<Rightarrow> (int \<times> int) list option" where
  "progressReporter g es = (if 0 < g_getProgressCallbackInterval g then Some (report_loop es) else None)"

text \<open>Every report is the group's totals at some tick before the stop, and none comes after it.\<close>

lemma report_loop_eq:
  "report_loop es = concat (map (\<lambda>e. case e of ReporterTick g \<Rightarrow> g_reportProgress g | StopReporter \<Rightarrow> [])
     (takeWhile (\<lambda>e. e \<noteq> StopReporter) es))"
  by (induction es rule: report_loop.induct) simp_all

lemma progressReporter_default: "progressReporter NewTransactorGroup es = Some (report_loop es)"
  by (simp add: progressReporter_def NewTransactorGroup_def)

definition g_Cancel :: "'w group \<Rightarrow> 'w group" where
  "g_Cancel g = g\<lparr>transactors := map (\<lambda>(t, cl). (Cancel t, cl)) (transactors g)\<rparr>"

subsection \<open>Running and waiting\<close>

text \<open>
  A running group: the send loops of the members (their clients are the parameter \<open>cls\<close> of the
  relation), the content of the channel \<open>errc\<close>, the indices whose goroutine in \<open>Wait\<close> has
  sent its error and those whose final count it has then stored, and what the group's own
  callback was given.
\<close>

record 'w group_run =
  grp :: "'w group"
  members :: "'w send_state list"
  errc :: "go_error option list"
  sent_err :: "nat list"
  tracked :: "nat list"
  g_reports :: "(int \<times> int) list"

definition g_Start :: "int \<Rightarrow> 'w list \<Rightarrow> 'w group \<Rightarrow> 'w group_run" where
  "g_Start now ws g =
     \<lparr>grp = setStartTime now g,
      members = map (\<lambda>(w, t, cl). sendLoop_start w t) (zip ws (transactors g)),
      errc = [], sent_err = [], tracked = [], g_reports = []\<rparr>"

text \<open>
  A member's step passes what its callback is given on to \<open>trackTransactorProgress\<close>.
  Cancelling the group cancels its members one after the other (\<open>send_step.cancelled\<close>).
\<close>

inductive group_step :: "'w client list \<Rightarrow> 'w group_run \<Rightarrow> 'w group_run \<Rightarrow> bool" for cls where
  member: "i < length (members s) \<Longrightarrow> send_step (cls ! i) (members s ! i) m' \<Longrightarrow>
    reports m' = reports (members s ! i) @ rs \<Longrightarrow>
    group_step cls s (s\<lparr>members := (members s)[i := m'],
      grp := fold trackTransactorProgress rs (grp s)\<rparr>)"
| send_result: "i < length (members s) \<Longrightarrow> pc (members s ! i) = Returned \<Longrightarrow>
    i \<notin> set (sent_err s) \<Longrightarrow>
    group_step cls s (s\<lparr>errc := errc s @ [t_Wait (tr (members s ! i))], sent_err := i # sent_err s\<rparr>)"
| track_final: "i \<in> set (sent_err s) \<Longrightarrow> i \<notin> set (tracked s) \<Longrightarrow>
    group_step cls s (s\<lparr>tracked := i # tracked s,
      grp := trackTransactorProgress
        (int i, GetTxCount (tr (members s ! i)), GetTxBytes (tr (members s ! i))) (grp s)\<rparr>)"
| report: "group_step cls s (s\<lparr>g_reports := g_reports s @ g_reportProgress (grp s)\<rparr>)"

text \<open>\<open>wg.Wait()\<close> passes when every goroutine is done; then the channel is read in order.\<close>

definition wait_done :: "'w group_run \<Rightarrow> bool" where
  "wait_done s \<longleftrightarrow> (\<forall>i < length (members s). i \<in> set (tracked s))"

fun first_error :: "go_error option list \<Rightarrow> go_error option" where
  "first_error [] = None"
| "first_error (None # es) = first_error es"
| "first_error (Some e # es) = Some e"

definition g_Wait :: "'w group_run \<Rightarrow> go_error option" where
  "g_Wait s = first_error (errc s)"

subsection \<open>What the construction makes\<close>

text \<open>The member made for an address at an index.\<close>

definition made_for :: "group_env \<Rightarrow> config \<Rightarrow> duration \<Rightarrow> string \<Rightarrow> nat \<Rightarrow> transactor \<Rightarrow> bool" where
  "made_for env cfg interval addr i t \<longleftrightarrow>
     (\<exists>scheme url. url_Parse env addr = Inr (scheme, url) \<and> scheme \<in> {''ws'', ''wss''} \<and>
        t = SetProgressCallback (int i) (interval sdiv 2) True (fresh_transactor url cfg)) \<and>
     (\<exists>code status. dials env i = Inr (code, status) \<and> code < 400)"

lemma NewTransactor_made:
  assumes "NewTransactor reg parse dial addr cfg w = Some (Inr (t, cl), w')"
  shows "(\<exists>scheme url. parse addr = Inr (scheme, url) \<and> scheme \<in> {''ws'', ''wss''} \<and>
      t = fresh_transactor url cfg) \<and> (\<exists>code status. dial = Inr (code, status) \<and> code < 400)"
  using assms by (auto simp: NewTransactor_def split: sum.splits option.splits if_splits prod.splits)

text \<open>Adding members leaves the rest of the group alone and appends members made as asked.\<close>

definition grows :: "group_env \<Rightarrow> config \<Rightarrow> string list \<Rightarrow> 'w group \<Rightarrow> 'w group \<Rightarrow> bool" where
  "grows env cfg addrs g g' \<longleftrightarrow>
     (\<exists>new. g' = g\<lparr>transactors := transactors g @ new\<rparr> \<and> length new = length addrs \<and>
       (\<forall>k < length addrs. made_for env cfg (g_callbackInterval g) (addrs ! k)
          (length (transactors g) + k) (fst (new ! k))))"

lemma grows_refl [simp]: "grows env cfg [] g g"
  by (simp add: grows_def)

lemma grows_trans:
  assumes "grows env cfg xs g g'" and "grows env cfg ys g' g''"
  shows "grows env cfg (xs @ ys) g g''"
proof -
  obtain a where a: "g' = g\<lparr>transactors := transactors g @ a\<rparr>" "length a = length xs"
      "\<forall>k < length xs. made_for env cfg (g_callbackInterval g) (xs ! k)
         (length (transactors g) + k) (fst (a ! k))"
    using assms(1) by (auto simp: grows_def)
  obtain b where b: "g'' = g'\<lparr>transactors := transactors g' @ b\<rparr>" "length b = length ys"
      "\<forall>k < length ys. made_for env cfg (g_callbackInterval g') (ys ! k)
         (length (transactors g') + k) (fst (b ! k))"
    using assms(2) by (auto simp: grows_def)
  have "made_for env cfg (g_callbackInterval g) ((xs @ ys) ! k)
      (length (transactors g) + k) (fst ((a @ b) ! k))" if "k < length (xs @ ys)" for k
  proof (cases "k < length xs")
    case True
    with a show ?thesis by (simp add: nth_append)
  next
    case False
    with that a(1,2) b(2,3) show ?thesis
      by (auto simp: nth_append dest!: spec [of _ "k - length xs"])
  qed
  with a(1,2) b(1,2) show ?thesis
    unfolding grows_def by (intro exI [of _ "a @ b"]) simp
qed

text \<open>A failed construction: some members were made, then all of them were closed.\<close>

definition fails_after :: "group_env \<Rightarrow> config \<Rightarrow> string list \<Rightarrow> 'w group \<Rightarrow> 'w group \<Rightarrow> bool" where
  "fails_after env cfg addrs g g' \<longleftrightarrow>
     (\<exists>made todo g0. addrs = made @ todo \<and> todo \<noteq> [] \<and> grows env cfg made g g0 \<and>
        g' = g_close (close_result env) g0)"

definition built :: "group_env \<Rightarrow> config \<Rightarrow> string list \<Rightarrow> 'w group \<Rightarrow> go_error option \<Rightarrow> 'w group \<Rightarrow> bool" where
  "built env cfg addrs g err g' \<longleftrightarrow>
     (if err = None then grows env cfg addrs g g' else fails_after env cfg addrs g g')"

lemma built_append:
  assumes "grows env cfg xs g g'" and "built env cfg ys g' err g''"
  shows "built env cfg (xs @ ys) g err g''"
  using assms unfolding built_def fails_after_def
  by (smt (verit) append_assoc grows_trans)

lemma built_prefix:
  "fails_after env cfg xs g g' \<Longrightarrow> built env cfg (xs @ ys) g (Some e) g'"
  unfolding built_def fails_after_def by fastforce

lemma g_Add_built:
  assumes "g_Add reg env addr cfg (w, g) = Some (err, w', g')"
  shows "built env cfg [addr] g err g'"
proof (cases err)
  case None
  then obtain t cl where t: "NewTransactor reg (url_Parse env) (dials env (length (transactors g)))
        addr cfg w = Some (Inr (t, cl), w')"
    and g': "g' = g\<lparr>transactors := transactors g @ [(SetProgressCallback
        (int (length (transactors g))) (g_callbackInterval g sdiv 2) True t, cl)]\<rparr>"
    using assms by (auto simp: g_Add_def split: option.splits sum.splits prod.splits)
  show ?thesis
    using NewTransactor_made [OF t] None
    by (auto simp: built_def grows_def made_for_def g')
next
  case (Some e)
  with assms have "g' = g_close (close_result env) g"
    by (auto simp: g_Add_def split: option.splits sum.splits prod.splits)
  then have "fails_after env cfg [addr] g g'"
    unfolding fails_after_def by (intro exI [of _ "[]"] exI [of _ "[addr]"] exI [of _ g]) simp
  then show ?thesis by (simp add: Some built_def)
qed

lemma add_connections_built:
  "add_connections reg env cfg addr n (w, g) = Some (err, w', g') \<Longrightarrow>
   built env cfg (replicate n addr) g err g'"
proof (induction n arbitrary: w g)
  case 0
  then show ?case by (auto simp: built_def)
next
  case (Suc n)
  obtain e w1 g1 where 1: "g_Add reg env addr cfg (w, g) = Some (e, w1, g1)"
    using Suc.prems by (auto split: option.splits prod.splits)
  note b = g_Add_built [OF 1]
  show ?case
  proof (cases e)
    case None
    with Suc.prems 1 have "add_connections reg env cfg addr n (w1, g1) = Some (err, w', g')" by simp
    from Suc.IH [OF this] b None show ?thesis
      using built_append [of env cfg "[addr]" g g1 "replicate n addr"] by (simp add: built_def)
  next
    case (Some x)
    with Suc.prems 1 b show ?thesis
      using built_prefix [of env cfg "[addr]" g g1 "replicate n addr"] by (auto simp: built_def)
  qed
qed

lemma add_endpoints_built:
  "add_endpoints reg env cfg eps (w, g) = Some (err, w', g') \<Longrightarrow>
   built env cfg (concat (map (replicate (nat (Connections cfg))) eps)) g err g'"
proof (induction eps arbitrary: w g)
  case Nil
  then show ?case by (auto simp: built_def)
next
  case (Cons ep eps)
  let ?n = "nat (Connections cfg)"
  obtain e w1 g1 where 1: "add_connections reg env cfg ep ?n (w, g) = Some (e, w1, g1)"
    using Cons.prems by (auto split: option.splits prod.splits)
  note b = add_connections_built [OF 1]
  show ?case
  proof (cases e)
    case None
    with Cons.prems 1 have "add_endpoints reg env cfg eps (w1, g1) = Some (err, w', g')" by simp
    from Cons.IH [OF this] b None show ?thesis
      using built_append [of env cfg "replicate ?n ep" g g1] by (simp add: built_def)
  next
    case (Some x)
    with Cons.prems 1 b show ?thesis
      using built_prefix [of env cfg "replicate ?n ep" g g1] by (auto simp: built_def)
  qed
qed

lemma nth_concat_replicate:
  "0 < n \<Longrightarrow> i < length xs * n \<Longrightarrow> concat (map (replicate n) xs) ! i = xs ! (i div n)"
proof (induction xs arbitrary: i)
  case Nil
  then show ?case by simp
next
  case (Cons x xs)
  show ?case
  proof (cases "i < n")
    case True
    then show ?thesis by (simp add: nth_append)
  next
    case False
    then have "i - n < length xs * n" and "i div n = Suc ((i - n) div n)"
      using Cons.prems by (auto simp: le_div_geq)
    with Cons.IH [of "i - n"] False Cons.prems show ?thesis by (simp add: nth_append)
  qed
qed

lemma length_concat_replicate: "length (concat (map (replicate n) xs)) = length xs * n"
  by (induction xs) simp_all

text \<open>C26: when \<open>AddAll\<close> succeeds the group has \<open>Connections\<close> transactors for every endpoint, in
  the endpoints' order: the \<open>i\<close>-th is a fresh transactor for the endpoint at
  \<open>i div Connections\<close>, knows itself by the index \<open>i\<close> and reports twice per progress interval
  of the group.\<close>

theorem add_all_makes_every_connection:
  assumes "AddAll reg env cfg (w, NewTransactorGroup) = Some (None, w', g)"
  shows "length (transactors g) = length (Endpoints cfg) * nat (Connections cfg) \<and>
    (\<forall>i < length (transactors g). \<exists>scheme url.
       url_Parse env (Endpoints cfg ! (i div nat (Connections cfg))) = Inr (scheme, url) \<and>
       (scheme = ''ws'' \<or> scheme = ''wss'') \<and>
       fst (transactors g ! i) =
         SetProgressCallback (int i) 2500000000 True (fresh_transactor url cfg))"
proof -
  let ?n = "nat (Connections cfg)" and ?addrs = "concat (map (replicate (nat (Connections cfg))) (Endpoints cfg))"
  have "built env cfg ?addrs NewTransactorGroup None g"
    using assms unfolding AddAll_def by (rule add_endpoints_built)
  then have new: "length (transactors g) = length ?addrs"
      "\<forall>k < length ?addrs. made_for env cfg (5 * second) (?addrs ! k) k (fst (transactors g ! k))"
    by (auto simp: built_def grows_def NewTransactorGroup_def)
  have half: "5 * second sdiv 2 = 2500000000" by (simp add: signed_divide_int_def)
  have "\<exists>scheme url. url_Parse env (Endpoints cfg ! (i div ?n)) = Inr (scheme, url) \<and>
      (scheme = ''ws'' \<or> scheme = ''wss'') \<and>
      fst (transactors g ! i) = SetProgressCallback (int i) 2500000000 True (fresh_transactor url cfg)"
    if "i < length (transactors g)" for i
  proof -
    have i: "i < length (Endpoints cfg) * ?n" using that by (simp add: new(1) length_concat_replicate)
    then have "0 < ?n" by (cases ?n) auto
    then have "?addrs ! i = Endpoints cfg ! (i div ?n)" using i by (rule nth_concat_replicate)
    with new(2) that show ?thesis
      unfolding new(1) by (force simp: made_for_def half)
  qed
  with new(1) show ?thesis by (simp add: length_concat_replicate)
qed

text \<open>When \<open>AddAll\<close> fails, it stopped before the last connection, and every transactor made so
  far has had its connection closed: a close frame is all that was written on it (nothing, if
  that write failed too).\<close>

theorem add_all_failure_closes_all:
  assumes "AddAll reg env cfg (w, NewTransactorGroup) = Some (Some err, w', g)"
  shows "length (transactors g) < length (Endpoints cfg) * nat (Connections cfg) \<and>
    (\<forall>i < length (transactors g). frames (fst (transactors g ! i)) =
       (if close_result env i = None then [CloseFrame] else []))"
proof -
  let ?addrs = "concat (map (replicate (nat (Connections cfg))) (Endpoints cfg))"
  have "built env cfg ?addrs NewTransactorGroup (Some err) g"
    using assms unfolding AddAll_def by (rule add_endpoints_built)
  then obtain made todo g0 where d: "?addrs = made @ todo" "todo \<noteq> []"
      "grows env cfg made NewTransactorGroup g0" "g = g_close (close_result env) g0"
    by (auto simp: built_def fails_after_def)
  then have len: "length (transactors g0) = length made"
    and mk: "\<forall>k < length made. made_for env cfg (5 * second) (made ! k) k (fst (transactors g0 ! k))"
    by (auto simp: grows_def NewTransactorGroup_def)
  have gl: "length (transactors g) = length made" by (simp add: d(4) g_close_def len)
  have "length made < length ?addrs" unfolding d(1) using d(2) by simp
  moreover have "frames (fst (transactors g ! i)) =
      (if close_result env i = None then [CloseFrame] else [])" if "i < length made" for i
  proof -
    have "frames (fst (transactors g0 ! i)) = []"
      using mk that by (auto simp: made_for_def SetProgressCallback_def)
    then show ?thesis
      using that len by (auto simp: d(4) g_close_def t_close_def split: option.splits prod.splits)
  qed
  ultimately show ?thesis by (simp add: gl length_concat_replicate)
qed

text \<open>A concrete construction: two endpoints, two connections each; the last dial may be refused.\<close>

definition demo_factory :: "unit client_factory" where
  "demo_factory = \<lparr>ValidateConfig = (\<lambda>_. None), NewClient = (\<lambda>_ w. Some (Inr (constant_client ''tx''), w))\<rparr>"

definition demo_env :: "nat \<Rightarrow> group_env" where
  "demo_env accepted =
     \<lparr>url_Parse = (\<lambda>a. Inr (''ws'', a)),
      dials = (\<lambda>i. if i < accepted then Inr (101, ''ok'') else Inl ''refused''), close_result = (\<lambda>_. None)\<rparr>"

definition demo_cfg :: config where
  "demo_cfg = (flag_defaults ''demo'')\<lparr>Endpoints := [''a'', ''b''], Connections := 2, Count := 10\<rparr>"

lemmas demo_simps = AddAll_def g_Add_def NewTransactor_def NewTransactorGroup_def demo_env_def
  demo_cfg_def demo_factory_def flag_defaults_def eval_nat_numeral

theorem add_all_makes_every_connection_witness:
  "\<exists>g. AddAll [(''demo'', demo_factory)] (demo_env 4) demo_cfg ((), NewTransactorGroup) =
       Some (None, (), g) \<and> length (transactors g) = 4"
proof -
  have "\<exists>g. AddAll [(''demo'', demo_factory)] (demo_env 4) demo_cfg ((), NewTransactorGroup) =
      Some (None, (), g)"
    by (simp add: demo_simps)
  then obtain g where g: "AddAll [(''demo'', demo_factory)] (demo_env 4) demo_cfg
      ((), NewTransactorGroup) = Some (None, (), g)" by blast
  with add_all_makes_every_connection [OF g] show ?thesis
    by (auto simp: demo_cfg_def flag_defaults_def)
qed

theorem add_all_failure_closes_all_witness:
  "\<exists>g. AddAll [(''demo'', demo_factory)] (demo_env 3) demo_cfg ((), NewTransactorGroup) =
       Some (Some ''refused'', (), g) \<and> length (transactors g) < 4"
proof -
  have "\<exists>g. AddAll [(''demo'', demo_factory)] (demo_env 3) demo_cfg ((), NewTransactorGroup) =
      Some (Some ''refused'', (), g)"
    by (simp add: demo_simps)
  then obtain g where g: "AddAll [(''demo'', demo_factory)] (demo_env 3) demo_cfg
      ((), NewTransactorGroup) = Some (Some ''refused'', (), g)" by blast
  with add_all_failure_closes_all [OF g] show ?thesis
    by (auto simp: demo_cfg_def flag_defaults_def)
qed

subsection \<open>Totals after waiting\<close>

lemma sendTransactions_ids:
  "sendTransactions cl io w t = Some (err, w', t') \<Longrightarrow> progressCallbackID t' = progressCallbackID t"
  by (auto simp: sendTransactions_def Let_def trackSentTxs_def trackStartTime_def
      split: option.splits if_splits)

lemma select_tick_ids:
  assumes "select_tick cl tk w t = Some (w', t', rs)"
  shows "progressCallbackID t' = progressCallbackID t"
    and "rs = [] \<or> t' = t \<and> rs = [(progressCallbackID t, txCount t, txBytes t)]"
  using assms
  by (cases "(cl, tk, w, t)" rule: select_tick.cases;
      auto simp: setStop_def sendPing_def t_reportProgress_def dest: sendTransactions_ids
        split: option.splits if_splits)+

lemma progressCallbackID_fields [simp]:
  "progressCallbackID (setStop e t) = progressCallbackID t"
  "progressCallbackID (Cancel t) = progressCallbackID t"
  "progressCallbackID (t_close r t) = progressCallbackID t"
  "progressCallbackID (count_check t) = progressCallbackID t"
  by (simp_all add: setStop_def Cancel_def t_close_def count_check_def split: option.splits)

text \<open>A step of a member: its index stays, and it reports its own current counts or nothing.\<close>

lemma send_step_reports:
  assumes "send_step cl s s'" and "reports s' = reports s @ rs"
  shows "progressCallbackID (tr s') = progressCallbackID (tr s)"
    and "rs = [] \<or> pc s = Selecting \<and> tr s' = tr s \<and>
      rs = [(progressCallbackID (tr s), txCount (tr s), txBytes (tr s))]"
proof -
  have "progressCallbackID (tr s') = progressCallbackID (tr s) \<and>
      (rs = [] \<or> pc s = Selecting \<and> tr s' = tr s \<and>
        rs = [(progressCallbackID (tr s), txCount (tr s), txBytes (tr s))])"
    using assms(1)
  proof (cases rule: send_step.cases)
    case (selected tk w' t' rs')
    with assms(2) have "rs' = rs" and "tr s' = t'" by simp_all
    with select_tick_ids [OF selected(3)] selected(2) show ?thesis by auto
  qed (use assms(2) in simp_all)
  then show "progressCallbackID (tr s') = progressCallbackID (tr s)"
    and "rs = [] \<or> pc s = Selecting \<and> tr s' = tr s \<and>
      rs = [(progressCallbackID (tr s), txCount (tr s), txBytes (tr s))]"
    by blast+
qed

lemma send_step_after_return:
  assumes "send_step cl s s'" and "pc s = Returned"
  shows "pc s' = Returned" and "txCount (tr s') = txCount (tr s)"
    and "txBytes (tr s') = txBytes (tr s)" and "reports s' = reports s"
  using assms by (cases rule: send_step.cases; simp)+

lemma trackTransactorProgress_fields [simp]:
  "txCounts (trackTransactorProgress (n, c, b) g) = gset n c (txCounts g)"
  "g_txBytes (trackTransactorProgress (n, c, b) g) = gset n b (g_txBytes g)"
  by (simp_all add: trackTransactorProgress_def)

lemma gkeys_gset: "set (gkeys (gset k v m)) = insert k (set (gkeys m))"
  by (simp add: dom_update)

text \<open>A statistics map of \<open>n\<close> members whose entries agree with \<open>f\<close> on the indices \<open>known\<close>.\<close>

definition stats_of :: "nat \<Rightarrow> nat set \<Rightarrow> (nat \<Rightarrow> int) \<Rightarrow> (int, int) gomap \<Rightarrow> bool" where
  "stats_of n known f m \<longleftrightarrow> gwf m \<and> set (gkeys m) \<subseteq> int ` {..<n} \<and>
     (\<forall>i \<in> known. gget m (int i) = Some (f i))"

lemma stats_of_put_other:
  "stats_of n known f m \<Longrightarrow> i < n \<Longrightarrow> i \<notin> known \<Longrightarrow> stats_of n known f (gset (int i) v m)"
  unfolding stats_of_def gkeys_gset by (auto simp: gomap_simps)

lemma stats_of_put_known:
  "stats_of n known f m \<Longrightarrow> i < n \<Longrightarrow> stats_of n (insert i known) f (gset (int i) (f i) m)"
  unfolding stats_of_def gkeys_gset by (auto simp: gomap_simps)

lemma stats_of_cong:
  "stats_of n known f m \<Longrightarrow> (\<And>i. i \<in> known \<Longrightarrow> f i = f' i) \<Longrightarrow> stats_of n known f' m"
  by (simp add: stats_of_def)

lemma stats_of_total:
  assumes "stats_of n {..<n} f m"
  shows "go_sum (gvals m) = go_sum (map f [0..<n])"
proof -
  have d: "distinct (gkeys m)" and k: "set (gkeys m) \<subseteq> int ` {..<n}"
    and v: "i < n \<Longrightarrow> gget m (int i) = Some (f i)" for i
    using assms by (auto simp: stats_of_def gwf_def)
  have "set m = set (map (\<lambda>i. (int i, f i)) [0..<n])"
  proof (intro set_eqI iffI)
    fix p assume "p \<in> set m"
    then have "gget m (fst p) = Some (snd p)" and "fst p \<in> int ` {..<n}"
      using d k by (cases p; force)+
    with v show "p \<in> set (map (\<lambda>i. (int i, f i)) [0..<n])"
      by (cases p) auto
  next
    fix p assume "p \<in> set (map (\<lambda>i. (int i, f i)) [0..<n])"
    then obtain x where "x < n" "p = (int x, f x)" by auto
    with v [of x] show "p \<in> set m" by (simp add: map_of_SomeD)
  qed
  moreover have "distinct m" using d by (rule distinct_map [THEN iffD1, THEN conjunct1])
  moreover have "distinct (map (\<lambda>i. (int i, f i)) [0..<n])" by (simp add: distinct_map inj_on_def)
  ultimately have "mset m = mset (map (\<lambda>i. (int i, f i)) [0..<n])"
    using set_eq_iff_mset_eq_distinct by blast
  then have "mset (gvals m) = mset (map snd (map (\<lambda>i. (int i, f i)) [0..<n]))"
    by (metis mset_map)
  then have "mset (gvals m) = mset (map f [0..<n])" by (simp add: comp_def)
  then show ?thesis by (rule go_sum_perm)
qed

definition member_count :: "'w group_run \<Rightarrow> nat \<Rightarrow> int" where
  "member_count s i = txCount (tr (members s ! i))"

definition member_bytes :: "'w group_run \<Rightarrow> nat \<Rightarrow> int" where
  "member_bytes s i = txBytes (tr (members s ! i))"

text \<open>The invariant of a running group of \<open>n\<close> members.\<close>

definition group_ok :: "nat \<Rightarrow> 'w group_run \<Rightarrow> bool" where
  "group_ok n s \<longleftrightarrow> length (members s) = n \<and>
     (\<forall>i < n. progressCallbackID (tr (members s ! i)) = int i) \<and>
     set (tracked s) \<subseteq> set (sent_err s) \<and>
     (\<forall>i \<in> set (sent_err s). i < n \<and> pc (members s ! i) = Returned) \<and>
     stats_of n (set (tracked s)) (member_count s) (txCounts (grp s)) \<and>
     stats_of n (set (tracked s)) (member_bytes s) (g_txBytes (grp s))"

lemma group_ok_member:
  assumes ok: "group_ok n s" and i: "i < length (members s)"
    and st: "send_step (cls ! i) (members s ! i) m'" and rs: "reports m' = reports (members s ! i) @ rs"
  shows "group_ok n (s\<lparr>members := (members s)[i := m'], grp := fold trackTransactorProgress rs (grp s)\<rparr>)"
    (is "group_ok n ?s'")
proof -
  have n: "length (members s) = n" and tid: "progressCallbackID (tr (members s ! i)) = int i"
    using ok i by (auto simp: group_ok_def)
  note rep = send_step_reports [OF st rs]
  have same: "member_count ?s' j = member_count s j" "member_bytes ?s' j = member_bytes s j"
    "pc (members ?s' ! j) = Returned" if "j \<in> set (sent_err s)" for j
  proof -
    have j: "j < n" "pc (members s ! j) = Returned" using ok that by (auto simp: group_ok_def)
    show "member_count ?s' j = member_count s j" "member_bytes ?s' j = member_bytes s j"
      "pc (members ?s' ! j) = Returned"
      using j n send_step_after_return [OF st]
      by (cases "j = i"; simp add: member_count_def member_bytes_def)+
  qed
  have sub: "set (tracked s) \<subseteq> set (sent_err s)" using ok by (simp add: group_ok_def)
  have "stats_of n (set (tracked s)) (member_count s) (txCounts (grp s))"
    using ok by (simp add: group_ok_def)
  then have base1: "stats_of n (set (tracked s)) (member_count ?s') (txCounts (grp s))"
    by (rule stats_of_cong) (use same sub in auto)
  have "stats_of n (set (tracked s)) (member_bytes s) (g_txBytes (grp s))"
    using ok by (simp add: group_ok_def)
  then have base2: "stats_of n (set (tracked s)) (member_bytes ?s') (g_txBytes (grp s))"
    by (rule stats_of_cong) (use same sub in auto)
  note base = base1 base2
  have stats: "stats_of n (set (tracked s)) (member_count ?s') (txCounts (grp ?s')) \<and>
    stats_of n (set (tracked s)) (member_bytes ?s') (g_txBytes (grp ?s'))"
  proof (cases "rs = []")
    case True
    with base show ?thesis by simp
  next
    case False
    with rep(2) have sel: "pc (members s ! i) = Selecting"
      and r: "rs = [(int i, txCount (tr (members s ! i)), txBytes (tr (members s ! i)))]"
      by (auto simp: tid)
    have "i \<notin> set (tracked s)" using sel ok sub by (auto simp: group_ok_def)
    with base i n show ?thesis by (simp add: r stats_of_put_other)
  qed
  have ids: "progressCallbackID (tr (members ?s' ! j)) = int j" if "j < n" for j
    using ok that n rep(1) tid by (cases "j = i") (auto simp: group_ok_def)
  show ?thesis
    unfolding group_ok_def using n ids sub same(3) stats ok by (auto simp: group_ok_def)
qed

lemma group_step_ok:
  assumes "group_step cls s s'" and "group_ok n s"
  shows "group_ok n s'"
  using assms(1)
proof (cases rule: group_step.cases)
  case (member i m' rs)
  with assms(2) show ?thesis by (simp add: group_ok_member)
next
  case (send_result i)
  with assms(2) show ?thesis
    by (auto simp: group_ok_def member_count_def [abs_def] member_bytes_def [abs_def])
next
  case (track_final i)
  with assms(2) have "i < n" by (auto simp: group_ok_def)
  with assms(2) track_final show ?thesis
    using stats_of_put_known [of n "set (tracked s)" "member_count s" _ i]
      stats_of_put_known [of n "set (tracked s)" "member_bytes s" _ i]
    by (auto simp: group_ok_def member_count_def [abs_def] member_bytes_def [abs_def])
next
  case report
  with assms(2) show ?thesis
    by (simp add: group_ok_def member_count_def [abs_def] member_bytes_def [abs_def])
qed

interpretation group_inv: kept_by_relation "group_step cls" "group_ok n" for cls n
  by unfold_locales (rule group_step_ok)

lemma g_Start_ok:
  assumes "length ws = length (transactors g)" and "txCounts g = []" and "g_txBytes g = []"
    and "\<forall>i < length (transactors g). progressCallbackID (fst (transactors g ! i)) = int i"
  shows "group_ok (length (transactors g)) (g_Start now ws g)"
  using assms
  by (auto simp: group_ok_def g_Start_def stats_of_def gwf_def sendLoop_start_def split_beta)

lemma add_all_group:
  assumes "AddAll reg env cfg (w, NewTransactorGroup) = Some (None, w', g)"
  shows "txCounts g = [] \<and> g_txBytes g = [] \<and>
    (\<forall>i < length (transactors g). progressCallbackID (fst (transactors g ! i)) = int i \<and>
       t_config (fst (transactors g ! i)) = cfg \<and> txCount (fst (transactors g ! i)) = 0 \<and>
       stopErr (fst (transactors g ! i)) = None)"
proof -
  have "built env cfg (concat (map (replicate (nat (Connections cfg))) (Endpoints cfg)))
      NewTransactorGroup None g"
    using assms unfolding AddAll_def by (rule add_endpoints_built)
  then show ?thesis
    by (auto simp: built_def grows_def NewTransactorGroup_def made_for_def SetProgressCallback_def
        fresh_transactor_def)
qed

lemma started_ok:
  assumes "AddAll reg env cfg (w, NewTransactorGroup) = Some (None, w', g)"
    and "length ws = length (transactors g)" and "(group_step cls)\<^sup>*\<^sup>* (g_Start now ws g) s"
  shows "group_ok (length (transactors g)) s"
  using assms(3) by (rule group_inv.run_keeps)
    (use g_Start_ok [OF assms(2)] add_all_group [OF assms(1)] in blast)

lemma wait_totals:
  assumes ok: "group_ok n s" and "wait_done s"
  shows "totalTxs (grp s) = go_sum (map (\<lambda>m. txCount (tr m)) (members s))"
    and "totalBytes (grp s) = go_sum (map (\<lambda>m. txBytes (tr m)) (members s))"
    and "list_all (\<lambda>m. pc m = Returned) (members s)"
proof -
  from ok have n: "length (members s) = n" and sub: "set (tracked s) \<subseteq> {..<n}"
    by (auto simp: group_ok_def)
  with assms(2) have all: "set (tracked s) = {..<n}" by (auto simp: wait_done_def)
  have "go_sum (gvals (txCounts (grp s))) = go_sum (map (member_count s) [0..<n])"
    "go_sum (gvals (g_txBytes (grp s))) = go_sum (map (member_bytes s) [0..<n])"
    using ok unfolding group_ok_def all by (auto intro: stats_of_total)
  moreover have "map (member_count s) [0..<n] = map (\<lambda>m. txCount (tr m)) (members s)"
    "map (member_bytes s) [0..<n] = map (\<lambda>m. txBytes (tr m)) (members s)"
    using n by (auto simp: member_count_def member_bytes_def intro!: nth_equalityI)
  ultimately show "totalTxs (grp s) = go_sum (map (\<lambda>m. txCount (tr m)) (members s))"
    "totalBytes (grp s) = go_sum (map (\<lambda>m. txBytes (tr m)) (members s))"
    by (simp_all add: totalTxs_def totalBytes_def)
  show "list_all (\<lambda>m. pc m = Returned) (members s)"
    using ok all n by (auto simp: group_ok_def list_all_length)
qed

text \<open>C9: when \<open>Wait\<close> is done the group's totals are exact: for every interleaving of batches,
  progress callbacks, errors and cancellations, the total of transactions (of bytes) is the sum
  of what each transactor counted at its end, and no late callback spoils it.\<close>

theorem wait_totals_exact:
  assumes "AddAll reg env cfg (w, NewTransactorGroup) = Some (None, w', g)"
    and "length ws = length (transactors g)" and "(group_step cls)\<^sup>*\<^sup>* (g_Start now ws g) s"
    and "wait_done s"
  shows "totalTxs (grp s) = go_sum (map (\<lambda>m. txCount (tr m)) (members s)) \<and>
    totalBytes (grp s) = go_sum (map (\<lambda>m. txBytes (tr m)) (members s))"
  using wait_totals [OF started_ok [OF assms(1-3)] assms(4)] by blast

subsection \<open>A concrete run of a group\<close>

lemma send_step_extends: "send_step cl s s' \<Longrightarrow> \<exists>rs. reports s' = reports s @ rs"
  by (cases rule: send_step.cases) auto

lemma member_run:
  assumes "(send_step (cls ! i))\<^sup>*\<^sup>* m m'" and "i < length (members s)" and "members s ! i = m"
  shows "\<exists>g'. (group_step cls)\<^sup>*\<^sup>* s (s\<lparr>members := (members s)[i := m'], grp := g'\<rparr>)"
  using assms(1)
proof (induction rule: rtranclp_induct)
  case base
  have "s = s\<lparr>members := (members s)[i := m], grp := grp s\<rparr>"
    using assms(3) [symmetric] by (cases s) simp
  then show ?case by (metis rtranclp.rtrancl_refl)
next
  case (step y z)
  then obtain g' where g': "(group_step cls)\<^sup>*\<^sup>* s (s\<lparr>members := (members s)[i := y], grp := g'\<rparr>)"
    by blast
  let ?s = "s\<lparr>members := (members s)[i := y], grp := g'\<rparr>"
  obtain rs where "reports z = reports y @ rs" using send_step_extends [OF step.hyps(2)] by blast
  then have "group_step cls ?s (?s\<lparr>members := (members ?s)[i := z],
      grp := fold trackTransactorProgress rs (grp ?s)\<rparr>)"
    using assms(2) step.hyps(2) by (intro group_step.member) simp_all
  with g' show ?case by (auto intro: rtranclp.rtrancl_into_rtrancl)
qed

text \<open>From the top of its loop a member can reach its end by the time limit alone.\<close>

lemma time_limit_run:
  assumes "pc m = LoopTop"
  shows "\<exists>m'. (send_step cl)\<^sup>*\<^sup>* m m' \<and> pc m' = Returned \<and> txCount (tr m') = txCount (tr m) \<and>
    stopErr (tr m') = stopErr (tr m)"
proof -
  let ?m1 = "m\<lparr>tr := count_check (tr m), pc := Selecting\<rparr>"
  let ?m2 = "?m1\<lparr>tr := setStop None (tr ?m1), world := world ?m1, pc := Checking,
    reports := reports ?m1 @ []\<rparr>"
  let ?m3 = "?m2\<lparr>tr := t_close None (tr ?m2), pc := Returned\<rparr>"
  have "send_step cl m ?m1" using assms by (rule send_step.at_top)
  moreover have "send_step cl ?m1 ?m2"
    by (rule send_step.selected [where tk = TimeLimitTick]) simp_all
  moreover have "send_step cl ?m2 ?m3" by (rule send_step.leave) (simp_all add: mustStop_def)
  ultimately have "(send_step cl)\<^sup>*\<^sup>* m ?m3" by (meson r_into_rtranclp rtranclp_trans)
  moreover have "pc ?m3 = Returned" and "txCount (tr ?m3) = txCount (tr m)"
    and "stopErr (tr ?m3) = stopErr (tr m)" by (simp_all add: count_check_def setStop_def t_close_def)
  ultimately show ?thesis by blast
qed

text \<open>A group of one member that runs until its time limit and is waited for.\<close>

definition solo_cfg :: config where
  "solo_cfg = (flag_defaults ''demo'')\<lparr>Endpoints := [''a''], Count := 10, Rate := 5\<rparr>"

definition solo_group :: "unit group" where
  "solo_group = NewTransactorGroup\<lparr>transactors :=
     [(SetProgressCallback 0 2500000000 True (fresh_transactor ''a'' solo_cfg), constant_client ''tx'')]\<rparr>"

lemma solo_add_all:
  "AddAll [(''demo'', demo_factory)] (demo_env 1) solo_cfg ((), NewTransactorGroup) =
     Some (None, (), solo_group)"
  by (simp add: demo_simps solo_cfg_def solo_group_def signed_divide_int_def)

abbreviation solo_start :: "duration \<Rightarrow> bool \<Rightarrow> unit group_run" where
  "solo_start i cb \<equiv> g_Start 0 [()] (g_SetProgressCallback i cb solo_group)"

lemma solo_same: "g_SetProgressCallback (5 * second) False solo_group = solo_group"
  by (simp add: g_SetProgressCallback_def solo_group_def NewTransactorGroup_def)

lemma solo_top: "pc (members (solo_start i cb) ! 0) = LoopTop"
  by (simp add: g_Start_def solo_group_def NewTransactorGroup_def sendLoop_start_def solo_cfg_def
      flag_defaults_def connPingPeriod_def seconds_duration_pos SetProgressCallback_def
      g_SetProgressCallback_def)

lemma solo_length: "length (members (solo_start i cb)) = 1"
  by (simp add: g_Start_def solo_group_def NewTransactorGroup_def g_SetProgressCallback_def)

text \<open>A group of one that is at the top of its loop can run to its end and be waited for.\<close>

lemma one_member_run:
  assumes "pc (members s0 ! 0) = LoopTop" and "length (members s0) = 1" and "sent_err s0 = []"
    and "tracked s0 = []" and "errc s0 = []" and "stopErr (tr (members s0 ! 0)) = None"
  shows "\<exists>s. (group_step cls)\<^sup>*\<^sup>* s0 s \<and> wait_done s \<and> length (members s) = 1 \<and>
     txCount (tr (members s ! 0)) = txCount (tr (members s0 ! 0)) \<and> g_Wait s = None"
proof -
  obtain m' where m': "(send_step (cls ! 0))\<^sup>*\<^sup>* (members s0 ! 0) m'" "pc m' = Returned"
      "txCount (tr m') = txCount (tr (members s0 ! 0))" "stopErr (tr m') = stopErr (tr (members s0 ! 0))"
    using time_limit_run [OF assms(1)] by blast
  obtain g' where g': "(group_step cls)\<^sup>*\<^sup>* s0 (s0\<lparr>members := (members s0)[0 := m'], grp := g'\<rparr>)"
    using member_run [OF m'(1) _ refl] assms(2) by (metis less_one)
  let ?s1 = "s0\<lparr>members := (members s0)[0 := m'], grp := g'\<rparr>"
  let ?s2 = "?s1\<lparr>errc := errc ?s1 @ [t_Wait (tr (members ?s1 ! 0))], sent_err := 0 # sent_err ?s1\<rparr>"
  let ?s3 = "?s2\<lparr>tracked := 0 # tracked ?s2, grp := trackTransactorProgress
    (int 0, txCount (tr (members ?s2 ! 0)), txBytes (tr (members ?s2 ! 0))) (grp ?s2)\<rparr>"
  have "group_step cls ?s1 ?s2"
    by (rule group_step.send_result) (simp_all add: assms m'(2))
  moreover have "group_step cls ?s2 ?s3"
    by (rule group_step.track_final) (simp_all add: assms)
  ultimately have "(group_step cls)\<^sup>*\<^sup>* s0 ?s3" using g' by (meson rtranclp.rtrancl_into_rtrancl)
  moreover have "wait_done ?s3" and "length (members ?s3) = 1"
    and "txCount (tr (members ?s3 ! 0)) = txCount (tr (members s0 ! 0))" and "g_Wait ?s3 = None"
    using m' assms by (simp_all add: wait_done_def g_Wait_def t_Wait_def)
  ultimately show ?thesis by blast
qed

lemma solo_run:
  "\<exists>s. (group_step cls)\<^sup>*\<^sup>* (solo_start i cb) s \<and> wait_done s \<and> length (members s) = 1 \<and>
     txCount (tr (members s ! 0)) = 0 \<and> g_Wait s = None"
proof -
  have "txCount (tr (members (solo_start i cb) ! 0)) = 0" "stopErr (tr (members (solo_start i cb) ! 0)) = None"
    by (simp_all add: g_Start_def solo_group_def NewTransactorGroup_def sendLoop_start_def
        SetProgressCallback_def g_SetProgressCallback_def)
  with one_member_run [OF solo_top [of i cb] solo_length [of i cb], of cls] show ?thesis
    by (simp add: g_Start_def)
qed

theorem wait_totals_exact_witness:
  "\<exists>s. (group_step [constant_client ''tx''])\<^sup>*\<^sup>* (g_Start 0 [()] solo_group) s \<and> wait_done s \<and>
     totalTxs (grp s) = 0"
proof -
  obtain s where s: "(group_step [constant_client ''tx''])\<^sup>*\<^sup>* (g_Start 0 [()] solo_group) s" "wait_done s"
      "length (members s) = 1" "txCount (tr (members s ! 0)) = 0"
    using solo_run [of _ "5 * second" False] unfolding solo_same by blast
  have "length [()] = length (transactors solo_group)"
    by (simp add: solo_group_def NewTransactorGroup_def)
  from wait_totals_exact [OF solo_add_all this s(1,2)] s show ?thesis
    by (intro exI [of _ s]) (cases "members s"; simp)
qed

subsection \<open>Errors and limits of a group\<close>

lemma first_error_None: "first_error es = None \<longleftrightarrow> (\<forall>e \<in> set es. e = None)"
  by (induction es rule: first_error.induct) auto

lemma first_error_Some: "first_error es = Some e \<Longrightarrow> Some e \<in> set es"
  by (induction es rule: first_error.induct) auto

text \<open>Member \<open>i\<close> has an error, and if its result was sent then the error is in the channel.\<close>

definition error_pending :: "nat \<Rightarrow> 'w group_run \<Rightarrow> bool" where
  "error_pending i s \<longleftrightarrow> i < length (members s) \<and> has_error (members s ! i) \<and>
     (i \<in> set (sent_err s) \<longrightarrow> first_error (errc s) \<noteq> None) \<and>
     set (tracked s) \<subseteq> set (sent_err s)"

lemma group_step_error_pending:
  assumes "group_step cls s s'" and "error_pending i s"
  shows "error_pending i s'"
  using assms(1)
proof (cases rule: group_step.cases)
  case (member j m' rs)
  with assms(2) send_step_has_error [OF member(3)] show ?thesis
    by (cases "j = i") (auto simp: error_pending_def)
qed (use assms(2) in \<open>auto simp: error_pending_def first_error_None has_error_def t_Wait_def\<close>)

interpretation group_error: kept_by_relation "group_step cls" "error_pending i" for cls i
  by unfold_locales (rule group_step_error_pending)

text \<open>C20: an error of one transactor reaches the caller of \<open>Wait\<close>: if a member has stopped with an
  error before its result was collected, then whatever the other members do and whatever order
  the goroutines run in, \<open>Wait\<close> returns an error.\<close>

theorem member_error_reaches_wait:
  assumes "i < length (members s)" and "t_Wait (tr (members s ! i)) \<noteq> None"
    and "i \<notin> set (sent_err s)" and "set (tracked s) \<subseteq> set (sent_err s)"
    and "(group_step cls)\<^sup>*\<^sup>* s s'" and "wait_done s'"
  shows "g_Wait s' \<noteq> None"
proof -
  have "error_pending i s"
    using assms(1-4) by (simp add: error_pending_def has_error_def t_Wait_def)
  with assms(5) have "error_pending i s'" by (rule group_error.run_keeps)
  with assms(6) show ?thesis by (auto simp: error_pending_def wait_done_def g_Wait_def)
qed

definition failed_solo :: "unit group_run" where
  "failed_solo = (let s = g_Start 0 [()] solo_group in
     s\<lparr>members := [(members s ! 0)\<lparr>tr := Cancel (tr (members s ! 0)), pc := Returned\<rparr>]\<rparr>)"

definition failed_solo_end :: "unit group_run" where
  "failed_solo_end = (let s = failed_solo\<lparr>errc := [t_Wait (tr (members failed_solo ! 0))], sent_err := [0]\<rparr> in
     s\<lparr>tracked := [0], grp := trackTransactorProgress
       (int 0, txCount (tr (members s ! 0)), txBytes (tr (members s ! 0))) (grp s)\<rparr>)"

theorem member_error_reaches_wait_witness:
  "g_Wait failed_solo_end \<noteq> None"
proof (rule member_error_reaches_wait [of 0 failed_solo "[constant_client ''tx'']"])
  show "0 < length (members failed_solo)" "t_Wait (tr (members failed_solo ! 0)) \<noteq> None"
    "0 \<notin> set (sent_err failed_solo)" "set (tracked failed_solo) \<subseteq> set (sent_err failed_solo)"
    "wait_done failed_solo_end"
    by (simp_all add: failed_solo_def failed_solo_end_def g_Start_def t_Wait_def wait_done_def Let_def)
  let ?s1 = "failed_solo\<lparr>errc := [t_Wait (tr (members failed_solo ! 0))], sent_err := [0]\<rparr>"
  have "group_step [constant_client ''tx''] failed_solo (failed_solo\<lparr>errc := errc failed_solo @
      [t_Wait (tr (members failed_solo ! 0))], sent_err := 0 # sent_err failed_solo\<rparr>)"
    by (rule group_step.send_result) (simp_all add: failed_solo_def g_Start_def Let_def)
  then have 1: "group_step [constant_client ''tx''] failed_solo ?s1"
    by (simp add: failed_solo_def g_Start_def Let_def)
  have "group_step [constant_client ''tx''] ?s1 (?s1\<lparr>tracked := 0 # tracked ?s1,
      grp := trackTransactorProgress (int 0, txCount (tr (members ?s1 ! 0)), txBytes (tr (members ?s1 ! 0)))
        (grp ?s1)\<rparr>)"
    by (rule group_step.track_final) (simp_all add: failed_solo_def g_Start_def Let_def)
  then have "group_step [constant_client ''tx''] ?s1 failed_solo_end"
    by (simp add: failed_solo_end_def failed_solo_def g_Start_def Let_def)
  with 1 show "(group_step [constant_client ''tx''])\<^sup>*\<^sup>* failed_solo failed_solo_end"
    by (meson converse_rtranclp_into_rtranclp r_into_rtranclp)
qed

text \<open>With a limit every stored count is within it.\<close>

definition group_limited :: "config \<Rightarrow> 'w group_run \<Rightarrow> bool" where
  "group_limited c s \<longleftrightarrow> limited c \<and> (\<forall>i < length (members s). count_ok c (members s ! i)) \<and>
     group_ok (length (members s)) s \<and> (\<forall>v \<in> set (gvals (txCounts (grp s))). 0 \<le> v \<and> v \<le> Count c)"

lemma group_step_limited:
  assumes "group_step cls s s'" and "group_limited c s"
  shows "group_limited c s'"
proof -
  have ok: "group_ok (length (members s)) s'"
    using assms by (auto simp: group_limited_def intro: group_step_ok)
  then have len: "length (members s') = length (members s)" by (simp add: group_ok_def)
  have lim: "limited c" and cs: "\<forall>i < length (members s). count_ok c (members s ! i)"
    and vs: "\<forall>v \<in> set (gvals (txCounts (grp s))). 0 \<le> v \<and> v \<le> Count c"
    and ok0: "group_ok (length (members s)) s"
    using assms(2) by (auto simp: group_limited_def)
  have put: "\<forall>v \<in> set (gvals (gset k (txCount (tr (members s ! i))) (txCounts (grp s)))). 0 \<le> v \<and> v \<le> Count c"
    if "i < length (members s)" for i k
    using that cs vs by (intro gvals_gset_all) (auto simp: count_ok_def)
  from assms(1) show ?thesis
  proof (cases rule: group_step.cases)
    case (member i m' rs)
    have "count_ok c m'" using send_step_count_ok [OF member(3) lim] cs member(2) by blast
    moreover have "\<forall>v \<in> set (gvals (txCounts (fold trackTransactorProgress rs (grp s)))). 0 \<le> v \<and> v \<le> Count c"
      using send_step_reports(2) [OF member(3,4)]
    proof (elim disjE conjE)
      assume "rs = []"
      with vs show ?thesis by simp
    next
      assume "rs = [(progressCallbackID (tr (members s ! i)), txCount (tr (members s ! i)),
        txBytes (tr (members s ! i)))]"
      then have "txCounts (fold trackTransactorProgress rs (grp s)) =
          gset (progressCallbackID (tr (members s ! i))) (txCount (tr (members s ! i))) (txCounts (grp s))"
        by simp
      then show ?thesis using put [OF member(2)] by metis
    qed
    moreover have "count_ok c ((members s)[i := m'] ! j)" if "j < length (members s)" for j
      using \<open>count_ok c m'\<close> cs that by (cases "j = i") simp_all
    ultimately show ?thesis
      using ok lim member(1) by (auto simp: group_limited_def)
  next
    case (track_final i)
    with ok0 have "i < length (members s)" by (auto simp: group_ok_def)
    then show ?thesis
      using put [of i] ok lim cs len track_final(1) by (auto simp: group_limited_def)
  qed (use ok lim cs vs in \<open>auto simp: group_limited_def\<close>)
qed

interpretation group_limit: kept_by_relation "group_step cls" "group_limited c" for cls c
  by unfold_locales (rule group_step_limited)

lemma sum_list_bounds:
  "\<forall>v \<in> set vs. 0 \<le> v \<and> v \<le> (b :: int) \<Longrightarrow> 0 \<le> sum_list vs \<and> sum_list vs \<le> int (length vs) * b"
  by (induction vs) (auto simp: algebra_simps)

lemma stats_of_length: "stats_of n known f m \<Longrightarrow> length m \<le> n"
proof -
  assume "stats_of n known f m"
  then have "card (set (gkeys m)) \<le> card (int ` {..<n})" and "distinct (gkeys m)"
    by (auto simp: stats_of_def gwf_def intro!: card_mono)
  then show "length m \<le> n" using distinct_card [of "gkeys m"] by (simp add: card_image)
qed



end
