(* ===== verification/Network_Info.thy ===== *)
theory Network_Info
  imports Load_Config Go_Float
begin

section \<open>Crawling the network (tm_network_info.go)\<close>

text \<open>
  Before a test that discovers its endpoints, the peers known so far are asked for their
  peers, in parallel, until enough are known.  A \<open>map[string]*peerInfo\<close> is a Go map of
  records; a peer's HTTP client is a function of its address and is left out.  What
  \<open>net_info\<close> answers, the order of the answers and the time are arguments, and so is the
  order in which \<open>range\<close> visits a map.
\<close>

record peerInfo =
  Addr :: string
  PeerAddrs :: "string list"
  SuccessfullyQueried :: bool

type_synonym peer_map = "(string, peerInfo) gomap"

definition unqueried :: "string \<Rightarrow> peerInfo" where
  "unqueried a = \<lparr>Addr = a, PeerAddrs = [], SuccessfullyQueried = False\<rparr>"

text \<open>\<open>http://%s:26657\<close>, the address a peer's RPC endpoint is assumed to have.\<close>

definition rpc_addr :: "string \<Rightarrow> string" where
  "rpc_addr ip = ''http://'' @ ip @ '':26657''"

subsection \<open>resolvePeerMap\<close>

fun add_listed :: "string list \<Rightarrow> peer_map \<Rightarrow> peer_map" where
  "add_listed [] result = result"
| "add_listed (a # as) result =
     add_listed as (if ghas result a then result else gset a (unqueried a) result)"

fun resolve_loop :: "(string \<times> peerInfo) list \<Rightarrow> peer_map \<Rightarrow> peer_map" where
  "resolve_loop [] result = result"
| "resolve_loop ((addr, peer) # es) result =
     resolve_loop es (add_listed (PeerAddrs peer) (gset addr peer result))"

definition resolvePeerMap :: "(string \<times> peerInfo) list \<Rightarrow> peer_map" where
  "resolvePeerMap es = resolve_loop es []"

subsection \<open>getNetworkPeers\<close>

text \<open>The answer of a peer to \<open>net_info\<close>: an error, or the IP addresses of its peers.\<close>

type_synonym net_info = "string \<Rightarrow> string + string list"

datatype poll_event = CancelSignal | PeerAnswer peerInfo | PeerError string | PollTimeout

text \<open>What the goroutine that queries a peer sends.\<close>

definition query_peer :: "net_info \<Rightarrow> peerInfo \<Rightarrow> poll_event" where
  "query_peer netInfo p =
     (case netInfo (Addr p) of
        Inl err \<Rightarrow> PeerError err
      | Inr ips \<Rightarrow> PeerAnswer \<lparr>Addr = Addr p, PeerAddrs = map rpc_addr ips, SuccessfullyQueried = True\<rparr>)"

text \<open>
  The loop: at each pass the time elapsed and the case the \<open>select\<close> takes.  \<open>None\<close>: no
  event has ended it yet.  The second argument is the number of answers expected.
\<close>

fun poll_loop ::
    "duration \<Rightarrow> nat \<Rightarrow> (duration \<times> poll_event) list \<Rightarrow> nat \<Rightarrow> peer_map \<Rightarrow> (string + peer_map) option" where
  "poll_loop timeout expected [] received result = None"
| "poll_loop timeout expected ((elapsed, ev) # evs) received result =
     (if timeout - elapsed < 0
      then Some (Inl ''timed out waiting for all peer network info to be returned'')
      else (case ev of
          CancelSignal \<Rightarrow> Some (Inl ''cancel signal received'')
        | PollTimeout \<Rightarrow> Some (Inl ''timed out while waiting for all peer network info to be returned'')
        | PeerAnswer p \<Rightarrow>
            (let result' = gset (Addr p) p result
             in if received + 1 \<ge> expected then Some (Inr result')
                else poll_loop timeout expected evs (received + 1) result')
        | PeerError _ \<Rightarrow>
            if received + 1 \<ge> expected then Some (Inr result)
            else poll_loop timeout expected evs (received + 1) result))"

text \<open>The flag of every known peer is reset first, in the caller's map.\<close>

definition reset_queried :: "peer_map \<Rightarrow> peer_map" where
  "reset_queried peers = map (\<lambda>(a, p). (a, p\<lparr>SuccessfullyQueried := False\<rparr>)) peers"

definition getNetworkPeers ::
    "(peer_map \<Rightarrow> (string \<times> peerInfo) list) \<Rightarrow> peer_map \<Rightarrow> duration \<Rightarrow> (duration \<times> poll_event) list \<Rightarrow>
     ((string + peer_map) \<times> peer_map) option" where
  "getNetworkPeers order peers timeout evs =
     (case poll_loop timeout (length peers) evs 0 [] of
        None \<Rightarrow> None
      | Some (Inl err) \<Rightarrow> Some (Inl err, reset_queried peers)
      | Some (Inr result) \<Rightarrow> Some (Inr (resolvePeerMap (order result)), reset_queried peers))"

subsection \<open>Connectivity and selection\<close>

fun min_connectivity_loop :: "(string \<times> peerInfo) list \<Rightarrow> int \<Rightarrow> int" where
  "min_connectivity_loop [] minPeers = minPeers"
| "min_connectivity_loop ((a, p) # es) minPeers =
     (if \<not> SuccessfullyQueried p then min_connectivity_loop es minPeers
      else (let peerCount = int (length (PeerAddrs p))
            in min_connectivity_loop es
                 (if peerCount > 0 \<and> peerCount < minPeers then peerCount else minPeers)))"

definition getMinPeerConnectivity :: "(string \<times> peerInfo) list \<Rightarrow> int" where
  "getMinPeerConnectivity es = min_connectivity_loop es (int (length es))"

text \<open>The host name \<open>url.Parse\<close> finds in an address, or its error.\<close>

type_synonym hostname_parser = "string \<Rightarrow> string + string"

definition ws_addr :: "string \<Rightarrow> string" where
  "ws_addr host = ''ws://'' @ host @ '':26657/websocket''"

fun filter_loop ::
    "hostname_parser \<Rightarrow> peer_map \<Rightarrow> string \<Rightarrow> int \<Rightarrow> (string \<times> peerInfo) list \<Rightarrow> string list \<Rightarrow>
     string + string list" where
  "filter_loop parse suppliedPeers selectionMethod maxCount [] result = Inr result"
| "filter_loop parse suppliedPeers selectionMethod maxCount ((peerAddr, p) # es) result =
     (case parse peerAddr of
        Inl err \<Rightarrow> Inl err
      | Inr host \<Rightarrow>
        (let addr = ws_addr host;
             result' =
               (if selectionMethod = SelectSuppliedEndpoints then
                  (if ghas suppliedPeers peerAddr then result @ [addr] else result)
                else if selectionMethod = SelectDiscoveredEndpoints then
                  (if \<not> ghas suppliedPeers peerAddr then result @ [addr] else result)
                else result @ [addr])
         in if maxCount > 0 \<and> int (length result') \<ge> maxCount then Inr result'
            else filter_loop parse suppliedPeers selectionMethod maxCount es result'))"

definition filterPeerMap ::
    "hostname_parser \<Rightarrow> peer_map \<Rightarrow> (string \<times> peerInfo) list \<Rightarrow> string \<Rightarrow> int \<Rightarrow> string + string list" where
  "filterPeerMap parse suppliedPeers es selectionMethod maxCount =
     filter_loop parse suppliedPeers selectionMethod maxCount es []"

subsection \<open>waitForNetworkPeers\<close>

text \<open>
  \<open>net.LookupIP\<close> answers an error or the records of a host; the text of a record is present
  when it has an IPv4 form (\<open>To4\<close>).
\<close>

type_synonym ip_lookup = "string \<Rightarrow> string + string option list"

fun first_ipv4 :: "string option list \<Rightarrow> string option" where
  "first_ipv4 [] = None"
| "first_ipv4 (Some ip # rs) = Some ip"
| "first_ipv4 (None # rs) = first_ipv4 rs"

definition lookupFirstIPv4Addr :: "ip_lookup \<Rightarrow> string \<Rightarrow> string + string" where
  "lookupFirstIPv4Addr lookupIP hostname =
     (case lookupIP hostname of
        Inl err \<Rightarrow> Inl err
      | Inr ipRecords \<Rightarrow>
        (case first_ipv4 ipRecords of
           Some ip \<Rightarrow> Inr ip
         | None \<Rightarrow> Inl (''no IPv4 records for hostname: '' @ hostname)))"

fun supplied_loop :: "hostname_parser \<Rightarrow> ip_lookup \<Rightarrow> string list \<Rightarrow> peer_map \<Rightarrow> string + peer_map" where
  "supplied_loop parse lookupIP [] supplied = Inr supplied"
| "supplied_loop parse lookupIP (peerURL # urls) supplied =
     (case parse peerURL of
        Inl err \<Rightarrow> Inl (''failed to parse peer URL '' @ peerURL @ '': '' @ err)
      | Inr host \<Rightarrow>
        (case lookupFirstIPv4Addr lookupIP host of
           Inl err \<Rightarrow> Inl (''failed to resolve IP address for endpoint '' @ peerURL @ '': '' @ err)
         | Inr ip \<Rightarrow> supplied_loop parse lookupIP urls (gset (rpc_addr ip) (unqueried (rpc_addr ip)) supplied)))"

text \<open>
  One pass of the main loop: the time elapsed at its start, the events of its crawl.
\<close>

record crawl_round =
  round_elapsed :: duration
  round_events :: "(duration \<times> poll_event) list"

record crawl_env =
  host_of :: hostname_parser
  range_order :: "peer_map \<Rightarrow> (string \<times> peerInfo) list"

fun wait_loop ::
    "crawl_env \<Rightarrow> string \<Rightarrow> int \<Rightarrow> int \<Rightarrow> int \<Rightarrow> duration \<Rightarrow> peer_map \<Rightarrow> crawl_round list \<Rightarrow> peer_map \<Rightarrow>
     (string + string list) option" where
  "wait_loop env selectionMethod minDiscovered minConnectivity maxReturned timeout supplied [] peers = None"
| "wait_loop env selectionMethod minDiscovered minConnectivity maxReturned timeout supplied (r # rs) peers =
     (let remainingTimeout = timeout - round_elapsed r in
      if remainingTimeout < 0
      then Some (Inl ''timed out waiting for Tendermint peer crawl to complete'')
      else (case getNetworkPeers (range_order env) peers remainingTimeout (round_events r) of
          None \<Rightarrow> None
        | Some (Inl err, _) \<Rightarrow> Some (Inl err)
        | Some (Inr newPeers, peers1) \<Rightarrow>
          (let peers' = (if length newPeers > length peers1 then newPeers else peers1);
               peerCount = int (length peers');
               peerConnectivity = getMinPeerConnectivity (range_order env peers')
           in if peerCount \<ge> minDiscovered \<and> peerConnectivity \<ge> minConnectivity
              then Some (filterPeerMap (host_of env) supplied (range_order env peers')
                     selectionMethod maxReturned)
              else wait_loop env selectionMethod minDiscovered minConnectivity maxReturned timeout
                     supplied rs peers')))"

definition waitForNetworkPeers ::
    "crawl_env \<Rightarrow> ip_lookup \<Rightarrow> string list \<Rightarrow> string \<Rightarrow> int \<Rightarrow> int \<Rightarrow> int \<Rightarrow> duration \<Rightarrow> crawl_round list \<Rightarrow>
     (string + string list) option" where
  "waitForNetworkPeers env lookupIP startingPeerAddrs selectionMethod minDiscovered minConnectivity
     maxReturned timeout rounds =
     (case supplied_loop (host_of env) lookupIP startingPeerAddrs [] of
        Inl err \<Rightarrow> Some (Inl err)
      | Inr suppliedPeers \<Rightarrow>
        wait_loop env selectionMethod minDiscovered minConnectivity maxReturned timeout
          suppliedPeers rounds suppliedPeers)"

subsection \<open>One round finds exactly the peers and their peers\<close>

lemma add_listed_get:
  "gget (add_listed as r) a =
     (case gget r a of Some q \<Rightarrow> Some q | None \<Rightarrow> if a \<in> set as then Some (unqueried a) else None)"
  by (induction as arbitrary: r) (auto simp: ghas_def update_conv' split: option.splits)

lemma add_listed_wf: "gwf r \<Longrightarrow> gwf (add_listed as r)"
  by (induction as arbitrary: r) (simp_all add: gomap_simps)

lemma resolve_loop_wf: "gwf r \<Longrightarrow> gwf (resolve_loop es r)"
  by (induction es r rule: resolve_loop.induct) (simp_all add: gomap_simps add_listed_wf)

text \<open>The peers some entry lists.\<close>

definition listed :: "(string \<times> peerInfo) list \<Rightarrow> string \<Rightarrow> bool" where
  "listed es a \<longleftrightarrow> (\<exists>p \<in> set (gvals es). a \<in> set (PeerAddrs p))"

lemma resolve_loop_get:
  "distinct (gkeys es) \<Longrightarrow>
   gget (resolve_loop es r) a =
     (case gget es a of Some p \<Rightarrow> Some p | None \<Rightarrow>
        (case gget r a of Some q \<Rightarrow> Some q | None \<Rightarrow> if listed es a then Some (unqueried a) else None))"
proof (induction es r rule: resolve_loop.induct)
  case (1 result)
  then show ?case by (simp add: listed_def split: option.split)
next
  case (2 addr peer es result)
  from "2.prems" have d: "distinct (gkeys es)" and n: "gget es addr = None"
    by (auto simp: map_of_eq_None_iff)
  show ?case
    using "2.IH" [OF d] n
    by (auto simp: add_listed_get update_conv' listed_def split: option.splits)
qed

lemma resolvePeerMap_get:
  assumes "ranges_over es m" and "gwf m"
  shows "gget (resolvePeerMap es) a =
    (case gget m a of Some p \<Rightarrow> Some p | None \<Rightarrow> if listed m a then Some (unqueried a) else None)"
proof -
  have "listed es = listed m"
    using ranges_over_set [OF assms(1)] by (simp add: listed_def fun_eq_iff)
  then show ?thesis
    using resolve_loop_get [OF ranges_over_distinct [OF assms], of "[]" a] ranges_over_get [OF assms]
    by (simp add: resolvePeerMap_def split: option.split)
qed

text \<open>What a sequence of answers makes of the result map.\<close>

fun collect :: "poll_event list \<Rightarrow> peer_map \<Rightarrow> peer_map" where
  "collect [] m = m"
| "collect (PeerAnswer p # evs) m = collect evs (gset (Addr p) p m)"
| "collect (_ # evs) m = collect evs m"

definition answer :: "poll_event \<Rightarrow> bool" where
  "answer ev \<longleftrightarrow> (case ev of PeerAnswer _ \<Rightarrow> True | PeerError _ \<Rightarrow> True | _ \<Rightarrow> False)"

lemma poll_loop_answers:
  assumes "evs \<noteq> []" and "list_all answer (map snd evs)" and "list_all (\<lambda>e. e \<le> timeout) (map fst evs)"
    and "received + length evs = expected"
  shows "poll_loop timeout expected evs received m = Some (Inr (collect (map snd evs) m))"
  using assms
proof (induction evs arbitrary: received m)
  case Nil
  then show ?case by simp
next
  case (Cons e evs)
  obtain el ev where e: "e = (el, ev)" by (cases e)
  have IH: "evs \<noteq> [] \<Longrightarrow> poll_loop timeout expected evs (received + 1) m' = Some (Inr (collect (map snd evs) m'))"
    for m' using Cons.prems by (intro Cons.IH) auto
  show ?case
    using Cons.prems IH by (cases ev; cases evs) (auto simp: e answer_def Let_def)
qed

text \<open>The addresses that answered, when no two answers are for the same address.\<close>

fun answered :: "poll_event list \<Rightarrow> peer_map" where
  "answered [] = []"
| "answered (PeerAnswer p # evs) = (Addr p, p) # answered evs"
| "answered (_ # evs) = answered evs"

lemma answered_set: "(a, p) \<in> set (answered evs) \<longleftrightarrow> PeerAnswer p \<in> set evs \<and> Addr p = a"
  by (induction evs rule: answered.induct) auto

lemma mset_answered:
  "mset (answered evs) = image_mset (\<lambda>ev. case ev of PeerAnswer p \<Rightarrow> (Addr p, p) | _ \<Rightarrow> undefined)
     (filter_mset (\<lambda>ev. case ev of PeerAnswer _ \<Rightarrow> True | _ \<Rightarrow> False) (mset evs))"
  by (induction evs rule: answered.induct) simp_all

lemma collect_get:
  "distinct (gkeys (answered evs)) \<Longrightarrow>
   gget (collect evs m) a = (case gget (answered evs) a of Some p \<Rightarrow> Some p | None \<Rightarrow> gget m a)"
proof (induction evs m rule: collect.induct)
  case (2 p evs m)
  then have "gget (answered evs) (Addr p) = None" by (auto simp: map_of_eq_None_iff)
  with 2 show ?case by (auto simp: update_conv' split: option.split)
qed simp_all

lemma collect_wf: "gwf m \<Longrightarrow> gwf (collect evs m)"
  by (induction evs m rule: collect.induct) (simp_all add: gomap_simps)

text \<open>A map of peers keyed by their own addresses.\<close>

definition peers_ok :: "peer_map \<Rightarrow> bool" where
  "peers_ok m \<longleftrightarrow> gwf m \<and> (\<forall>(a, p) \<in> set m. Addr p = a)"

lemma answered_queries:
  assumes "peers_ok peers"
  shows "distinct (gkeys (answered (map (query_peer netInfo) (gvals peers))))"
    and "gget (answered (map (query_peer netInfo) (gvals peers))) a =
      (if ghas peers a then
         (case netInfo a of Inl _ \<Rightarrow> None
          | Inr ips \<Rightarrow> Some \<lparr>Addr = a, PeerAddrs = map rpc_addr ips, SuccessfullyQueried = True\<rparr>)
       else None)"
proof -
  have keys: "set (gkeys (answered (map (query_peer netInfo) (gvals ps)))) \<subseteq> set (gkeys ps)"
    if "\<forall>(a, p) \<in> set ps. Addr p = a" for ps
    using that by (induction ps) (auto simp: query_peer_def split: sum.splits)
  have *: "distinct (gkeys (answered (map (query_peer netInfo) (gvals ps)))) \<and>
    gget (answered (map (query_peer netInfo) (gvals ps))) a =
      (if gget ps a \<noteq> None then
         (case netInfo a of Inl _ \<Rightarrow> None
          | Inr ips \<Rightarrow> Some \<lparr>Addr = a, PeerAddrs = map rpc_addr ips, SuccessfullyQueried = True\<rparr>)
       else None)" if "distinct (gkeys ps)" and "\<forall>(a, p) \<in> set ps. Addr p = a" for ps
    using that
  proof (induction ps)
    case Nil
    then show ?case by simp
  next
    case (Cons q ps)
    obtain b p where q: "q = (b, p)" by (cases q)
    from Cons.prems have b: "b \<notin> set (gkeys ps)" "Addr p = b" "\<forall>(a, p) \<in> set ps. Addr p = a"
      by (auto simp: q)
    then have nb: "b \<notin> set (gkeys (answered (map (query_peer netInfo) (gvals ps))))"
      using keys by blast
    have none: "gget (answered (map (query_peer netInfo) (gvals ps))) b = None" "gget ps b = None"
      using nb b(1) by (simp_all add: map_of_eq_None_iff)
    have IH: "distinct (gkeys (answered (map (query_peer netInfo) (gvals ps))))"
      "gget (answered (map (query_peer netInfo) (gvals ps))) a =
        (if gget ps a \<noteq> None then
           (case netInfo a of Inl _ \<Rightarrow> None
            | Inr ips \<Rightarrow> Some \<lparr>Addr = a, PeerAddrs = map rpc_addr ips, SuccessfullyQueried = True\<rparr>)
         else None)"
      using Cons.IH Cons.prems b(3) by simp_all
    have "answered (map (query_peer netInfo) (gvals (q # ps))) =
      (case netInfo b of Inl _ \<Rightarrow> answered (map (query_peer netInfo) (gvals ps))
       | Inr ips \<Rightarrow> (b, \<lparr>Addr = b, PeerAddrs = map rpc_addr ips, SuccessfullyQueried = True\<rparr>) #
           answered (map (query_peer netInfo) (gvals ps)))"
      by (simp add: q query_peer_def b(2) split: sum.split)
    then show ?case
      using IH none nb by (cases "netInfo b"; cases "a = b") (simp_all add: q)
  qed
  from * [of peers] assms
  show "distinct (gkeys (answered (map (query_peer netInfo) (gvals peers))))"
    and "gget (answered (map (query_peer netInfo) (gvals peers))) a =
      (if ghas peers a then
         (case netInfo a of Inl _ \<Rightarrow> None
          | Inr ips \<Rightarrow> Some \<lparr>Addr = a, PeerAddrs = map rpc_addr ips, SuccessfullyQueried = True\<rparr>)
       else None)"
    by (simp_all add: peers_ok_def gwf_def ghas_def)
qed

lemma answer_query [simp]: "answer (query_peer netInfo p)"
  by (simp add: query_peer_def answer_def split: sum.split)

text \<open>The specification of one round: what a crawl of \<open>peers\<close> should know about an address.\<close>

definition round_spec :: "net_info \<Rightarrow> peer_map \<Rightarrow> string \<Rightarrow> peerInfo option" where
  "round_spec netInfo peers a =
     (case (if ghas peers a then netInfo a else Inl []) of
        Inr ips \<Rightarrow> Some \<lparr>Addr = a, PeerAddrs = map rpc_addr ips, SuccessfullyQueried = True\<rparr>
      | Inl _ \<Rightarrow>
        if \<exists>b ips. ghas peers b \<and> netInfo b = Inr ips \<and> a \<in> rpc_addr ` set ips
        then Some (unqueried a) else None)"

lemma getNetworkPeers_spec:
  assumes "peers_ok peers" and "peers \<noteq> []"
    and "mset (map snd evs) = mset (map (query_peer netInfo) (gvals peers))"
    and "list_all (\<lambda>e. e \<le> timeout) (map fst evs)" and "\<And>m. ranges_over (order m) m"
  shows "\<exists>newPeers. getNetworkPeers order peers timeout evs = Some (Inr newPeers, reset_queried peers) \<and>
    gwf newPeers \<and> (\<forall>a. gget newPeers a = round_spec netInfo peers a)"
proof -
  let ?qs = "map (query_peer netInfo) (gvals peers)" and ?m = "collect (map snd evs) []"
  have set: "set (map snd evs) = set ?qs" using assms(3) by (rule mset_eq_setD)
  have len: "length evs = length peers" using mset_eq_length [OF assms(3)] by simp
  have "list_all answer (map snd evs)" using set by (simp add: list_all_iff)
  with assms(2,4) len have poll: "poll_loop timeout (length peers) evs 0 [] = Some (Inr ?m)"
    by (intro poll_loop_answers) auto
  have perm: "mset (answered (map snd evs)) = mset (answered ?qs)"
    using assms(3) by (simp add: mset_answered)
  have d: "distinct (gkeys (answered ?qs))" using assms(1) by (rule answered_queries)
  then have d': "distinct (gkeys (answered (map snd evs)))"
    using ranges_over_distinct perm unfolding ranges_over_def gwf_def by blast
  have "gget (answered (map snd evs)) = gget (answered ?qs)"
    using perm d by (intro ranges_over_get) (simp_all add: ranges_over_def gwf_def)
  then have "gget ?m a = gget (answered ?qs) a" for a
    using collect_get [OF d', of "[]" a] by (simp split: option.split)
  then have get: "gget ?m a = (if ghas peers a then
       (case netInfo a of Inl _ \<Rightarrow> None
        | Inr ips \<Rightarrow> Some \<lparr>Addr = a, PeerAddrs = map rpc_addr ips, SuccessfullyQueried = True\<rparr>)
     else None)" for a
    by (simp only: answered_queries(2) [OF assms(1)])
  have wf: "gwf ?m" by (rule collect_wf) (simp add: gomap_simps)
  have list: "listed ?m a \<longleftrightarrow> (\<exists>b ips. ghas peers b \<and> netInfo b = Inr ips \<and> a \<in> rpc_addr ` set ips)" for a
  proof -
    have some: "gget ?m b = Some p \<longleftrightarrow> ghas peers b \<and> (\<exists>ips. netInfo b = Inr ips \<and>
        p = \<lparr>Addr = b, PeerAddrs = map rpc_addr ips, SuccessfullyQueried = True\<rparr>)" for b p
      by (cases "netInfo b") (auto simp: get)
    have "listed ?m a \<longleftrightarrow> (\<exists>b p. gget ?m b = Some p \<and> a \<in> set (PeerAddrs p))"
      using wf by (auto simp: listed_def gwf_def) (metis map_of_SomeD snd_conv)+
    also have "\<dots> \<longleftrightarrow> (\<exists>b ips. ghas peers b \<and> netInfo b = Inr ips \<and> a \<in> rpc_addr ` set ips)"
      unfolding some by fastforce
    finally show ?thesis .
  qed
  have "gget (resolvePeerMap (order ?m)) a = round_spec netInfo peers a" for a
    by (cases "netInfo a") (auto simp: resolvePeerMap_get [OF assms(5) wf] get list round_spec_def)
  moreover have "gwf (resolvePeerMap (order ?m))"
    unfolding resolvePeerMap_def by (rule resolve_loop_wf) (simp add: gomap_simps)
  ultimately show ?thesis by (simp add: getNetworkPeers_def poll)
qed

text \<open>C13: one round of the crawl is exact and deterministic: if every known peer answers in time,
  then in whatever order the answers arrive and whatever order maps are ranged over, the
  result knows every peer that answered, with the addresses it listed, and every address
  listed by one that answered, unqueried otherwise, and nothing else; the flags of the
  caller's peers are reset.\<close>

theorem crawl_round_exact:
  assumes "peers_ok peers" and "peers \<noteq> []"
    and "mset (map snd evs) = mset (map (query_peer netInfo) (gvals peers))"
    and "list_all (\<lambda>e. e \<le> timeout) (map fst evs)" and "\<And>m. ranges_over (order m) m"
  shows "\<exists>newPeers. getNetworkPeers order peers timeout evs = Some (Inr newPeers, reset_queried peers) \<and>
    (\<forall>a. gget newPeers a = round_spec netInfo peers a)"
  using getNetworkPeers_spec [OF assms] by blast

text \<open>Two peers, of which the second to answer fails; the first lists a third.\<close>

definition demo_peers :: peer_map where
  "demo_peers = [(rpc_addr ''a'', unqueried (rpc_addr ''a'')), (rpc_addr ''b'', unqueried (rpc_addr ''b''))]"

definition demo_net :: net_info where
  "demo_net a = (if a = rpc_addr ''b'' then Inr [''a'', ''c''] else Inl ''unreachable'')"

theorem crawl_round_exact_witness:
  "\<exists>newPeers. getNetworkPeers (\<lambda>m. m) demo_peers second
       [(0, query_peer demo_net (unqueried (rpc_addr ''b''))), (5, query_peer demo_net (unqueried (rpc_addr ''a'')))]
     = Some (Inr newPeers, reset_queried demo_peers) \<and>
     (\<forall>a. gget newPeers a = round_spec demo_net demo_peers a)"
  by (rule crawl_round_exact)
    (simp_all add: demo_peers_def peers_ok_def gwf_def unqueried_def rpc_addr_def)

subsection \<open>Minimum connectivity\<close>

definition connectivities :: "(string \<times> peerInfo) list \<Rightarrow> int set" where
  "connectivities es = {c. 0 < c \<and> (\<exists>p \<in> set (gvals es). SuccessfullyQueried p \<and>
     c = int (length (PeerAddrs p)))}"

lemma connectivities_simps [simp]:
  "connectivities [] = {}"
  "connectivities ((a, p) # es) =
     (if SuccessfullyQueried p \<and> PeerAddrs p \<noteq> [] then insert (int (length (PeerAddrs p))) else id)
       (connectivities es)"
  by (auto simp: connectivities_def)

lemma finite_connectivities [simp]: "finite (connectivities es)"
  by (induction es) auto

lemma min_connectivity_loop_eq:
  "min_connectivity_loop es m = Min (insert m (connectivities es))"
proof (induction es arbitrary: m)
  case (Cons e es)
  obtain a p where e: "e = (a, p)" by (cases e)
  let ?C = "connectivities es" and ?c = "int (length (PeerAddrs p))"
  have "Min (insert (if ?c < m then ?c else m) ?C) = Min (insert m (insert ?c ?C))"
    by (cases "?C = {}") (auto simp: Min_insert min_def)
  with Cons show ?case by (auto simp: e Let_def)
qed simp

text \<open>The connectivity of a set of peers is the least number of peers a successfully queried peer
  listed, not counting those that listed none, and at most the number of peers; the order in
  which they are visited does not matter.\<close>

theorem min_connectivity_exact:
  "getMinPeerConnectivity es = Min (insert (int (length es))
     {c. 0 < c \<and> (\<exists>p \<in> set (gvals es). SuccessfullyQueried p \<and> c = int (length (PeerAddrs p)))})"
  by (simp add: getMinPeerConnectivity_def min_connectivity_loop_eq connectivities_def)

lemma connectivity_unqueried:
  assumes "\<forall>p \<in> set (gvals es). \<not> SuccessfullyQueried p"
  shows "getMinPeerConnectivity es = int (length es)"
proof -
  have "connectivities es = {}" using assms by (auto simp: connectivities_def)
  then show ?thesis by (simp add: getMinPeerConnectivity_def min_connectivity_loop_eq)
qed

text \<open>C40: the connectivity requirement is not enforced on a round that discovers no further peer:
  the flags that were reset make every peer look unqueried, so the connectivity is taken to be
  the number of peers, and the wait ends whatever the peers answered.\<close>

theorem connectivity_bypass:
  assumes "0 \<le> timeout - round_elapsed r"
    and "getNetworkPeers (range_order env) peers (timeout - round_elapsed r) (round_events r) =
      Some (Inr newPeers, peers1)"
    and "length newPeers \<le> length peers" and "minDiscovered \<le> int (length peers)"
    and "minConnectivity \<le> int (length peers)" and "\<And>m. ranges_over (range_order env m) m"
  shows "wait_loop env selectionMethod minDiscovered minConnectivity maxReturned timeout supplied
      (r # rs) peers =
    Some (filterPeerMap (host_of env) supplied (range_order env (reset_queried peers))
      selectionMethod maxReturned)"
proof -
  have p1: "peers1 = reset_queried peers"
    using assms(2) by (auto simp: getNetworkPeers_def split: option.splits sum.splits)
  have len: "length (reset_queried peers) = length peers" by (simp add: reset_queried_def)
  let ?es = "range_order env (reset_queried peers)"
  have "\<forall>p \<in> set (gvals ?es). \<not> SuccessfullyQueried p"
    using ranges_over_set [OF assms(6)] by (auto simp: reset_queried_def)
  then have "getMinPeerConnectivity ?es = int (length peers)"
    using connectivity_unqueried [of ?es] ranges_over_length [OF assms(6)] len by simp
  with assms(1-5) show ?thesis by (simp add: p1 len)
qed

text \<open>Two supplied peers that know only each other: connectivity 1, yet a minimum of 2 is met.\<close>

definition pair_net :: net_info where
  "pair_net a = Inr [if a = rpc_addr ''a'' then ''b'' else ''a'']"

definition pair_env :: crawl_env where
  "pair_env = \<lparr>host_of = (\<lambda>a. Inr (take 1 (drop 7 a))), range_order = (\<lambda>m. m)\<rparr>"

definition pair_round :: crawl_round where
  "pair_round = \<lparr>round_elapsed = 0, round_events =
     [(0, query_peer pair_net (unqueried (rpc_addr ''a''))), (0, query_peer pair_net (unqueried (rpc_addr ''b'')))]\<rparr>"

lemma pair_crawl:
  "\<exists>newPeers. getNetworkPeers (range_order pair_env) demo_peers second (round_events pair_round) =
     Some (Inr newPeers, reset_queried demo_peers) \<and> length newPeers = 2 \<and>
     getMinPeerConnectivity newPeers = 1"
  by (simp add: getNetworkPeers_def demo_peers_def pair_round_def query_peer_def pair_net_def
      pair_env_def unqueried_def rpc_addr_def resolvePeerMap_def ghas_def getMinPeerConnectivity_def)

theorem connectivity_bypass_witness:
  "wait_loop pair_env SelectAnyEndpoints 2 2 0 second demo_peers [pair_round] demo_peers =
     Some (Inr [''ws://a:26657/websocket'', ''ws://b:26657/websocket''])"
proof -
  obtain new where "getNetworkPeers (range_order pair_env) demo_peers second (round_events pair_round) =
      Some (Inr new, reset_queried demo_peers)" "length new = 2"
    using pair_crawl by blast
  then have "wait_loop pair_env SelectAnyEndpoints 2 2 0 second demo_peers [pair_round] demo_peers =
      Some (filterPeerMap (host_of pair_env) demo_peers (range_order pair_env (reset_queried demo_peers))
        SelectAnyEndpoints 0)"
    by (intro connectivity_bypass [where newPeers = new and ?peers1.0 = "reset_queried demo_peers"])
      (simp_all add: pair_round_def pair_env_def demo_peers_def)
  also have "\<dots> = Some (Inr [''ws://a:26657/websocket'', ''ws://b:26657/websocket''])"
    by (simp add: filterPeerMap_def pair_env_def reset_queried_def demo_peers_def rpc_addr_def
        ws_addr_def SelectAnyEndpoints_def SelectSuppliedEndpoints_def SelectDiscoveredEndpoints_def)
  finally show ?thesis .
qed

subsection \<open>Selection of the endpoints\<close>

definition selected_by :: "string \<Rightarrow> peer_map \<Rightarrow> string \<Rightarrow> bool" where
  "selected_by selectionMethod supplied a \<longleftrightarrow>
     (if selectionMethod = SelectSuppliedEndpoints then ghas supplied a
      else if selectionMethod = SelectDiscoveredEndpoints then \<not> ghas supplied a else True)"

definition cut_to :: "int \<Rightarrow> 'a list \<Rightarrow> 'a list" where
  "cut_to maxCount xs = (if maxCount > 0 then take (nat maxCount) xs else xs)"

lemma filter_loop_Cons:
  assumes "parse a = Inr h" and "r' = (if selected_by m supplied a then r @ [ws_addr h] else r)"
  shows "filter_loop parse supplied m maxCount ((a, p) # es) r =
    (if maxCount > 0 \<and> int (length r') \<ge> maxCount then Inr r'
     else filter_loop parse supplied m maxCount es r')"
proof -
  have "(if m = SelectSuppliedEndpoints then (if ghas supplied a then r @ [ws_addr h] else r)
      else if m = SelectDiscoveredEndpoints then (if \<not> ghas supplied a then r @ [ws_addr h] else r)
      else r @ [ws_addr h]) = r'"
    unfolding assms(2) selected_by_def by (simp split: if_split)
  then show ?thesis unfolding filter_loop.simps assms(1) sum.case Let_def by (simp only:)
qed

lemma filter_loop_eq:
  assumes "\<forall>a \<in> set (gkeys es). parse a = Inr (host a)" and "maxCount > 0 \<longrightarrow> int (length r) < maxCount"
  shows "filter_loop parse supplied m maxCount es r =
    Inr (cut_to maxCount (r @ map (\<lambda>a. ws_addr (host a)) (filter (selected_by m supplied) (gkeys es))))"
  using assms
proof (induction es arbitrary: r)
  case Nil
  then show ?case by (auto simp: cut_to_def)
next
  case (Cons e es)
  obtain a p where e: "e = (a, p)" by (cases e)
  let ?rest = "map (\<lambda>a. ws_addr (host a)) (filter (selected_by m supplied) (gkeys es))"
  define r' where "r' = (if selected_by m supplied a then r @ [ws_addr (host a)] else r)"
  have step: "filter_loop parse supplied m maxCount (e # es) r =
      (if maxCount > 0 \<and> int (length r') \<ge> maxCount then Inr r'
       else filter_loop parse supplied m maxCount es r')"
    using filter_loop_Cons [of parse a "host a" r' m supplied r] Cons.prems(1) by (simp add: e r'_def)
  have rest: "r @ map (\<lambda>a. ws_addr (host a)) (filter (selected_by m supplied) (gkeys (e # es))) = r' @ ?rest"
    by (simp add: e r'_def)
  show ?case
  proof (cases "maxCount > 0 \<and> int (length r') \<ge> maxCount")
    case True
    with Cons.prems(2) have "length r' = nat maxCount"
      by (auto simp: r'_def split: if_splits)
    with True show ?thesis unfolding step rest by (simp add: cut_to_def)
  next
    case False
    with Cons.IH [of r'] Cons.prems(1) show ?thesis unfolding step rest by auto
  qed
qed

text \<open>C33: the endpoints selected are exactly the WebSockets addresses of the peers the method admits
  (all of them, the supplied ones, or the ones not supplied), in the order of the range, cut to
  the maximum count when there is one.\<close>

theorem filter_exact:
  assumes "\<forall>a \<in> set (gkeys es). parse a = Inr (host a)"
  shows "filterPeerMap parse supplied es m maxCount =
    Inr (cut_to maxCount (map (\<lambda>a. ws_addr (host a)) (filter (selected_by m supplied) (gkeys es))))"
  using filter_loop_eq [OF assms, of maxCount "[]"] by (simp add: filterPeerMap_def)

theorem filter_exact_witness:
  "filterPeerMap (\<lambda>a. Inr (take 1 (drop 7 a))) [hd demo_peers] demo_peers SelectDiscoveredEndpoints 1 =
     Inr [''ws://b:26657/websocket'']"
  by (subst filter_exact [where host = "\<lambda>a. take 1 (drop 7 a)"])
    (simp_all add: demo_peers_def cut_to_def selected_by_def ghas_def rpc_addr_def ws_addr_def
      SelectSuppliedEndpoints_def SelectDiscoveredEndpoints_def)

subsection \<open>What a successful wait returns\<close>

lemma filter_loop_sound:
  assumes "filter_loop parse supplied m maxCount es r = Inr result"
    and "maxCount > 0 \<longrightarrow> int (length r) < maxCount"
  shows "(maxCount > 0 \<longrightarrow> int (length result) \<le> maxCount) \<and>
    (\<forall>x \<in> set result. x \<in> set r \<or> (\<exists>a \<in> set (gkeys es). \<exists>h. parse a = Inr h \<and> x = ws_addr h \<and>
       selected_by m supplied a))"
  using assms
proof (induction es arbitrary: r)
  case Nil
  then show ?case by auto
next
  case (Cons e es)
  obtain a p where e: "e = (a, p)" by (cases e)
  obtain h where h: "parse a = Inr h" using Cons.prems(1) by (auto simp: e split: sum.splits)
  define r' where "r' = (if selected_by m supplied a then r @ [ws_addr h] else r)"
  have step: "Inr result = (if maxCount > 0 \<and> int (length r') \<ge> maxCount then Inr r'
       else filter_loop parse supplied m maxCount es r')"
    using filter_loop_Cons [of parse a h r' m supplied r, OF h r'_def] Cons.prems(1) by (simp only: e)
  have new: "x \<in> set r \<or> (\<exists>h. parse a = Inr h \<and> x = ws_addr h \<and> selected_by m supplied a)"
    if "x \<in> set r'" for x
    using that h by (auto simp: r'_def split: if_splits)
  show ?case
  proof (cases "maxCount > 0 \<and> int (length r') \<ge> maxCount")
    case True
    with step have "result = r'" by simp
    moreover have "int (length r') \<le> maxCount" using True Cons.prems(2)
      by (cases "selected_by m supplied a") (simp_all add: r'_def)
    ultimately show ?thesis using new by (auto simp: e)
  next
    case False
    with step have "filter_loop parse supplied m maxCount es r' = Inr result" by simp
    with Cons.IH [of r'] False new show ?thesis by (fastforce simp: e)
  qed
qed

lemma wait_loop_success:
  "wait_loop env m minDiscovered minConnectivity maxReturned timeout supplied rounds peers = Some (Inr result) \<Longrightarrow>
   \<exists>known. minDiscovered \<le> int (length known) \<and>
     minConnectivity \<le> getMinPeerConnectivity (range_order env known) \<and>
     filterPeerMap (host_of env) supplied (range_order env known) m maxReturned = Inr result"
proof (induction rounds arbitrary: peers)
  case Nil
  then show ?case by simp
next
  case (Cons r rs)
  then show ?case
    by (auto simp: Let_def split: if_splits option.splits sum.splits prod.splits)
qed



end
