(* ===== verification/Worker_Msgs.thy ===== *)
theory Worker_Msgs
  imports Load_Config Go_Encoding
begin

section \<open>Messages between workers and the coordinator (states.go, messages.go)\<close>

text \<open>
  The message type, the states a worker can claim, and what encoding/json makes of a message
  with the struct tags of \<open>workerMsg\<close> and \<open>Config\<close>: \<open>omitempty\<close> on the message, none on the
  configuration.  Decoding takes the members of the object in order; a member's name may
  differ from the tag in the case of its letters, an unknown member is skipped, a \<open>null\<close>
  leaves the field alone, and a value of another type or an integer that is no \<open>int\<close> is an
  error.  Strings are taken to be valid UTF-8 (the encoder replaces other bytes).
\<close>

definition workerConnected :: string where
  "workerConnected = ''connected''"

definition workerAccepted :: string where
  "workerAccepted = ''accepted''"

definition workerRejected :: string where
  "workerRejected = ''rejected''"

definition workerTesting :: string where
  "workerTesting = ''testing''"

definition workerFailed :: string where
  "workerFailed = ''failed''"

definition workerCompleted :: string where
  "workerCompleted = ''completed''"

lemmas worker_states = workerConnected_def workerAccepted_def workerRejected_def workerTesting_def
  workerFailed_def workerCompleted_def

record workerMsg =
  W_ID :: string
  W_State :: string
  W_TxCount :: int
  W_TotalTxBytes :: int
  W_Error :: string
  W_Config :: "config option"

definition zero_msg :: workerMsg where
  "zero_msg = \<lparr>W_ID = [], W_State = [], W_TxCount = 0, W_TotalTxBytes = 0, W_Error = [], W_Config = None\<rparr>"

definition zero_config :: config where
  "zero_config =
     \<lparr>ClientFactory = [], Connections = 0, Time = 0, SendPeriod = 0, Rate = 0, Size = 0, Count = 0,
      BroadcastTxMethod = [], Endpoints = [], EndpointSelectMethod = [], ExpectPeers = 0,
      MaxEndpoints = 0, MinConnectivity = 0, PeerConnectTimeout = 0, StatsOutputFile = [],
      NoTrapInterrupts = False\<rparr>"

subsection \<open>Encoding\<close>

definition config_to_json :: "config \<Rightarrow> json" where
  "config_to_json c = JObj
     [(''client_factory'', JStr (ClientFactory c)), (''connections'', JNum (Connections c)),
      (''time'', JNum (Time c)), (''send_period'', JNum (SendPeriod c)), (''rate'', JNum (Rate c)),
      (''size'', JNum (Size c)), (''count'', JNum (Count c)),
      (''broadcast_tx_method'', JStr (BroadcastTxMethod c)),
      (''endpoints'', JArr (map JStr (Endpoints c))),
      (''endpoint_select_method'', JStr (EndpointSelectMethod c)),
      (''expect_peers'', JNum (ExpectPeers c)), (''max_endpoints'', JNum (MaxEndpoints c)),
      (''min_connectivity'', JNum (MinConnectivity c)),
      (''peer_connect_timeout'', JNum (PeerConnectTimeout c)),
      (''stats_output_file'', JStr (StatsOutputFile c)),
      (''no_trap_interrupts'', JBool (NoTrapInterrupts c))]"

definition omit_str :: "string \<Rightarrow> string \<Rightarrow> (string \<times> json) list" where
  "omit_str k s = (if s = [] then [] else [(k, JStr s)])"

definition omit_int :: "string \<Rightarrow> int \<Rightarrow> (string \<times> json) list" where
  "omit_int k n = (if n = 0 then [] else [(k, JNum n)])"

definition workerMsg_to_json :: "workerMsg \<Rightarrow> json" where
  "workerMsg_to_json m = JObj
     (omit_str ''id'' (W_ID m) @ omit_str ''state'' (W_State m) @ omit_int ''tx_count'' (W_TxCount m) @
      omit_int ''total_tx_bytes'' (W_TotalTxBytes m) @ omit_str ''error'' (W_Error m) @
      (case W_Config m of None \<Rightarrow> [] | Some c \<Rightarrow> [(''config'', config_to_json c)]))"

subsection \<open>Decoding\<close>

definition lower_char :: "char \<Rightarrow> char" where
  "lower_char ch =
     (let n = of_char ch :: nat in if 65 \<le> n \<and> n \<le> 90 then char_of (n + 32) else ch)"

definition set_int :: "(int \<Rightarrow> 'r \<Rightarrow> 'r) \<Rightarrow> json \<Rightarrow> 'r \<Rightarrow> 'r option" where
  "set_int f j r = (case j of JNull \<Rightarrow> Some r
     | JNum n \<Rightarrow> if in_i64 n then Some (f n r) else None | _ \<Rightarrow> None)"

definition set_str :: "(string \<Rightarrow> 'r \<Rightarrow> 'r) \<Rightarrow> json \<Rightarrow> 'r \<Rightarrow> 'r option" where
  "set_str f j r = (case j of JNull \<Rightarrow> Some r | JStr s \<Rightarrow> Some (f s r) | _ \<Rightarrow> None)"

definition set_bool :: "(bool \<Rightarrow> 'r \<Rightarrow> 'r) \<Rightarrow> json \<Rightarrow> 'r \<Rightarrow> 'r option" where
  "set_bool f j r = (case j of JNull \<Rightarrow> Some r | JBool b \<Rightarrow> Some (f b r) | _ \<Rightarrow> None)"

fun json_strings :: "json list \<Rightarrow> string list option" where
  "json_strings [] = Some []"
| "json_strings (JStr s # js) = map_option ((#) s) (json_strings js)"
| "json_strings (JNull # js) = map_option ((#) []) (json_strings js)"
| "json_strings (_ # js) = None"

definition set_strs :: "(string list \<Rightarrow> 'r \<Rightarrow> 'r) \<Rightarrow> json \<Rightarrow> 'r \<Rightarrow> 'r option" where
  "set_strs f j r = (case j of JNull \<Rightarrow> Some (f [] r)
     | JArr js \<Rightarrow> map_option (\<lambda>ss. f ss r) (json_strings js) | _ \<Rightarrow> None)"

text \<open>The decoder of one struct: its fields by tag, applied to the members in order.\<close>

type_synonym 'r fields = "(string \<times> (json \<Rightarrow> 'r \<Rightarrow> 'r option)) list"

fun decode_members :: "'r fields \<Rightarrow> (string \<times> json) list \<Rightarrow> 'r \<Rightarrow> 'r option" where
  "decode_members fs [] r = Some r"
| "decode_members fs ((k, j) # ms) r =
     (case map_of fs (map lower_char k) of
        None \<Rightarrow> decode_members fs ms r
      | Some dec \<Rightarrow> (case dec j r of None \<Rightarrow> None | Some r' \<Rightarrow> decode_members fs ms r'))"

definition config_fields :: "config fields" where
  "config_fields =
     [(''client_factory'', set_str (\<lambda>s. ClientFactory_update (\<lambda>_. s))),
      (''connections'', set_int (\<lambda>n. Connections_update (\<lambda>_. n))),
      (''time'', set_int (\<lambda>n. Time_update (\<lambda>_. n))),
      (''send_period'', set_int (\<lambda>n. SendPeriod_update (\<lambda>_. n))),
      (''rate'', set_int (\<lambda>n. Rate_update (\<lambda>_. n))),
      (''size'', set_int (\<lambda>n. Size_update (\<lambda>_. n))),
      (''count'', set_int (\<lambda>n. Count_update (\<lambda>_. n))),
      (''broadcast_tx_method'', set_str (\<lambda>s. BroadcastTxMethod_update (\<lambda>_. s))),
      (''endpoints'', set_strs (\<lambda>ss. Endpoints_update (\<lambda>_. ss))),
      (''endpoint_select_method'', set_str (\<lambda>s. EndpointSelectMethod_update (\<lambda>_. s))),
      (''expect_peers'', set_int (\<lambda>n. ExpectPeers_update (\<lambda>_. n))),
      (''max_endpoints'', set_int (\<lambda>n. MaxEndpoints_update (\<lambda>_. n))),
      (''min_connectivity'', set_int (\<lambda>n. MinConnectivity_update (\<lambda>_. n))),
      (''peer_connect_timeout'', set_int (\<lambda>n. PeerConnectTimeout_update (\<lambda>_. n))),
      (''stats_output_file'', set_str (\<lambda>s. StatsOutputFile_update (\<lambda>_. s))),
      (''no_trap_interrupts'', set_bool (\<lambda>b. NoTrapInterrupts_update (\<lambda>_. b)))]"

definition config_of_json :: "json \<Rightarrow> config \<Rightarrow> config option" where
  "config_of_json j c = (case j of JNull \<Rightarrow> Some c
     | JObj ms \<Rightarrow> decode_members config_fields ms c | _ \<Rightarrow> None)"

text \<open>The pointer field: \<open>null\<close> sets it to nil, an object is decoded into what it points to.\<close>

definition set_config :: "json \<Rightarrow> workerMsg \<Rightarrow> workerMsg option" where
  "set_config j m = (case j of JNull \<Rightarrow> Some (m\<lparr>W_Config := None\<rparr>)
     | _ \<Rightarrow> map_option (\<lambda>c. m\<lparr>W_Config := Some c\<rparr>)
         (config_of_json j (case W_Config m of None \<Rightarrow> zero_config | Some c \<Rightarrow> c)))"

definition workerMsg_fields :: "workerMsg fields" where
  "workerMsg_fields =
     [(''id'', set_str (\<lambda>s. W_ID_update (\<lambda>_. s))),
      (''state'', set_str (\<lambda>s. W_State_update (\<lambda>_. s))),
      (''tx_count'', set_int (\<lambda>n. W_TxCount_update (\<lambda>_. n))),
      (''total_tx_bytes'', set_int (\<lambda>n. W_TotalTxBytes_update (\<lambda>_. n))),
      (''error'', set_str (\<lambda>s. W_Error_update (\<lambda>_. s))),
      (''config'', set_config)]"

text \<open>\<open>json.Unmarshal\<close> into a fresh message, as \<open>ReadWorkerMsg\<close> does.\<close>

definition workerMsg_of_json :: "json \<Rightarrow> workerMsg option" where
  "workerMsg_of_json j = (case j of JNull \<Rightarrow> Some zero_msg
     | JObj ms \<Rightarrow> decode_members workerMsg_fields ms zero_msg | _ \<Rightarrow> None)"

subsection \<open>Round trips\<close>

lemma set_simps [simp]:
  "set_int f (JNum n) r = (if in_i64 n then Some (f n r) else None)"
  "set_str g (JStr s) r = Some (g s r)" "set_bool h (JBool b) r = Some (h b r)"
  "set_strs k (JArr js) r = map_option (\<lambda>ss. k ss r) (json_strings js)"
  by (simp_all add: set_int_def set_str_def set_bool_def set_strs_def)

lemma json_strings_JStr [simp]: "json_strings (map JStr ss) = Some ss"
  by (induction ss) simp_all

lemma lower_tags [simp]:
  "map lower_char ''client_factory'' = ''client_factory''" "map lower_char ''connections'' = ''connections''"
  "map lower_char ''time'' = ''time''" "map lower_char ''send_period'' = ''send_period''"
  "map lower_char ''rate'' = ''rate''" "map lower_char ''size'' = ''size''"
  "map lower_char ''count'' = ''count''" "map lower_char ''broadcast_tx_method'' = ''broadcast_tx_method''"
  "map lower_char ''endpoints'' = ''endpoints''"
  "map lower_char ''endpoint_select_method'' = ''endpoint_select_method''"
  "map lower_char ''expect_peers'' = ''expect_peers''" "map lower_char ''max_endpoints'' = ''max_endpoints''"
  "map lower_char ''min_connectivity'' = ''min_connectivity''"
  "map lower_char ''peer_connect_timeout'' = ''peer_connect_timeout''"
  "map lower_char ''stats_output_file'' = ''stats_output_file''"
  "map lower_char ''no_trap_interrupts'' = ''no_trap_interrupts''"
  "map lower_char ''id'' = ''id''" "map lower_char ''state'' = ''state''"
  "map lower_char ''tx_count'' = ''tx_count''" "map lower_char ''total_tx_bytes'' = ''total_tx_bytes''"
  "map lower_char ''error'' = ''error''" "map lower_char ''config'' = ''config''"
  by (simp_all add: lower_char_def)

lemma config_roundtrip: "config_ints c \<Longrightarrow> config_of_json (config_to_json c) zero_config = Some c"
  by (cases c) (simp add: config_of_json_def config_to_json_def config_fields_def config_ints_def
      zero_config_def del: list.map)

lemma workerMsg_roundtrip:
  assumes "in_i64 (W_TxCount m)" and "in_i64 (W_TotalTxBytes m)"
    and "pred_option config_ints (W_Config m)"
  shows "workerMsg_of_json (workerMsg_to_json m) = Some m"
proof -
  obtain i st n b e cfg where m: "m = \<lparr>W_ID = i, W_State = st, W_TxCount = n, W_TotalTxBytes = b,
      W_Error = e, W_Config = cfg\<rparr>" by (cases m)
  have app: "decode_members fs (xs @ ys) r =
      (case decode_members fs xs r of None \<Rightarrow> None | Some r' \<Rightarrow> decode_members fs ys r')"
    for fs :: "workerMsg fields" and xs ys r
    by (induction fs xs r rule: decode_members.induct) (simp_all split: option.splits)
  show ?thesis
    using assms config_roundtrip
    by (cases cfg) (auto simp: m workerMsg_of_json_def workerMsg_to_json_def app omit_str_def
        omit_int_def workerMsg_fields_def zero_msg_def set_config_def config_to_json_def
        simp del: list.map)
qed



end
