(* ===== verification/Simple_Socket.thy ===== *)
theory Simple_Socket
  imports Worker_Msgs Load_Transactor "HOL-Library.Sublist"
begin

section \<open>The simple socket (websockets.go)\<close>

text \<open>
  \<open>simpleSocket\<close> serialises the writes of several goroutines over one connection: \<open>Write\<close> puts a
  request into a bounded channel and waits for its answer, \<open>Run\<close> takes the requests in order,
  and \<open>Stop\<close> ends \<open>Run\<close>, which then flushes the channel, says good-bye and may wait for the other
  side.  \<open>Run\<close> is a step relation with its program points; a request is the JSON value it
  carries, and what the connection answers to a write is chosen by the environment.
\<close>

subsection \<open>Configuration\<close>

record socket_config =
  inboundBufSize :: int
  outboundBufSize :: int
  flushOnStop :: bool
  sendCloseMessage :: bool
  waitForRemoteClose :: bool
  remoteCloseWaitTimeout :: duration
  parentCtx :: string

definition defaultSimpleSocketConfig :: socket_config where
  "defaultSimpleSocketConfig =
     \<lparr>inboundBufSize = 10, outboundBufSize = 10, flushOnStop = True, sendCloseMessage = True,
      waitForRemoteClose = False, remoteCloseWaitTimeout = 60 * second, parentCtx = []\<rparr>"

datatype socket_opt =
    InboundBufSize int
  | OutboundBufSize int
  | FlushOnStop bool
  | SendCloseMessage bool
  | WaitForRemoteClose bool
  | RemoteCloseWaitTimeout duration
  | ParentCtx string

fun apply_opt :: "socket_opt \<Rightarrow> socket_config \<Rightarrow> socket_config" where
  "apply_opt (InboundBufSize n) cfg = cfg\<lparr>inboundBufSize := n\<rparr>"
| "apply_opt (OutboundBufSize n) cfg = cfg\<lparr>outboundBufSize := n\<rparr>"
| "apply_opt (FlushOnStop b) cfg = cfg\<lparr>flushOnStop := b\<rparr>"
| "apply_opt (SendCloseMessage b) cfg = cfg\<lparr>sendCloseMessage := b\<rparr>"
| "apply_opt (WaitForRemoteClose b) cfg = cfg\<lparr>waitForRemoteClose := b\<rparr>"
| "apply_opt (RemoteCloseWaitTimeout d) cfg = cfg\<lparr>remoteCloseWaitTimeout := d\<rparr>"
| "apply_opt (ParentCtx s) cfg = cfg\<lparr>parentCtx := s\<rparr>"

definition socket_options :: "socket_opt list \<Rightarrow> socket_config" where
  "socket_options opts = fold apply_opt opts defaultSimpleSocketConfig"

subsection \<open>The state and the steps\<close>

text \<open>
  \<open>Running\<close> is the loop of \<open>Run\<close>, \<open>Leaving\<close> the wait for the read pump, \<open>Flushing n\<close> the loop of
  \<open>close\<close> with \<open>n\<close> requests to go, \<open>Closing\<close> what follows it and \<open>Stopped\<close> the end of \<open>Run\<close>, when
  \<open>Stop\<close> returns.  The history of accepted requests and the number accepted when \<open>Stop\<close> was
  called are kept for the statements.
\<close>

datatype socket_pc = Running | Leaving | Flushing nat | Closing | Stopped

record socket =
  s_pc :: socket_pc
  outbound :: "json list"
  stop_closed :: bool
  wire :: "ws_frame list"
  handled :: "json list"
  accepted :: "json list"
  accepted_at_stop :: "nat option"
  flush_from :: nat

definition newSimpleSocket :: socket where
  "newSimpleSocket =
     \<lparr>s_pc = Running, outbound = [], stop_closed = False, wire = [], handled = [], accepted = [],
      accepted_at_stop = None, flush_from = 0\<rparr>"

text \<open>\<open>handleWrite\<close>: the request is on the wire unless the connection reports an error.\<close>

definition handleWrite :: "go_error option \<Rightarrow> json \<Rightarrow> socket \<Rightarrow> socket" where
  "handleWrite res j s =
     s\<lparr>handled := handled s @ [j],
       wire := (case res of None \<Rightarrow> wire s @ [TextFrame j] | Some _ \<Rightarrow> wire s)\<rparr>"

text \<open>The first half of \<open>Stop\<close>; it returns when the loop has stopped.\<close>

abbreviation sock_Stop :: "socket \<Rightarrow> socket" where
  "sock_Stop s \<equiv> s\<lparr>stop_closed := True, accepted_at_stop := Some (length (accepted s))\<rparr>"

text \<open>
  \<open>close\<close>: as many requests are flushed as the channel holds at its start, then the close message
  is written, whose result is not looked at, and the remote end may be waited for, which takes no
  longer than its timeout.
\<close>

abbreviation close_flush :: "socket \<Rightarrow> socket" where
  "close_flush s \<equiv> s\<lparr>s_pc := Flushing (length (outbound s)), flush_from := length (accepted s)\<rparr>"

abbreviation close_end :: "socket_config \<Rightarrow> bool \<Rightarrow> socket \<Rightarrow> socket" where
  "close_end cfg written_ok s \<equiv> s\<lparr>s_pc := Stopped,
     wire := (if sendCloseMessage cfg \<and> written_ok then wire s @ [CloseFrame] else wire s)\<rparr>"

definition remote_close_wait :: "socket_config \<Rightarrow> duration option \<Rightarrow> duration" where
  "remote_close_wait cfg arrives =
     (if waitForRemoteClose cfg
      then (case arrives of None \<Rightarrow> remoteCloseWaitTimeout cfg | Some d \<Rightarrow> min d (remoteCloseWaitTimeout cfg))
      else 0)"

lemma remote_close_wait_default: "remote_close_wait defaultSimpleSocketConfig arrives = 0"
  by (simp add: remote_close_wait_def defaultSimpleSocketConfig_def)

inductive socket_step :: "socket_config \<Rightarrow> socket \<Rightarrow> socket \<Rightarrow> bool" for cfg where
  enqueue: "int (length (outbound s)) < outboundBufSize cfg \<Longrightarrow>
    socket_step cfg s (s\<lparr>outbound := outbound s @ [j], accepted := accepted s @ [j]\<rparr>)"
| run_write: "s_pc s = Running \<Longrightarrow> outbound s = j # rest \<Longrightarrow>
    socket_step cfg s (handleWrite res j (s\<lparr>outbound := rest\<rparr>))"
| stop_call: "\<not> stop_closed s \<Longrightarrow>
    socket_step cfg s (sock_Stop s)"
| run_stop: "s_pc s = Running \<Longrightarrow> stop_closed s \<Longrightarrow> socket_step cfg s (s\<lparr>s_pc := Leaving\<rparr>)"
| flush: "s_pc s = Leaving \<Longrightarrow> flushOnStop cfg \<Longrightarrow>
    socket_step cfg s (close_flush s)"
| no_flush: "s_pc s = Leaving \<Longrightarrow> \<not> flushOnStop cfg \<Longrightarrow> socket_step cfg s (s\<lparr>s_pc := Closing\<rparr>)"
| flush_one: "s_pc s = Flushing (Suc n) \<Longrightarrow> outbound s = j # rest \<Longrightarrow>
    socket_step cfg s (handleWrite res j (s\<lparr>s_pc := Flushing n, outbound := rest\<rparr>))"
| flush_done: "s_pc s = Flushing 0 \<Longrightarrow> socket_step cfg s (s\<lparr>s_pc := Closing\<rparr>)"
| say_goodbye: "s_pc s = Closing \<Longrightarrow>
    socket_step cfg s (close_end cfg written_ok s)"

subsection \<open>Requests and their answers\<close>

definition defaultWSReadTimeout :: duration where
  "defaultWSReadTimeout = 3 * second"

definition defaultWSWriteTimeout :: duration where
  "defaultWSWriteTimeout = 3 * second"

text \<open>The variadic timeouts of \<open>Read\<close> and \<open>Write\<close>: the first one given, or the default.\<close>

definition first_timeout :: "duration \<Rightarrow> duration list \<Rightarrow> duration" where
  "first_timeout d ts = (if length ts > 0 then ts ! 0 else d)"

text \<open>
  The wait for the answer of a request: \<open>arrives\<close> is the time until the answer is there, if it
  ever is, and the timer runs for the timeout and 100 milliseconds more; the result comes with
  the deadline the connection was given.
\<close>

definition sock_Read :: "duration list \<Rightarrow> duration option \<Rightarrow> go_error + int \<times> 'd \<Rightarrow> duration \<times> (go_error + int \<times> 'd)" where
  "sock_Read timeouts arrives resp =
     (let timeout = first_timeout defaultWSReadTimeout timeouts in
      (timeout, case arrives of
         Some d \<Rightarrow> if d < timeout + 100000000 then resp
           else Inl ''timed out waiting for websocket read to complete''
       | None \<Rightarrow> Inl ''timed out waiting for websocket read to complete''))"

definition sock_Write :: "duration list \<Rightarrow> duration option \<Rightarrow> go_error option \<Rightarrow> duration \<times> go_error option" where
  "sock_Write timeouts arrives resp =
     (let timeout = first_timeout defaultWSWriteTimeout timeouts in
      (timeout, case arrives of
         Some d \<Rightarrow> if d < timeout + 100000000 then resp
           else Some ''timed out waiting for websocket write to complete''
       | None \<Rightarrow> Some ''timed out waiting for websocket write to complete''))"

text \<open>
  The read pump: the requests, by number, in the inbound channel, what the connection gave to each
  (\<open>handleRead\<close>), and whether the pump was stopped.  A \<open>select\<close> with both cases ready may take
  either, so stopping can leave requests unanswered.
\<close>

record 'd read_pump =
  inbound :: "nat list"
  asked :: "nat list"
  answers :: "(nat \<times> (go_error + int \<times> 'd)) list"
  stop_reading :: bool
  pump_stopped :: bool

abbreviation sock_handleRead :: "nat \<Rightarrow> go_error + int \<times> 'd \<Rightarrow> 'd read_pump \<Rightarrow> 'd read_pump" where
  "sock_handleRead k r p \<equiv> p\<lparr>answers := answers p @ [(k, r)]\<rparr>"

inductive read_step :: "socket_config \<Rightarrow> 'd read_pump \<Rightarrow> 'd read_pump \<Rightarrow> bool" for cfg where
  ask: "int (length (inbound p)) < inboundBufSize cfg \<Longrightarrow>
    read_step cfg p (p\<lparr>inbound := inbound p @ [k], asked := asked p @ [k]\<rparr>)"
| handleRead: "\<not> pump_stopped p \<Longrightarrow> inbound p = k # rest \<Longrightarrow>
    read_step cfg p (sock_handleRead k r (p\<lparr>inbound := rest\<rparr>))"
| stop_pump: "read_step cfg p (p\<lparr>stop_reading := True\<rparr>)"
| pump_ends: "\<not> pump_stopped p \<Longrightarrow> stop_reading p \<Longrightarrow> read_step cfg p (p\<lparr>pump_stopped := True\<rparr>)"

text \<open>Every request is answered at most once and in the order asked.\<close>

definition reads_ok :: "'d read_pump \<Rightarrow> bool" where
  "reads_ok p \<longleftrightarrow> asked p = map fst (answers p) @ inbound p"

lemma read_step_ok: "read_step cfg p p' \<Longrightarrow> reads_ok p \<Longrightarrow> reads_ok p'"
  by (cases rule: read_step.cases) (auto simp: reads_ok_def)

interpretation socket_reads: kept_by_relation "read_step cfg" reads_ok for cfg
  by unfold_locales (rule read_step_ok)

subsection \<open>The two goroutines of a socket\<close>

text \<open>
  \<open>Run\<close> with the pump it starts: on its way out it tells the pump to stop, and goes on to \<open>close\<close>
  only when the pump has ended.
\<close>

record 'd sock_run =
  sr_sock :: socket
  sr_pump :: "'d read_pump"

definition sock_run_start :: "'d sock_run" where
  "sock_run_start = \<lparr>sr_sock = newSimpleSocket,
     sr_pump = \<lparr>inbound = [], asked = [], answers = [], stop_reading = False, pump_stopped = False\<rparr>\<rparr>"

inductive sock_run_step :: "socket_config \<Rightarrow> 'd sock_run \<Rightarrow> 'd sock_run \<Rightarrow> bool" for cfg where
  writer: "socket_step cfg (sr_sock r) s \<Longrightarrow> (s_pc (sr_sock r) = Leaving \<and> s_pc s \<noteq> Leaving \<longrightarrow> pump_stopped (sr_pump r)) \<Longrightarrow>
    sock_run_step cfg r (r\<lparr>sr_sock := s\<rparr>)"
| reader: "read_step cfg (sr_pump r) p \<Longrightarrow> (stop_reading p \<longrightarrow> stop_reading (sr_pump r) \<or> s_pc (sr_sock r) = Leaving) \<Longrightarrow>
    sock_run_step cfg r (r\<lparr>sr_pump := p\<rparr>)"

inductive_cases read_step_elim: "read_step cfg p p'"
inductive_cases socket_step_elim: "socket_step cfg s s'"

lemma pump_stays_stopped: "read_step cfg p p' \<Longrightarrow> pump_stopped p \<Longrightarrow> pump_stopped p' \<and> answers p' = answers p"
  by (auto elim: read_step_elim)

lemma socket_step_from_run: "socket_step cfg s s' \<Longrightarrow> s_pc s = Running \<Longrightarrow> s_pc s' \<in> {Running, Leaving}"
  by (auto elim!: socket_step_elim simp: handleWrite_def)

definition pump_ok :: "'d sock_run \<Rightarrow> bool" where
  "pump_ok r \<longleftrightarrow> (s_pc (sr_sock r) = Running \<longrightarrow> \<not> stop_reading (sr_pump r)) \<and>
     (s_pc (sr_sock r) \<notin> {Running, Leaving} \<longrightarrow> pump_stopped (sr_pump r)) \<and>
     (pump_stopped (sr_pump r) \<longrightarrow> stop_reading (sr_pump r)) \<and> reads_ok (sr_pump r)"

lemma socket_step_to_run: "socket_step cfg s s' \<Longrightarrow> s_pc s' = Running \<Longrightarrow> s_pc s = Running"
  by (auto elim!: socket_step_elim simp: handleWrite_def)

lemma read_step_flags:
  "read_step cfg p p' \<Longrightarrow> (pump_stopped p \<longrightarrow> stop_reading p) \<Longrightarrow> (pump_stopped p' \<longrightarrow> stop_reading p') \<and> (pump_stopped p \<longrightarrow> pump_stopped p')"
  by (auto elim: read_step_elim)

lemma sock_run_pump_ok:
  assumes "sock_run_step cfg r r'" and "pump_ok r"
  shows "pump_ok r'"
  using assms(1)
proof (cases rule: sock_run_step.cases)
  case (writer s)
  with assms(2) socket_step_from_run [of cfg "sr_sock r" s] socket_step_to_run [of cfg "sr_sock r" s] show ?thesis
    by (auto simp: pump_ok_def)
next
  case (reader p)
  with assms(2) read_step_flags [of cfg "sr_pump r" p] read_step_ok [of cfg "sr_pump r" p] show ?thesis
    by (auto simp: pump_ok_def)
qed

interpretation sock_run_inv: kept_by_relation "sock_run_step cfg" pump_ok for cfg
  by unfold_locales (rule sock_run_pump_ok)

text \<open>
  When \<open>Stop\<close> returns, and from the flush on, the read pump has ended: nothing is read from the
  connection any more, and what was answered before was asked, in order.
\<close>

lemma no_read_after_stop:
  assumes "(sock_run_step cfg)\<^sup>*\<^sup>* sock_run_start r" and "s_pc (sr_sock r) \<notin> {Running, Leaving}"
    and "(sock_run_step cfg)\<^sup>*\<^sup>* r r'"
  shows "pump_stopped (sr_pump r') \<and> answers (sr_pump r') = answers (sr_pump r) \<and>
    prefix (map fst (answers (sr_pump r))) (asked (sr_pump r))"
proof -
  have "pump_ok (sock_run_start :: 'a sock_run)" by (simp add: pump_ok_def sock_run_start_def newSimpleSocket_def reads_ok_def)
  then have ok: "pump_ok r" by (rule sock_run_inv.run_keeps [OF assms(1)])
  have "pump_stopped (sr_pump r') \<and> answers (sr_pump r') = answers (sr_pump r)"
    using assms(3)
  proof (induction rule: rtranclp_induct)
    case base
    then show ?case using ok assms(2) by (simp add: pump_ok_def)
  next
    case (step y z)
    then show ?case using pump_stays_stopped [of cfg "sr_pump y"] by (auto elim!: sock_run_step.cases)
  qed
  with ok show ?thesis by (simp add: pump_ok_def reads_ok_def)
qed

subsection \<open>Reading and writing worker messages\<close>

definition TextMessage :: int where
  "TextMessage = 1"

text \<open>What \<open>Read\<close> gives back: an error, or a message type and the document read.\<close>

definition ReadWorkerMsg :: "go_error + int \<times> json \<Rightarrow> go_error + workerMsg" where
  "ReadWorkerMsg r =
     (case r of
        Inl err \<Rightarrow> Inl err
      | Inr (mt, data) \<Rightarrow>
        if mt \<noteq> TextMessage
        then Inl (''expected text message ('' @ show_int TextMessage @ ''), but got message type '' @ show_int mt)
        else (case workerMsg_of_json data of
            None \<Rightarrow> Inl ''json: cannot unmarshal''
          | Some m \<Rightarrow> Inr m))"

definition WriteWorkerMsg_data :: "workerMsg \<Rightarrow> json" where
  "WriteWorkerMsg_data m = workerMsg_to_json m"

subsection \<open>Order and flushing\<close>

text \<open>
  The invariant: the requests handled and the ones still in the channel are the ones accepted,
  in order; and while flushing, as many are left to flush as were accepted before and not yet
  handled.
\<close>

definition queue_ok :: "socket_config \<Rightarrow> socket \<Rightarrow> bool" where
  "queue_ok cfg s \<longleftrightarrow> accepted s = handled s @ outbound s \<and>
     (accepted_at_stop s = None \<longleftrightarrow> \<not> stop_closed s) \<and>
     (\<forall>k. accepted_at_stop s = Some k \<longrightarrow> k \<le> length (accepted s)) \<and>
     (s_pc s \<noteq> Running \<longrightarrow> stop_closed s) \<and>
     (case s_pc s of
        Flushing n \<Rightarrow> n + length (handled s) = flush_from s \<and> n \<le> length (outbound s) \<and>
          the (accepted_at_stop s) \<le> flush_from s
      | Closing \<Rightarrow> flushOnStop cfg \<longrightarrow> length (handled s) = flush_from s \<and>
          the (accepted_at_stop s) \<le> flush_from s
      | Stopped \<Rightarrow> flushOnStop cfg \<longrightarrow> length (handled s) = flush_from s \<and>
          the (accepted_at_stop s) \<le> flush_from s
      | _ \<Rightarrow> True)"

lemma handleWrite_fields [simp]:
  "s_pc (handleWrite res j s) = s_pc s" "outbound (handleWrite res j s) = outbound s"
  "stop_closed (handleWrite res j s) = stop_closed s" "handled (handleWrite res j s) = handled s @ [j]"
  "accepted (handleWrite res j s) = accepted s"
  "accepted_at_stop (handleWrite res j s) = accepted_at_stop s"
  "flush_from (handleWrite res j s) = flush_from s"
  by (simp_all add: handleWrite_def)

lemma socket_step_queue_ok:
  assumes "socket_step cfg s s'" and "queue_ok cfg s"
  shows "queue_ok cfg s'"
  using assms(1)
proof (cases rule: socket_step.cases)
  case (enqueue j)
  with assms(2) show ?thesis by (cases "s_pc s") (simp_all add: queue_ok_def, fastforce+)
next
  case (flush_one n j rest res)
  with assms(2) show ?thesis by (auto simp: queue_ok_def)
next
  case stop_call
  with assms(2) show ?thesis by (cases "s_pc s") (simp_all add: queue_ok_def)
qed (use assms(2) in \<open>auto simp: queue_ok_def\<close>)

interpretation socket_queue: kept_by_relation "socket_step cfg" "queue_ok cfg" for cfg
  by unfold_locales (rule socket_step_queue_ok)

lemma queue_ok_new: "queue_ok cfg newSimpleSocket"
  by (simp add: queue_ok_def newSimpleSocket_def)

text \<open>The requests on the wire.\<close>

fun frame_texts :: "ws_frame list \<Rightarrow> json list" where
  "frame_texts [] = []"
| "frame_texts (TextFrame j # fs) = j # frame_texts fs"
| "frame_texts (_ # fs) = frame_texts fs"

lemma frame_texts_append [simp]: "frame_texts (fs @ gs) = frame_texts fs @ frame_texts gs"
  by (induction fs rule: frame_texts.induct) simp_all

definition wire_ok :: "socket \<Rightarrow> bool" where
  "wire_ok s \<longleftrightarrow> subseq (frame_texts (wire s)) (handled s)"

lemma wire_ok_handleWrite:
  "subseq (frame_texts (wire s)) (handled s) \<Longrightarrow> wire_ok (handleWrite res j s)"
  by (cases res) (auto simp: wire_ok_def handleWrite_def list_emb_append_mono intro: subseq_drop_many)

lemma socket_step_wire_ok:
  assumes "socket_step cfg s s'" and "wire_ok s"
  shows "wire_ok s'"
  using assms(1)
proof (cases rule: socket_step.cases)
  case (run_write j rest res)
  with assms(2) show ?thesis
    using wire_ok_handleWrite [of "s\<lparr>outbound := rest\<rparr>"] by (simp add: wire_ok_def)
next
  case (flush_one n j rest res)
  with assms(2) show ?thesis
    using wire_ok_handleWrite [of "s\<lparr>s_pc := Flushing n, outbound := rest\<rparr>"] by (simp add: wire_ok_def)
qed (use assms(2) in \<open>simp_all add: wire_ok_def\<close>)

interpretation socket_wire: kept_by_relation "socket_step cfg" wire_ok for cfg
  by unfold_locales (rule socket_step_wire_ok)

text \<open>C15: the socket is first in, first out and nothing is made up: whatever the interleaving of
  writers, \<open>Run\<close> and \<open>Stop\<close> and whatever writes fail, the requests handed to the connection are a
  prefix of those accepted, in their order, the rest is still in the channel, and what is on the
  wire are requests handed over, each at most once and in the same order.\<close>

theorem socket_fifo:
  assumes "(socket_step cfg)\<^sup>*\<^sup>* newSimpleSocket s"
  shows "accepted s = handled s @ outbound s \<and> subseq (frame_texts (wire s)) (handled s)"
proof -
  have "wire_ok newSimpleSocket" by (simp add: wire_ok_def newSimpleSocket_def)
  with socket_wire.run_keeps [OF assms] socket_queue.run_keeps [OF assms queue_ok_new]
  show ?thesis by (simp add: queue_ok_def wire_ok_def)
qed

text \<open>C16: with \<open>flushOnStop\<close>, stopping loses nothing that was accepted before: when \<open>Stop\<close> returns,
  every request accepted before it was called has been handed to the connection.\<close>

theorem stop_flushes:
  assumes "(socket_step cfg)\<^sup>*\<^sup>* newSimpleSocket s" and "flushOnStop cfg" and "s_pc s = Stopped"
    and "accepted_at_stop s = Some k"
  shows "take k (handled s) = take k (accepted s) \<and> k \<le> length (handled s)"
proof -
  have ok: "queue_ok cfg s" using assms(1) queue_ok_new by (rule socket_queue.run_keeps)
  then have "accepted s = handled s @ outbound s" and "k \<le> length (handled s)"
    using assms(2-4) by (auto simp: queue_ok_def)
  then show ?thesis by simp
qed

text \<open>One message is accepted, then the socket is stopped and flushes it.\<close>

definition demo_socket :: "nat \<Rightarrow> socket" where
  "demo_socket n =
     (let s1 = newSimpleSocket\<lparr>outbound := [JNull], accepted := [JNull]\<rparr>;
          s2 = s1\<lparr>stop_closed := True, accepted_at_stop := Some 1\<rparr>;
          s3 = s2\<lparr>s_pc := Leaving\<rparr>;
          s4 = s3\<lparr>s_pc := Flushing 1, flush_from := 1\<rparr>;
          s5 = handleWrite None JNull (s4\<lparr>s_pc := Flushing 0, outbound := []\<rparr>);
          s6 = s5\<lparr>s_pc := Closing\<rparr>;
          s7 = s6\<lparr>s_pc := Stopped, wire := wire s6 @ [CloseFrame]\<rparr>
      in [newSimpleSocket, s1, s2, s3, s4, s5, s6, s7] ! n)"

lemma demo_socket_steps:
  "socket_step defaultSimpleSocketConfig (demo_socket 0) (demo_socket 1)"
  "socket_step defaultSimpleSocketConfig (demo_socket 1) (demo_socket 2)"
  "socket_step defaultSimpleSocketConfig (demo_socket 2) (demo_socket 3)"
  "socket_step defaultSimpleSocketConfig (demo_socket 3) (demo_socket 4)"
  "socket_step defaultSimpleSocketConfig (demo_socket 4) (demo_socket 5)"
  "socket_step defaultSimpleSocketConfig (demo_socket 5) (demo_socket 6)"
  "socket_step defaultSimpleSocketConfig (demo_socket 6) (demo_socket 7)"
  by (auto simp: demo_socket_def socket_step.simps defaultSimpleSocketConfig_def newSimpleSocket_def
      handleWrite_def eval_nat_numeral intro!: exI [of _ None])

lemma demo_socket_run: "(socket_step defaultSimpleSocketConfig)\<^sup>*\<^sup>* newSimpleSocket (demo_socket 7)"
proof -
  let ?R = "(socket_step defaultSimpleSocketConfig)\<^sup>*\<^sup>*"
  note d = demo_socket_steps [THEN r_into_rtranclp [of "socket_step defaultSimpleSocketConfig"]]
  have "?R (demo_socket 0) (demo_socket 2)" using d(1,2) by (rule rtranclp_trans)
  moreover have "?R (demo_socket 2) (demo_socket 4)" using d(3,4) by (rule rtranclp_trans)
  moreover have "?R (demo_socket 4) (demo_socket 6)" using d(5,6) by (rule rtranclp_trans)
  moreover have "demo_socket 0 = newSimpleSocket" by (simp add: demo_socket_def)
  ultimately show ?thesis using d(7) by (metis (no_types) rtranclp_trans)
qed

theorem socket_fifo_witness:
  "accepted (demo_socket 7) = handled (demo_socket 7) @ outbound (demo_socket 7) \<and>
    subseq (frame_texts (wire (demo_socket 7))) (handled (demo_socket 7))"
  using demo_socket_run by (rule socket_fifo)

theorem stop_flushes_witness:
  "take 1 (handled (demo_socket 7)) = take 1 (accepted (demo_socket 7)) \<and> 1 \<le> length (handled (demo_socket 7))"
  by (rule stop_flushes [OF demo_socket_run])
    (simp_all add: demo_socket_def defaultSimpleSocketConfig_def newSimpleSocket_def eval_nat_numeral Let_def)

end
