(* ===== verification/Go_Text.thy ===== *)
theory Go_Text
  imports Go_Float
begin

section \<open>Numbers as text: strconv and the \<open>%.nf\<close> verb\<close>

text \<open>
  Reading decimal integers as \<open>strconv.Atoi\<close>, \<open>ParseInt\<close> and \<open>ParseUint\<close> (base 10) do, and
  writing a float with a fixed number of decimals: the exact value rounded to the nearest
  multiple of the last place, ties to even.
\<close>

definition digit_val :: "char \<Rightarrow> nat option" where
  "digit_val ch = (let n = of_char ch :: nat in if 48 \<le> n \<and> n \<le> 57 then Some (n - 48) else None)"

fun read_digits :: "nat \<Rightarrow> string \<Rightarrow> nat option" where
  "read_digits acc [] = Some acc"
| "read_digits acc (ch # s) =
     (case digit_val ch of None \<Rightarrow> None | Some d \<Rightarrow> read_digits (acc * 10 + d) s)"

definition read_nat :: "string \<Rightarrow> nat option" where
  "read_nat s = (if s = [] then None else read_digits 0 s)"

text \<open>\<open>Atoi\<close> and \<open>ParseInt(s, 10, 64)\<close>: an optional sign; the value must be an \<open>int64\<close>.\<close>

definition read_int64 :: "string \<Rightarrow> int option" where
  "read_int64 s =
     (case (case s of [] \<Rightarrow> None
        | ch # rest \<Rightarrow>
          if ch = CHR ''-'' then map_option (\<lambda>n. - int n) (read_nat rest)
          else if ch = CHR ''+'' then map_option int (read_nat rest)
          else map_option int (read_nat s)) of
        None \<Rightarrow> None
      | Some n \<Rightarrow> if in_i64 n then Some n else None)"

definition read_uint64 :: "string \<Rightarrow> nat option" where
  "read_uint64 s = (case read_nat s of None \<Rightarrow> None | Some n \<Rightarrow> if n < 2 ^ 64 then Some n else None)"

lemma digit_val_char [simp]: "d < 10 \<Longrightarrow> digit_val (digit_char d) = Some d"
  by (simp add: digit_val_def digit_char_def)

lemma read_digits_append:
  "read_digits a (s @ t) = (case read_digits a s of None \<Rightarrow> None | Some b \<Rightarrow> read_digits b t)"
  by (induction a s rule: read_digits.induct) (simp_all split: option.split)

lemma read_digits_show: "read_digits 0 (show_nat n) = Some n"
proof (induction n rule: show_nat.induct)
  case (1 n)
  then show ?case
    by (subst show_nat.simps) (simp add: read_digits_append)
qed

lemma show_nat_nonempty [simp]: "show_nat n \<noteq> []"
  by (subst show_nat.simps) simp

lemma read_nat_show [simp]: "read_nat (show_nat n) = Some n"
  by (simp add: read_nat_def read_digits_show)

lemma hd_show_nat: "\<exists>d < 10. hd (show_nat n) = digit_char d"
proof (induction n rule: show_nat.induct)
  case (1 n)
  show ?case
  proof (cases "n < 10")
    case True
    then show ?thesis by (subst show_nat.simps) auto
  next
    case False
    with 1 show ?thesis by (subst show_nat.simps) simp
  qed
qed

lemma digit_char_no_sign: "d < 10 \<Longrightarrow> digit_char d \<noteq> CHR ''-'' \<and> digit_char d \<noteq> CHR ''+''"
proof -
  assume "d < 10"
  then have "digit_val (digit_char d) = Some d" by simp
  moreover have "digit_val CHR ''-'' = None" "digit_val CHR ''+'' = None" by (simp_all add: digit_val_def)
  ultimately show ?thesis by auto
qed

lemma read_int64_show_iff: "read_int64 (show_int n) = (if in_i64 n then Some n else None)"
proof (cases "n < 0")
  case True
  then show ?thesis by (simp add: read_int64_def show_int_def)
next
  case False
  obtain ch rest where s: "show_nat (nat n) = ch # rest" by (cases "show_nat (nat n)") auto
  with hd_show_nat [of "nat n"] digit_char_no_sign have "ch \<noteq> CHR ''-''" "ch \<noteq> CHR ''+''" by auto
  moreover have "read_nat (ch # rest) = Some (nat n)" using read_nat_show [of "nat n"] s by simp
  ultimately show ?thesis
    using False s by (simp add: read_int64_def show_int_def)
qed

lemma read_int64_show: "in_i64 n \<Longrightarrow> read_int64 (show_int n) = Some n"
  by (simp add: read_int64_show_iff)

lemma read_uint64_show: "n < 2 ^ 64 \<Longrightarrow> read_uint64 (show_nat n) = Some n"
  by (simp add: read_uint64_def)

subsection \<open>Fixed decimals\<close>

fun pad_digits :: "nat \<Rightarrow> nat \<Rightarrow> string" where
  "pad_digits 0 n = []"
| "pad_digits (Suc k) n = pad_digits k (n div 10) @ [digit_char (n mod 10)]"

definition fixed_decimal :: "nat \<Rightarrow> rat \<Rightarrow> string" where
  "fixed_decimal p x =
     (let n = nat (round_half_even (\<bar>x\<bar> * 10 ^ p))
      in (if x < 0 then ''-'' else []) @ show_nat (n div 10 ^ p) @ CHR ''.'' # pad_digits p (n mod 10 ^ p))"

text \<open>The number a fixed decimal of \<open>p\<close> places stands for.\<close>

definition read_fixed :: "nat \<Rightarrow> string \<Rightarrow> rat option" where
  "read_fixed p s =
     (let k = length s - Suc p in
      case (read_nat (take k s), read_nat (drop (Suc k) s)) of
        (Some whole, Some part) \<Rightarrow> Some (of_nat whole + of_nat part / 10 ^ p)
      | _ \<Rightarrow> None)"

lemma length_pad_digits [simp]: "length (pad_digits p n) = p"
  by (induction p arbitrary: n) simp_all

lemma read_pad_digits: "n < 10 ^ p \<Longrightarrow> read_digits 0 (pad_digits p n) = Some n"
proof (induction p arbitrary: n)
  case (Suc p)
  then have "n div 10 < 10 ^ p" by (simp add: less_mult_imp_div_less mult.commute)
  with Suc.IH show ?case by (simp add: read_digits_append)
qed simp

lemma read_fixed_decimal:
  assumes "0 \<le> x" and "0 < p"
  shows "\<exists>y. read_fixed p (fixed_decimal p x) = Some y \<and> \<bar>y - x\<bar> \<le> 1 / (2 * 10 ^ p)"
proof -
  let ?r = "round_half_even (\<bar>x\<bar> * 10 ^ p)"
  let ?n = "nat ?r"
  have r0: "0 \<le> ?r" by (rule round_half_even_nonneg) simp
  have len: "length (fixed_decimal p x) - Suc p = length (show_nat (?n div 10 ^ p))"
    using assms(1) by (simp add: fixed_decimal_def Let_def)
  have pad: "read_nat (pad_digits p (?n mod 10 ^ p)) = Some (?n mod 10 ^ p)"
    using assms(2) read_pad_digits [of "?n mod 10 ^ p" p]
    by (cases p) (simp_all add: read_nat_def)
  let ?y = "of_nat (?n div 10 ^ p) + of_nat (?n mod 10 ^ p) / 10 ^ p :: rat"
  have val: "read_fixed p (fixed_decimal p x) = Some ?y"
    using assms(1) pad unfolding read_fixed_def len by (simp add: fixed_decimal_def Let_def)
  have "?y * 10 ^ p = of_nat (?n div 10 ^ p) * 10 ^ p + of_nat (?n mod 10 ^ p)"
    by (simp add: distrib_right)
  then have "?y * 10 ^ p = of_nat (?n div 10 ^ p * 10 ^ p + ?n mod 10 ^ p)"
    by (simp only: of_nat_add of_nat_mult of_nat_power of_nat_numeral)
  then have "?y * 10 ^ p = of_nat ?n" by (simp only: div_mult_mod_eq)
  moreover have "of_nat ?n = (of_int ?r :: rat)" using r0 by simp
  ultimately have y: "?y = of_int ?r / 10 ^ p" by (simp add: eq_divide_eq)
  have "\<bar>of_int ?r - x * 10 ^ p\<bar> \<le> 1 / 2"
    using round_half_even_near [of "\<bar>x\<bar> * 10 ^ p"] assms(1) by simp
  then have "\<bar>of_int ?r - x * 10 ^ p\<bar> / 10 ^ p \<le> 1 / 2 / 10 ^ p"
    by (intro divide_right_mono) simp_all
  moreover have "\<bar>?y - x\<bar> = \<bar>of_int ?r - x * 10 ^ p\<bar> / 10 ^ p"
  proof -
    have "?y - x = (of_int ?r - x * 10 ^ p) / 10 ^ p" unfolding y by (simp add: field_simps)
    then show ?thesis by (simp add: abs_divide)
  qed
  ultimately show ?thesis using val by (intro exI [of _ ?y]) simp
qed

end
