(* ===== verification/Agg_Stats.thy ===== *)
theory Agg_Stats
  imports Go_Text
begin

section \<open>Aggregate statistics (stats.go)\<close>

text \<open>
  The statistics written at the end of a test: the averages computed from the totals, and the
  CSV file, whose content is the text the csv writer produces.  Creating the file may fail,
  which the environment decides.
\<close>

record aggregate_stats =
  TotalTxs :: int
  TotalTimeSeconds :: rat
  TotalBytes :: int
  AvgTxRate :: rat
  AvgDataRate :: rat

definition stats_compute :: "aggregate_stats \<Rightarrow> aggregate_stats" where
  "stats_compute s =
     (if TotalTimeSeconds s > 0
      then s\<lparr>AvgTxRate := f64_div (f64_of_int (TotalTxs s)) (TotalTimeSeconds s),
             AvgDataRate := f64_div (f64_of_int (TotalBytes s)) (TotalTimeSeconds s)\<rparr>
      else s\<lparr>AvgTxRate := 0, AvgDataRate := 0\<rparr>)"

definition stats_String :: "aggregate_stats \<Rightarrow> string" where
  "stats_String s =
     ''AggregateStats{TotalTimeSeconds: '' @ fixed_decimal 3 (TotalTimeSeconds s) @
     '', TotalTxs: '' @ show_int (TotalTxs s) @ '', TotalBytes: '' @ show_int (TotalBytes s) @
     '', AvgTxRate: '' @ fixed_decimal 6 (AvgTxRate s) @
     '', AvgDataRate: '' @ fixed_decimal 6 (AvgDataRate s) @ ''}''"

definition stats_records :: "aggregate_stats \<Rightarrow> string list list" where
  "stats_records stats =
     [[''Parameter'', ''Value'', ''Units''],
      [''total_time'', fixed_decimal 3 (TotalTimeSeconds stats), ''seconds''],
      [''total_txs'', show_int (TotalTxs stats), ''count''],
      [''total_bytes'', show_int (TotalBytes stats), ''bytes''],
      [''avg_tx_rate'', fixed_decimal 6 (AvgTxRate stats), ''transactions per second''],
      [''avg_data_rate'', fixed_decimal 6 (AvgDataRate stats), ''bytes per second'']]"

text \<open>
  The csv writer: fields joined by commas, a line feed after each record; no field of these
  records needs quotes (none holds a comma, a quote or a line break, or starts with a space).
\<close>

fun join_fields :: "string list \<Rightarrow> string" where
  "join_fields [] = []"
| "join_fields [f] = f"
| "join_fields (f # fs) = f @ CHR '','' # join_fields fs"

definition csv_text :: "string list list \<Rightarrow> string" where
  "csv_text rs = concat (map (\<lambda>r. join_fields r @ [CHR 0x0A]) rs)"

text \<open>The result: an error, or the file's name and content.\<close>

definition writeAggregateStats ::
    "(string \<Rightarrow> string option) \<Rightarrow> string \<Rightarrow> aggregate_stats \<Rightarrow> string + string \<times> string" where
  "writeAggregateStats createErr filename stats =
     (let stats' = stats_compute stats in
      case createErr filename of
        Some err \<Rightarrow> Inl err
      | None \<Rightarrow> Inr (filename, csv_text (stats_records stats')))"

subsection \<open>The file can be read back\<close>

definition csv_plain :: "string \<Rightarrow> bool" where
  "csv_plain f \<longleftrightarrow> CHR '','' \<notin> set f \<and> CHR 0x0A \<notin> set f"

text \<open>Splitting at a separator: what a reader of plain CSV does with lines and fields.\<close>

fun split_at :: "char \<Rightarrow> string \<Rightarrow> string list" where
  "split_at sep [] = [[]]"
| "split_at sep (ch # s) =
     (if ch = sep then [] # split_at sep s
      else (case split_at sep s of [] \<Rightarrow> [[ch]] | f # fs \<Rightarrow> (ch # f) # fs))"

definition csv_read :: "string \<Rightarrow> string list list" where
  "csv_read s = map (split_at CHR '','') (butlast (split_at CHR 0x0A s))"

lemma split_at_append: "sep \<notin> set f \<Longrightarrow> split_at sep (f @ sep # s) = f # split_at sep s"
  by (induction f) auto

lemma split_at_single: "sep \<notin> set f \<Longrightarrow> split_at sep f = [f]"
  by (induction f) auto

lemma split_at_nonempty [simp]: "split_at sep s \<noteq> []"
  by (cases s) (auto split: list.split)

lemma split_join: "fs \<noteq> [] \<Longrightarrow> \<forall>f \<in> set fs. csv_plain f \<Longrightarrow> split_at CHR '','' (join_fields fs) = fs"
  by (induction fs rule: join_fields.induct) (auto simp: csv_plain_def split_at_append split_at_single)

lemma join_no_newline: "\<forall>f \<in> set fs. csv_plain f \<Longrightarrow> CHR 0x0A \<notin> set (join_fields fs)"
  by (induction fs rule: join_fields.induct) (auto simp: csv_plain_def)

lemma csv_roundtrip:
  "\<forall>r \<in> set rs. r \<noteq> [] \<and> (\<forall>f \<in> set r. csv_plain f) \<Longrightarrow> csv_read (csv_text rs) = rs"
proof (induction rs)
  case Nil
  then show ?case by (simp add: csv_read_def csv_text_def)
next
  case (Cons r rs)
  then have "split_at CHR 0x0A (csv_text (r # rs)) = join_fields r # split_at CHR 0x0A (csv_text rs)"
    using join_no_newline [of r] by (simp add: csv_text_def split_at_append)
  with Cons show ?case by (simp add: csv_read_def split_join)
qed

lemma plain_digits: "d < 10 \<Longrightarrow> digit_char d \<noteq> CHR '','' \<and> digit_char d \<noteq> CHR 0x0A"
proof -
  assume "d < 10"
  then have "digit_val (digit_char d) = Some d" by simp
  moreover have "digit_val CHR '','' = None" "digit_val CHR 0x0A = None" by (simp_all add: digit_val_def)
  ultimately show ?thesis by auto
qed

lemma plain_digits_mod [simp]:
  "digit_char (n mod 10) \<noteq> CHR '',''" "digit_char (n mod 10) \<noteq> CHR 0x0A"
  using plain_digits [of "n mod 10"] by simp_all

lemma csv_plain_simps [simp]:
  "csv_plain []" "csv_plain (ch # s) \<longleftrightarrow> ch \<noteq> CHR '','' \<and> ch \<noteq> CHR 0x0A \<and> csv_plain s"
  "csv_plain (s @ t) \<longleftrightarrow> csv_plain s \<and> csv_plain t"
  by (auto simp: csv_plain_def)

lemma csv_plain_show_nat [simp]: "csv_plain (show_nat n)"
proof (induction n rule: show_nat.induct)
  case (1 n)
  then show ?case by (subst show_nat.simps) (auto dest: plain_digits)
qed

lemma csv_plain_show_int [simp]: "csv_plain (show_int n)"
  by (simp add: show_int_def)

lemma csv_plain_pad_digits [simp]: "csv_plain (pad_digits p n)"
  by (induction p arbitrary: n) simp_all

lemma csv_plain_fixed [simp]: "csv_plain (fixed_decimal p x)"
  by (simp add: fixed_decimal_def Let_def)

lemma stats_records_plain: "\<forall>r \<in> set (stats_records s). r \<noteq> [] \<and> (\<forall>f \<in> set r. csv_plain f)"
  by (simp add: stats_records_def)



text \<open>The average rate is the exact quotient of the totals up to one rounding (a relative error
  of at most \<open>2 ^ -53\<close>), for every count below \<open>2 ^ 53\<close>; with no time elapsed it is zero, never
  infinite.\<close>

theorem average_rate_accurate:
  assumes "0 \<le> TotalTxs s" and "TotalTxs s < 2 ^ 53"
  shows "if TotalTimeSeconds s > 0
    then \<bar>AvgTxRate (stats_compute s) - of_int (TotalTxs s) / TotalTimeSeconds s\<bar> \<le>
      of_int (TotalTxs s) / TotalTimeSeconds s / 2 ^ 53
    else AvgTxRate (stats_compute s) = 0"
proof (cases "TotalTimeSeconds s > 0")
  case True
  have "f64_of_int (TotalTxs s) = of_int (TotalTxs s)"
    using assms by (intro f64_of_int_exact) simp
  with True assms(1) show ?thesis
    using f64_relative_error [of "of_int (TotalTxs s) / TotalTimeSeconds s"]
    by (simp add: stats_compute_def f64_div_def)
next
  case False
  then show ?thesis by (simp add: stats_compute_def)
qed

theorem average_rate_accurate_witness:
  "\<bar>AvgTxRate (stats_compute \<lparr>TotalTxs = 10, TotalTimeSeconds = 3, TotalBytes = 0, AvgTxRate = 0,
       AvgDataRate = 0\<rparr>) - 10 / 3\<bar> \<le> 10 / 3 / 2 ^ 53"
  using average_rate_accurate [of "\<lparr>TotalTxs = 10, TotalTimeSeconds = 3, TotalBytes = 0,
    AvgTxRate = 0, AvgDataRate = 0\<rparr>"] by simp

end
