(* ===== verification/Load_Coordinator.thy ===== *)
theory Load_Coordinator
  imports Worker_Msgs Go_Map Agg_Stats
begin

section \<open>The coordinator (coordinator.go)\<close>

text \<open>
  The coordinator waits for its workers, starts the test and watches their updates.  Its two
  loops are functions on the coordinator's state and the case their \<open>select\<close> takes; the
  channels and the goroutines of the remote workers come with the whole system in a later
  theory.  A registered worker is the number of its connection; the Prometheus gauges are
  fields of the state.
\<close>

abbreviation (input) coordStarting :: int where "coordStarting \<equiv> 0"
abbreviation (input) coordWaitingForPeers :: int where "coordWaitingForPeers \<equiv> 1"
abbreviation (input) coordWaitingForWorkers :: int where "coordWaitingForWorkers \<equiv> 2"
abbreviation (input) coordTesting :: int where "coordTesting \<equiv> 3"
abbreviation (input) coordFailed :: int where "coordFailed \<equiv> 4"
abbreviation (input) coordCompleted :: int where "coordCompleted \<equiv> 5"

record coordinator =
  c_cfg :: config
  coordCfg :: coordinator_config
  workers :: "(string, nat) gomap"
  c_startTime :: int
  lastProgressUpdate :: int
  c_totalTxs :: int
  c_totalBytes :: int
  totalTxsPerWorker :: "(string, int) gomap"
  totalBytesPerWorker :: "(string, int) gomap"
  stateMetric :: int
  totalTxsMetric :: rat
  totalBytesMetric :: rat
  txRateMetric :: rat
  txDataRateMetric :: rat
  overallTxRateMetric :: rat
  workersCompletedMetric :: rat
  testUnderwayMetric :: rat
  stats_files :: "(string \<times> aggregate_stats) list"

definition NewCoordinator :: "config \<Rightarrow> coordinator_config \<Rightarrow> coordinator" where
  "NewCoordinator cfg ccfg =
     \<lparr>c_cfg = cfg, coordCfg = ccfg, workers = [], c_startTime = 0, lastProgressUpdate = 0,
      c_totalTxs = 0, c_totalBytes = 0, totalTxsPerWorker = [], totalBytesPerWorker = [],
      stateMetric = coordStarting, totalTxsMetric = 0, totalBytesMetric = 0, txRateMetric = 0,
      txDataRateMetric = 0, overallTxRateMetric = 0, workersCompletedMetric = 0,
      testUnderwayMetric = -1, stats_files = []\<rparr>"

abbreviation expectedWorkers :: "coordinator \<Rightarrow> int" where
  "expectedWorkers c \<equiv> ExpectWorkers (coordCfg c)"

abbreviation coord_config :: "coordinator \<Rightarrow> config" where
  "coord_config c \<equiv> c_cfg c"

subsection \<open>Registration\<close>

definition registerRemoteWorker :: "string \<Rightarrow> nat \<Rightarrow> coordinator \<Rightarrow> go_error option \<times> coordinator" where
  "registerRemoteWorker rw_id rw c =
     (if int (length (workers c)) \<ge> expectedWorkers c then (Some ''too many workers'', c)
      else if ghas (workers c) rw_id
      then (Some (''worker with ID '' @ rw_id @ '' already exists''), c)
      else (None, c\<lparr>workers := gset rw_id rw (workers c),
        totalTxsPerWorker := gset rw_id 0 (totalTxsPerWorker c),
        totalBytesPerWorker := gset rw_id 0 (totalBytesPerWorker c)\<rparr>))"

definition unregisterRemoteWorker :: "string \<Rightarrow> coordinator \<Rightarrow> coordinator" where
  "unregisterRemoteWorker rw_id c = c\<lparr>workers := gdel rw_id (workers c)\<rparr>"

text \<open>
  \<open>startLoadTest\<close> tells each registered worker, in the order of a range over the map; \<open>start\<close>
  is what \<open>StartLoadTest\<close> returns for a connection.  The connections told are returned too.
\<close>

fun startLoadTest :: "(nat \<Rightarrow> go_error option) \<Rightarrow> (string \<times> nat) list \<Rightarrow> go_error option \<times> nat list" where
  "startLoadTest start [] = (None, [])"
| "startLoadTest start ((w, rw) # ws) =
     (case start rw of
        Some err \<Rightarrow> (Some err, [rw])
      | None \<Rightarrow> (let (res, told) = startLoadTest start ws in (res, rw # told)))"

datatype wait_event =
    RegisterReq string nat
  | UnregisterReq string
  | ConnectTimeout
  | WaitStop
  | WaitServerStopped

text \<open>
  One pass of \<open>waitForWorkers\<close>: the state after it, the answer to a registration, and what the
  loop does next: go on, return an error, or start the test.
\<close>

datatype wait_next = KeepWaiting | WaitFailed go_error | AllConnected

definition wait_step :: "wait_event \<Rightarrow> coordinator \<Rightarrow> coordinator \<times> go_error option option \<times> wait_next" where
  "wait_step ev c =
     (case ev of
        RegisterReq rw_id rw \<Rightarrow>
          (let (resp, c') = registerRemoteWorker rw_id rw c
           in (c', Some resp,
               if int (length (workers c')) \<ge> expectedWorkers c' then AllConnected else KeepWaiting))
      | UnregisterReq rw_id \<Rightarrow> (unregisterRemoteWorker rw_id c, None, KeepWaiting)
      | ConnectTimeout \<Rightarrow> (c, None, WaitFailed ''timed out waiting for all workers to connect'')
      | WaitStop \<Rightarrow> (c, None, WaitFailed ''wait routine cancelled'')
      | WaitServerStopped \<Rightarrow> (c, None, WaitFailed ''web server stopped unexpectedly''))"

definition enter_waiting :: "coordinator \<Rightarrow> coordinator" where
  "enter_waiting c = c\<lparr>stateMetric := coordWaitingForWorkers\<rparr>"

text \<open>The loop on a sequence of events, with the answers it gave; \<open>None\<close>: it is still waiting.\<close>

fun waitForWorkers :: "wait_event list \<Rightarrow> coordinator \<Rightarrow> coordinator \<times> (go_error option) list \<times> wait_next" where
  "waitForWorkers [] c = (c, [], KeepWaiting)"
| "waitForWorkers (ev # evs) c =
     (let (c', resp, nxt) = wait_step ev c;
          answers = (case resp of None \<Rightarrow> [] | Some r \<Rightarrow> [r])
      in case nxt of
           KeepWaiting \<Rightarrow> (let (c'', rs, nxt') = waitForWorkers evs c' in (c'', answers @ rs, nxt'))
         | _ \<Rightarrow> (c', answers, nxt))"

subsection \<open>Progress\<close>

text \<open>
  \<open>logTestingProgress\<close>: the totals over all workers, the rates since the start and since the
  last update, and at the end of the test the statistics file.  The three times are what the
  clock says at its three readings.
\<close>

definition logTestingProgress :: "int \<Rightarrow> int \<times> int \<times> int \<Rightarrow> coordinator \<Rightarrow> coordinator" where
  "logTestingProgress completed = (\<lambda>(now1, now2, now3) c.
     (let total = go_sum (gvals (totalTxsPerWorker c));
          bytes = go_sum (gvals (totalBytesPerWorker c));
          overallElapsed = seconds (now1 - c_startTime c);
          elapsed = seconds (now2 - lastProgressUpdate c);
          overallAvgRate = (if overallElapsed > 0 then f64_div (f64_of_int total) overallElapsed else 0);
          avgRate = (if elapsed > 0 then f64_div (f64_of_int (i64 (total - c_totalTxs c))) elapsed else 0);
          avgDataRate = (if elapsed > 0 then f64_div (f64_of_int (i64 (bytes - c_totalBytes c))) elapsed else 0);
          c' = c\<lparr>lastProgressUpdate := now3, c_totalTxs := total, c_totalBytes := bytes,
                 totalTxsMetric := f64_of_int total, totalBytesMetric := f64_of_int bytes,
                 txRateMetric := avgRate, txDataRateMetric := avgDataRate,
                 overallTxRateMetric := overallAvgRate,
                 workersCompletedMetric := f64_of_int completed\<rparr>
      in if completed \<ge> expectedWorkers c \<and> StatsOutputFile (c_cfg c) \<noteq> []
         then c'\<lparr>stats_files := stats_files c' @ [(StatsOutputFile (c_cfg c),
                  \<lparr>TotalTxs = total, TotalTimeSeconds = overallElapsed, TotalBytes = bytes,
                   AvgTxRate = 0, AvgDataRate = 0\<rparr>)]\<rparr>
         else c'))"

subsection \<open>Receiving updates\<close>

datatype test_event =
    WorkerUpdate workerMsg "int \<times> int \<times> int"
  | WorkerUnregister string "go_error option"
  | ProgressTimer "int \<times> int \<times> int"
  | TestStop
  | TestServerStopped

text \<open>\<open>None\<close>: the loop goes on; \<open>Some r\<close>: it returns the error \<open>r\<close>, or nil.\<close>

type_synonym loop_end = "go_error option option"

definition track_update :: "workerMsg \<Rightarrow> coordinator \<Rightarrow> coordinator" where
  "track_update msg c =
     (let c1 = (if W_TxCount msg > 0
                then c\<lparr>totalTxsPerWorker := gset (W_ID msg) (W_TxCount msg) (totalTxsPerWorker c)\<rparr> else c)
      in if W_TotalTxBytes msg > 0
         then c1\<lparr>totalBytesPerWorker := gset (W_ID msg) (W_TotalTxBytes msg) (totalBytesPerWorker c1)\<rparr>
         else c1)"

definition handle_update :: "workerMsg \<Rightarrow> int \<times> int \<times> int \<Rightarrow> coordinator \<times> int \<Rightarrow> (coordinator \<times> int) \<times> loop_end" where
  "handle_update msg now = (\<lambda>(c, completed).
     (if \<not> ghas (workers c) (W_ID msg) then ((c, completed), None)
      else (let c' = track_update msg c in
        if W_State msg = workerTesting then ((c', completed), None)
        else if W_State msg = workerCompleted then
          (let completed' = completed + 1 in
           if completed' \<ge> expectedWorkers c'
           then ((logTestingProgress completed' now c', completed'), Some None)
           else ((c', completed'), None))
        else if W_State msg = workerFailed then ((c', completed), Some (Some (W_Error msg)))
        else ((c', completed),
          Some (Some (''unexpected state from remote worker: '' @ W_State msg))))))"

definition test_step :: "test_event \<Rightarrow> coordinator \<times> int \<Rightarrow> (coordinator \<times> int) \<times> loop_end" where
  "test_step ev = (\<lambda>(c, completed).
     (case ev of
        WorkerUpdate msg now \<Rightarrow> handle_update msg now (c, completed)
      | WorkerUnregister rw_id err \<Rightarrow>
          ((unregisterRemoteWorker rw_id c, completed),
           (case err of None \<Rightarrow> None | Some e \<Rightarrow> Some (Some (''remote worker failed: '' @ e))))
      | ProgressTimer now \<Rightarrow> ((logTestingProgress completed now c, completed), None)
      | TestStop \<Rightarrow> ((c, completed), Some (Some ''load testing cancelled''))
      | TestServerStopped \<Rightarrow> ((c, completed), Some (Some ''web server stopped unexpectedly''))))"

definition enter_testing :: "int \<Rightarrow> coordinator \<Rightarrow> coordinator" where
  "enter_testing now c =
     c\<lparr>stateMetric := coordTesting, testUnderwayMetric := f64_of_int (LoadTestID (coordCfg c)),
       c_startTime := now, lastProgressUpdate := now\<rparr>"

text \<open>The deferred reset of the gauge on leaving \<open>receiveTestingUpdates\<close>.\<close>

definition leave_testing :: "coordinator \<Rightarrow> coordinator" where
  "leave_testing c = c\<lparr>testUnderwayMetric := -1\<rparr>"

fun test_loop :: "test_event list \<Rightarrow> coordinator \<times> int \<Rightarrow> (coordinator \<times> int) \<times> loop_end" where
  "test_loop [] s = (s, None)"
| "test_loop (ev # evs) s =
     (case test_step ev s of
        (s', None) \<Rightarrow> test_loop evs s'
      | (s', Some r) \<Rightarrow> (s', Some r))"

definition receiveTestingUpdates :: "int \<Rightarrow> test_event list \<Rightarrow> coordinator \<Rightarrow> coordinator \<times> loop_end" where
  "receiveTestingUpdates now evs c =
     (let ((c', _), r) = test_loop evs (enter_testing now c, 0)
      in (if r = None then c' else leave_testing c', r))"

subsection \<open>Run\<close>

text \<open>
  What \<open>Run\<close> meets: the outcome of waiting for peers (only asked for with \<open>ExpectPeers\<close>), the
  events of its loops, the order in which the workers are started and what each start returns.
\<close>

record run_env =
  peers_result :: "go_error + string list"
  wait_events :: "wait_event list"
  start_order :: "(string, nat) gomap \<Rightarrow> (string \<times> nat) list"
  start_result :: "nat \<Rightarrow> go_error option"
  test_start :: int
  test_events :: "test_event list"

text \<open>
  The result, when \<open>Run\<close> returns: the final state, its error, and the connections it told to
  fail.
\<close>

definition fail_run :: "go_error \<Rightarrow> coordinator \<Rightarrow> coordinator \<times> go_error option \<times> nat list" where
  "fail_run err c = (c\<lparr>stateMetric := coordFailed\<rparr>, Some err, gvals (workers c))"

definition run_testing :: "run_env \<Rightarrow> coordinator \<Rightarrow> (coordinator \<times> go_error option \<times> nat list) option" where
  "run_testing env c =
     (case receiveTestingUpdates (test_start env) (test_events env) c of
        (c', None) \<Rightarrow> None
      | (c', Some (Some err)) \<Rightarrow> Some (fail_run err c')
      | (c', Some None) \<Rightarrow> Some (c'\<lparr>stateMetric := coordCompleted\<rparr>, None, []))"

definition run_workers :: "run_env \<Rightarrow> coordinator \<Rightarrow> (coordinator \<times> go_error option \<times> nat list) option" where
  "run_workers env c =
     (case waitForWorkers (wait_events env) (enter_waiting c) of
        (c', _, KeepWaiting) \<Rightarrow> None
      | (c', _, WaitFailed err) \<Rightarrow> Some (fail_run err c')
      | (c', _, AllConnected) \<Rightarrow>
        (case startLoadTest (start_result env) (start_order env (workers c')) of
           (Some err, _) \<Rightarrow> Some (fail_run err c')
         | (None, _) \<Rightarrow> run_testing env c'))"

definition Coordinator_Run :: "run_env \<Rightarrow> coordinator \<Rightarrow> (coordinator \<times> go_error option \<times> nat list) option" where
  "Coordinator_Run env c =
     (if ExpectPeers (c_cfg c) > 0 then
        (case peers_result env of
           Inl err \<Rightarrow> Some (c\<lparr>stateMetric := coordFailed\<rparr>, Some err, [])
         | Inr peers \<Rightarrow> run_workers env (c\<lparr>stateMetric := coordWaitingForPeers,
             c_cfg := (c_cfg c)\<lparr>Endpoints := peers\<rparr>\<rparr>))
      else run_workers env c)"

subsection \<open>The registry\<close>

text \<open>
  The invariant of the registry: ids are unique, there are never more workers than expected,
  and every registered worker has an entry in both statistics maps.
\<close>

definition registry_ok :: "coordinator \<Rightarrow> bool" where
  "registry_ok c \<longleftrightarrow> gwf (workers c) \<and> gwf (totalTxsPerWorker c) \<and> gwf (totalBytesPerWorker c) \<and>
     int (length (workers c)) \<le> max 0 (expectedWorkers c) \<and>
     (\<forall>w. ghas (workers c) w \<longrightarrow> ghas (totalTxsPerWorker c) w \<and> ghas (totalBytesPerWorker c) w)"

lemma registerRemoteWorker_ok: "registry_ok c \<Longrightarrow> registry_ok (snd (registerRemoteWorker w rw c))"
  by (auto simp: registry_ok_def registerRemoteWorker_def gomap_simps ghas_def gomap.len_put)

lemma unregisterRemoteWorker_ok: "registry_ok c \<Longrightarrow> registry_ok (unregisterRemoteWorker w c)"
  using gomap.del_bounded [of "workers c" "max 0 (expectedWorkers c)" w]
  by (auto simp: registry_ok_def unregisterRemoteWorker_def gomap_simps ghas_def)

lemma coordCfg_wait_step [simp]: "coordCfg (fst (wait_step ev c)) = coordCfg c"
  by (cases ev) (auto simp: wait_step_def registerRemoteWorker_def unregisterRemoteWorker_def Let_def)

lemma wait_step_ok: "registry_ok c \<Longrightarrow> registry_ok (fst (wait_step ev c))"
  using registerRemoteWorker_ok unregisterRemoteWorker_ok
  by (cases ev) (auto simp: wait_step_def Let_def split_beta)

interpretation waiting: kept_by_steps "\<lambda>ev c. fst (wait_step ev c)" registry_ok
  by unfold_locales (rule wait_step_ok)

lemma wait_loop_is_run:
  "waitForWorkers evs c = (c', answers, nxt) \<Longrightarrow>
   \<exists>n. c' = fold (\<lambda>ev c. fst (wait_step ev c)) (take n evs) c"
proof (induction evs arbitrary: c c' answers nxt)
  case Nil
  then show ?case by simp
next
  case (Cons ev evs)
  obtain c1 resp nx where 1: "wait_step ev c = (c1, resp, nx)" by (cases "wait_step ev c") auto
  show ?case
  proof (cases nx)
    case KeepWaiting
    obtain c2 rs nx2 where 2: "waitForWorkers evs c1 = (c2, rs, nx2)" by (cases "waitForWorkers evs c1") auto
    obtain n where "c2 = fold (\<lambda>ev c. fst (wait_step ev c)) (take n evs) c1" using Cons.IH [OF 2] by blast
    with Cons.prems 1 2 KeepWaiting show ?thesis by (intro exI [of _ "Suc n"]) simp
  qed (use Cons.prems 1 in \<open>auto intro!: exI [of _ "Suc 0"]\<close>)
qed

lemma wait_loop_cfg: "waitForWorkers evs c = (c', answers, nxt) \<Longrightarrow> coordCfg c' = coordCfg c"
proof -
  have "coordCfg (fold (\<lambda>ev c. fst (wait_step ev c)) es c) = coordCfg c" for es
    by (induction es arbitrary: c) simp_all
  then show "waitForWorkers evs c = (c', answers, nxt) \<Longrightarrow> coordCfg c' = coordCfg c"
    using wait_loop_is_run by metis
qed

lemma wait_loop_all_connected:
  "waitForWorkers evs c = (c', answers, AllConnected) \<Longrightarrow> expectedWorkers c' \<le> int (length (workers c'))"
proof (induction evs arbitrary: c c' answers)
  case (Cons ev evs)
  obtain c1 resp nx where 1: "wait_step ev c = (c1, resp, nx)" by (cases "wait_step ev c") auto
  show ?case
  proof (cases nx)
    case KeepWaiting
    with Cons 1 show ?thesis by (auto split: prod.splits)
  next
    case AllConnected
    with 1 have "expectedWorkers c1 \<le> int (length (workers c1))"
      by (cases ev) (auto simp: wait_step_def Let_def split: prod.splits if_splits)
    with Cons.prems 1 AllConnected show ?thesis by simp
  qed (use Cons.prems 1 in auto)
qed simp

lemma registry_ok_new: "registry_ok (enter_waiting (NewCoordinator cfg ccfg))"
  by (simp add: registry_ok_def NewCoordinator_def gomap_simps ghas_def enter_waiting_def)

text \<open>C28: the load test starts with exactly the expected number of workers, whatever registrations,
  rejections and departures came before: their ids are distinct and each one is tracked in both
  statistics maps.\<close>

theorem starts_with_expected_workers:
  assumes "1 \<le> ExpectWorkers ccfg"
    and "waitForWorkers evs (enter_waiting (NewCoordinator cfg ccfg)) = (c, answers, AllConnected)"
  shows "int (length (workers c)) = ExpectWorkers ccfg \<and> distinct (gkeys (workers c)) \<and>
    (\<forall>w. ghas (workers c) w \<longrightarrow> ghas (totalTxsPerWorker c) w \<and> ghas (totalBytesPerWorker c) w)"
proof -
  let ?c0 = "enter_waiting (NewCoordinator cfg ccfg)"
  obtain n where "c = fold (\<lambda>ev c. fst (wait_step ev c)) (take n evs) ?c0"
    using wait_loop_is_run [OF assms(2)] by blast
  then have ok: "registry_ok c" using waiting.run_keeps_prefix [OF registry_ok_new] by simp
  have "coordCfg c = ccfg"
    using wait_loop_cfg [OF assms(2)] by (simp add: enter_waiting_def NewCoordinator_def)
  with ok wait_loop_all_connected [OF assms(2)] assms(1) show ?thesis
    by (auto simp: registry_ok_def gwf_def)
qed

definition two_workers :: coordinator_config where
  "two_workers = \<lparr>BindAddr = ''localhost:26670'', ExpectWorkers = 2, WorkerConnectTimeout = 180,
     ShutdownWait = 0, LoadTestID = 0\<rparr>"

theorem starts_with_expected_workers_witness:
  "\<exists>c answers. waitForWorkers [RegisterReq ''a'' 0, RegisterReq ''a'' 1, RegisterReq ''b'' 2]
      (enter_waiting (NewCoordinator (flag_defaults ''kvstore'') two_workers)) = (c, answers, AllConnected) \<and>
    length (workers c) = 2"
proof -
  have e: "\<exists>c answers. waitForWorkers [RegisterReq ''a'' 0, RegisterReq ''a'' 1, RegisterReq ''b'' 2]
      (enter_waiting (NewCoordinator (flag_defaults ''kvstore'') two_workers)) = (c, answers, AllConnected)"
    by (simp add: wait_step_def registerRemoteWorker_def NewCoordinator_def enter_waiting_def
        two_workers_def ghas_def Let_def)
  then obtain c answers where c: "waitForWorkers [RegisterReq ''a'' 0, RegisterReq ''a'' 1, RegisterReq ''b'' 2]
      (enter_waiting (NewCoordinator (flag_defaults ''kvstore'') two_workers)) = (c, answers, AllConnected)"
    by blast
  have "int (length (workers c)) = 2"
    using starts_with_expected_workers [OF _ c] by (simp add: two_workers_def)
  with c show ?thesis by auto
qed

subsection \<open>What the statistics hold\<close>

text \<open>The messages of a sequence of events that come from a worker registered at that moment.\<close>

fun heard :: "test_event list \<Rightarrow> coordinator \<times> int \<Rightarrow> workerMsg list" where
  "heard [] s = []"
| "heard (ev # evs) s =
     (case ev of
        WorkerUpdate msg now \<Rightarrow> (if ghas (workers (fst s)) (W_ID msg) then [msg] else [])
      | _ \<Rightarrow> []) @
     (case test_step ev s of (s', None) \<Rightarrow> heard evs s' | (s', Some r) \<Rightarrow> [])"

text \<open>The last positive count a worker reported, or what was known before.\<close>

fun last_count :: "(workerMsg \<Rightarrow> int) \<Rightarrow> string \<Rightarrow> workerMsg list \<Rightarrow> int option \<Rightarrow> int option" where
  "last_count f w [] known = known"
| "last_count f w (m # ms) known =
     last_count f w ms (if W_ID m = w \<and> f m > 0 then Some (f m) else known)"

lemma logTestingProgress_fields [simp]:
  "workers (logTestingProgress n now c) = workers c"
  "totalTxsPerWorker (logTestingProgress n now c) = totalTxsPerWorker c"
  "totalBytesPerWorker (logTestingProgress n now c) = totalBytesPerWorker c"
  "coordCfg (logTestingProgress n now c) = coordCfg c"
  "c_cfg (logTestingProgress n now c) = c_cfg c"
  "c_totalTxs (logTestingProgress n now c) = go_sum (gvals (totalTxsPerWorker c))"
  "c_totalBytes (logTestingProgress n now c) = go_sum (gvals (totalBytesPerWorker c))"
  by (simp_all add: logTestingProgress_def Let_def split: prod.splits)

lemma track_update_fields [simp]:
  "workers (track_update m c) = workers c" "coordCfg (track_update m c) = coordCfg c"
  "c_cfg (track_update m c) = c_cfg c"
  by (simp_all add: track_update_def Let_def)

lemma track_update_counts:
  "gget (totalTxsPerWorker (track_update m c)) w =
     (if W_ID m = w \<and> W_TxCount m > 0 then Some (W_TxCount m) else gget (totalTxsPerWorker c) w)"
  "gget (totalBytesPerWorker (track_update m c)) w =
     (if W_ID m = w \<and> W_TotalTxBytes m > 0 then Some (W_TotalTxBytes m) else gget (totalBytesPerWorker c) w)"
  by (auto simp: track_update_def Let_def update_conv')

text \<open>One event: the counts move by the message heard, if any.\<close>

lemma test_step_counts:
  assumes "test_step ev (c, n) = ((c', n'), r)"
  shows "gget (totalTxsPerWorker c') w = last_count W_TxCount w (heard [ev] (c, n)) (gget (totalTxsPerWorker c) w)"
    and "gget (totalBytesPerWorker c') w =
      last_count W_TotalTxBytes w (heard [ev] (c, n)) (gget (totalBytesPerWorker c) w)"
    and "coordCfg c' = coordCfg c"
  using assms
  by (cases ev; auto simp: test_step_def handle_update_def unregisterRemoteWorker_def
      track_update_counts Let_def split: if_splits option.splits)+

lemma heard_Cons:
  "heard (ev # evs) s = heard [ev] s @
     (case test_step ev s of (s', None) \<Rightarrow> heard evs s' | (s', Some r) \<Rightarrow> [])"
  by (cases "test_step ev s"; cases "snd (test_step ev s)") (simp_all split: test_event.split)

lemma last_count_append: "last_count f w (xs @ ys) k = last_count f w ys (last_count f w xs k)"
  by (induction f w xs k rule: last_count.induct) simp_all

lemma test_loop_counts:
  "test_loop evs (c, n) = ((c', n'), r) \<Longrightarrow>
   gget (totalTxsPerWorker c') w = last_count W_TxCount w (heard evs (c, n)) (gget (totalTxsPerWorker c) w) \<and>
   gget (totalBytesPerWorker c') w =
     last_count W_TotalTxBytes w (heard evs (c, n)) (gget (totalBytesPerWorker c) w) \<and>
   coordCfg c' = coordCfg c"
proof (induction evs arbitrary: c n)
  case Nil
  then show ?case by simp
next
  case (Cons ev evs)
  obtain c1 n1 r1 where 1: "test_step ev (c, n) = ((c1, n1), r1)"
    by (metis prod.exhaust)
  show ?case
  proof (cases r1)
    case None
    with Cons.prems 1 have "test_loop evs (c1, n1) = ((c', n'), r)" by simp
    from Cons.IH [OF this] test_step_counts [OF 1] show ?thesis
      by (simp add: heard_Cons [of ev evs] 1 None last_count_append del: heard.simps)
  next
    case (Some x)
    with Cons.prems 1 test_step_counts [OF 1] show ?thesis
      by (auto simp: heard_Cons [of ev evs] 1 Some simp del: heard.simps)
  qed
qed

definition completions :: "workerMsg list \<Rightarrow> int" where
  "completions ms = int (length (filter (\<lambda>m. W_State m = workerCompleted) ms))"

lemma completions_simps [simp]:
  "completions [] = 0" "completions (xs @ ys) = completions xs + completions ys"
  "completions (m # ms) = (if W_State m = workerCompleted then 1 else 0) + completions ms"
  by (simp_all add: completions_def)

text \<open>Whether the statistics file is written by a progress update.\<close>

definition final_stats :: "coordinator \<Rightarrow> coordinator \<Rightarrow> bool" where
  "final_stats c c' \<longleftrightarrow>
     (if StatsOutputFile (c_cfg c) = [] then stats_files c' = stats_files c
      else (\<exists>t. stats_files c' = stats_files c @ [(StatsOutputFile (c_cfg c),
        \<lparr>TotalTxs = c_totalTxs c', TotalTimeSeconds = t, TotalBytes = c_totalBytes c',
         AvgTxRate = 0, AvgDataRate = 0\<rparr>)]))"

lemma final_stats_cong:
  "c_cfg c = c_cfg d \<Longrightarrow> stats_files c = stats_files d \<Longrightarrow> final_stats c e = final_stats d e"
  by (simp add: final_stats_def)

lemma testing_bracket [simp]:
  "final_stats (enter_testing now c) e = final_stats c e" "final_stats d (leave_testing e) = final_stats d e"
  "totalTxsPerWorker (enter_testing now c) = totalTxsPerWorker c"
  "totalBytesPerWorker (enter_testing now c) = totalBytesPerWorker c"
  "coordCfg (enter_testing now c) = coordCfg c"
  "totalTxsPerWorker (leave_testing c) = totalTxsPerWorker c"
  "totalBytesPerWorker (leave_testing c) = totalBytesPerWorker c"
  "c_totalTxs (leave_testing c) = c_totalTxs c" "c_totalBytes (leave_testing c) = c_totalBytes c"
  by (simp_all add: final_stats_def enter_testing_def leave_testing_def)

text \<open>One event that does not end the loop, and one that ends it with nil.\<close>

lemma logTestingProgress_midway:
  "n < expectedWorkers c \<Longrightarrow> stats_files (logTestingProgress n now c) = stats_files c"
  by (simp add: logTestingProgress_def Let_def split: prod.splits)

lemma track_update_stats [simp]: "stats_files (track_update m c) = stats_files c"
  by (simp add: track_update_def Let_def)

lemma handle_update_goes_on:
  assumes "handle_update m now (c, n) = ((c', n'), None)"
  shows "if ghas (workers c) (W_ID m)
    then c' = track_update m c \<and> (W_State m = workerTesting \<and> n' = n \<or>
      W_State m = workerCompleted \<and> n' = n + 1 \<and> n' < expectedWorkers c)
    else c' = c \<and> n' = n"
  using assms by (auto simp: handle_update_def Let_def split: if_splits)

lemma test_step_goes_on:
  assumes "test_step ev (c, n) = ((c', n'), None)" and "n < expectedWorkers c"
  shows "n' = n + completions (heard [ev] (c, n)) \<and> n' < expectedWorkers c \<and>
    stats_files c' = stats_files c \<and> c_cfg c' = c_cfg c \<and>
    W_State ` set (heard [ev] (c, n)) \<subseteq> {workerTesting, workerCompleted}"
proof (cases ev)
  case (WorkerUpdate m now)
  with assms(1) have "handle_update m now (c, n) = ((c', n'), None)" by (simp add: test_step_def)
  from handle_update_goes_on [OF this] assms show ?thesis
    by (auto simp: WorkerUpdate worker_states split: if_splits)
next
  case (WorkerUnregister w err)
  with assms show ?thesis
    by (auto simp: test_step_def unregisterRemoteWorker_def split: option.splits)
next
  case (ProgressTimer now)
  with assms show ?thesis by (auto simp: test_step_def logTestingProgress_midway)
qed (use assms in \<open>simp_all add: test_step_def\<close>)

lemma test_step_nil:
  assumes "test_step ev (c, n) = ((c', n'), Some None)" and "n < expectedWorkers c"
  shows "\<exists>m now. ev = WorkerUpdate m now \<and> ghas (workers c) (W_ID m) \<and> W_State m = workerCompleted \<and>
    n' = n + 1 \<and> expectedWorkers c \<le> n' \<and> c' = logTestingProgress n' now (track_update m c)"
  using assms
  by (cases ev) (auto simp: test_step_def handle_update_def Let_def split: if_splits option.splits)

lemma logTestingProgress_final:
  assumes "expectedWorkers c \<le> n"
  shows "final_stats c (logTestingProgress n now c)"
    and "totalTxsMetric (logTestingProgress n now c) = f64_of_int (c_totalTxs (logTestingProgress n now c))"
  using assms by (auto simp: final_stats_def logTestingProgress_def Let_def split: prod.splits)

lemma test_loop_nil:
  "test_loop evs (c, n) = ((c', n'), Some None) \<Longrightarrow> n < expectedWorkers c \<Longrightarrow>
   n + completions (heard evs (c, n)) = expectedWorkers c \<and>
   W_State ` set (heard evs (c, n)) \<subseteq> {workerTesting, workerCompleted} \<and>
   c_totalTxs c' = go_sum (gvals (totalTxsPerWorker c')) \<and>
   c_totalBytes c' = go_sum (gvals (totalBytesPerWorker c')) \<and>
   totalTxsMetric c' = f64_of_int (c_totalTxs c') \<and> final_stats c c'"
proof (induction evs arbitrary: c n)
  case Nil
  then show ?case by simp
next
  case (Cons ev evs)
  obtain c1 n1 r1 where 1: "test_step ev (c, n) = ((c1, n1), r1)" by (metis prod.exhaust)
  show ?case
  proof (cases r1)
    case None
    note go = test_step_goes_on [OF 1 [unfolded None] Cons.prems(2)]
    have cfg: "coordCfg c1 = coordCfg c" using test_step_counts(3) [OF 1] .
    from Cons.prems 1 None have "test_loop evs (c1, n1) = ((c', n'), Some None)" by simp
    from Cons.IH [OF this] go cfg final_stats_cong [of c1 c] show ?thesis
      by (simp add: heard_Cons [of ev evs] 1 None image_Un del: heard.simps)
  next
    case (Some r)
    with Cons.prems(1) 1 have r: "r = None" "c' = c1" "n' = n1" by auto
    obtain m now where e: "ev = WorkerUpdate m now" "ghas (workers c) (W_ID m)" "W_State m = workerCompleted"
        "n1 = n + 1" "expectedWorkers c \<le> n1" "c1 = logTestingProgress n1 now (track_update m c)"
      using test_step_nil [OF 1 [unfolded Some r(1)] Cons.prems(2)] by blast
    have "final_stats (track_update m c) c1"
      "totalTxsMetric c1 = f64_of_int (c_totalTxs c1)"
      unfolding e(6) by (rule logTestingProgress_final; use e(5) in simp)+
    moreover have "heard (ev # evs) (c, n) = [m]"
      using e(2) by (simp add: e(1) 1 [unfolded e(1)] Some)
    ultimately show ?thesis
      using e Cons.prems(2) final_stats_cong [of "track_update m c" c] by (simp add: r)
  qed
qed


definition demo_done :: "string \<Rightarrow> int \<Rightarrow> test_event" where
  "demo_done w n = WorkerUpdate (zero_msg\<lparr>W_ID := w, W_State := workerCompleted, W_TxCount := n\<rparr>)
     (second, second, second)"

definition demo_connected :: coordinator where
  "demo_connected = (NewCoordinator (flag_defaults ''kvstore'') two_workers)
     \<lparr>workers := [(''a'', 0), (''b'', 2)], totalTxsPerWorker := [(''a'', 0), (''b'', 0)],
      totalBytesPerWorker := [(''a'', 0), (''b'', 0)]\<rparr>"


subsection \<open>How a run ends\<close>

lemma metrics_unregister [simp]:
  "testUnderwayMetric (unregisterRemoteWorker w c) = testUnderwayMetric c"
  "testUnderwayMetric (snd (registerRemoteWorker w rw c)) = testUnderwayMetric c"
  by (simp_all add: unregisterRemoteWorker_def registerRemoteWorker_def)

lemma wait_loop_underway: "waitForWorkers evs c = (c', answers, nxt) \<Longrightarrow> testUnderwayMetric c' = testUnderwayMetric c"
proof -
  have one: "testUnderwayMetric (fst (wait_step ev c)) = testUnderwayMetric c" for ev c
    by (cases ev) (auto simp: wait_step_def Let_def split_beta)
  have "testUnderwayMetric (fold (\<lambda>ev c. fst (wait_step ev c)) es c) = testUnderwayMetric c" for es
    by (induction es arbitrary: c) (simp_all add: one)
  then show "waitForWorkers evs c = (c', answers, nxt) \<Longrightarrow> ?thesis"
    using wait_loop_is_run by metis
qed

lemma run_testing_end:
  assumes "run_testing env c = Some (c', err, told)"
  shows "testUnderwayMetric c' = -1 \<and> stateMetric c' = (if err = None then coordCompleted else coordFailed) \<and>
    told = (if err = None then [] else gvals (workers c'))"
  using assms
  by (auto simp: run_testing_def fail_run_def receiveTestingUpdates_def leave_testing_def
      split: prod.splits option.splits if_splits)

lemma run_workers_end:
  assumes "run_workers env c = Some (c', err, told)" and "testUnderwayMetric c = -1"
  shows "testUnderwayMetric c' = -1 \<and> stateMetric c' = (if err = None then coordCompleted else coordFailed) \<and>
    told = (if err = None then [] else gvals (workers c'))"
proof -
  obtain c1 answers nxt where w: "waitForWorkers (wait_events env) (enter_waiting c) = (c1, answers, nxt)"
    by (cases "waitForWorkers (wait_events env) (enter_waiting c)") auto
  have u: "testUnderwayMetric c1 = -1"
    using wait_loop_underway [OF w] assms(2) by (simp add: enter_waiting_def)
  show ?thesis
    using assms(1) w u
    by (auto simp: run_workers_def fail_run_def dest: run_testing_end split: wait_next.splits prod.splits option.splits)
qed



end
