(* ===== verification/Remote_Worker.thy ===== *)
theory Remote_Worker
  imports Load_Coordinator "HOL-Library.Sublist"
begin

section \<open>The coordinator's side of a worker (remote_worker.go)\<close>

text \<open>
  A \<open>remoteWorker\<close> is the coordinator's end of one connection.  Its event loop has an explicit
  program point, and each operation is a function on its state and what the socket answers.
  The messages that reached the connection are kept in \<open>rw_out\<close>; a control message of the
  coordinator is a pair of the new state and an error text.
\<close>

datatype rw_pc =
    ReadingID
  | Registering
  | AwaitingReply
  | Accepting
  | WaitingStart
  | Updating
  | Forwarding workerMsg
  | Ending "go_error option"
  | Ended "go_error option"

record remote_worker =
  rw_id :: string
  rw_pc :: rw_pc
  rw_state :: string
  rw_txCount :: int
  rw_metric :: "int option"
  stateCtrl :: "(string \<times> string) list"
  rw_reply :: "go_error option option"
  rw_resp :: "go_error option option"
  rw_stop :: bool
  rw_out :: "workerMsg list"

definition newRemoteWorker :: remote_worker where
  "newRemoteWorker =
     \<lparr>rw_id = [], rw_pc = ReadingID, rw_state = workerConnected, rw_txCount = 0, rw_metric = None,
      stateCtrl = [], rw_reply = None, rw_resp = None, rw_stop = False, rw_out = []\<rparr>"

definition workerStateMetricValues :: "string \<Rightarrow> int" where
  "workerStateMetricValues st =
     (if st = workerConnected then 0 else if st = workerAccepted then 1
      else if st = workerRejected then 2 else if st = workerTesting then 3
      else if st = workerFailed then 4 else if st = workerCompleted then 5 else 0)"

text \<open>Writing to the socket: the message is on the connection unless the write failed.\<close>

definition rw_write :: "go_error option \<Rightarrow> workerMsg \<Rightarrow> remote_worker \<Rightarrow> remote_worker" where
  "rw_write res m rw = (case res of None \<Rightarrow> rw\<lparr>rw_out := rw_out rw @ [m]\<rparr> | Some _ \<Rightarrow> rw)"

definition state_msg :: "string \<Rightarrow> string \<Rightarrow> string \<Rightarrow> workerMsg" where
  "state_msg w st err = zero_msg\<lparr>W_ID := w, W_State := st, W_Error := err\<rparr>"

text \<open>The accessors; each runs under the lock of the remote worker.\<close>

abbreviation rw_setID :: "string \<Rightarrow> remote_worker \<Rightarrow> remote_worker" where
  "rw_setID w rw \<equiv> rw\<lparr>rw_id := w\<rparr>"

abbreviation rw_setTxCount :: "int \<Rightarrow> remote_worker \<Rightarrow> remote_worker" where
  "rw_setTxCount n rw \<equiv> rw\<lparr>rw_txCount := n\<rparr>"

abbreviation rw_getState :: "remote_worker \<Rightarrow> string" where
  "rw_getState rw \<equiv> rw_state rw"

text \<open>\<open>setState\<close> sets the gauge too, once there is one.\<close>

definition rw_setState :: "string \<Rightarrow> remote_worker \<Rightarrow> remote_worker" where
  "rw_setState newState rw =
     rw\<lparr>rw_state := newState,
        rw_metric := (case rw_metric rw of None \<Rightarrow> None | Some _ \<Rightarrow> Some (workerStateMetricValues newState))\<rparr>"

subsection \<open>The event loop\<close>

text \<open>\<open>readID\<close>, with the failure message the loop writes when it fails.\<close>

definition rw_readID :: "go_error + workerMsg \<Rightarrow> go_error option \<Rightarrow> remote_worker \<Rightarrow> remote_worker" where
  "rw_readID r res rw =
     (case (case r of Inl err \<Rightarrow> Inl err
            | Inr msg \<Rightarrow> if W_ID msg = [] then Inl ''expected non-nil ID for new worker'' else Inr msg) of
        Inl err \<Rightarrow> rw_write res (state_msg [] workerFailed err) (rw\<lparr>rw_pc := Ending (Some err)\<rparr>)
      | Inr msg \<Rightarrow> (rw_setID (W_ID msg) rw)\<lparr>rw_pc := Registering\<rparr>)"

text \<open>
  The answer to the registration, from the coordinator or from the timer: a rejection is told
  to the worker.
\<close>

definition rw_registered :: "go_error option \<Rightarrow> go_error option \<Rightarrow> remote_worker \<Rightarrow> remote_worker" where
  "rw_registered answer res rw =
     (case answer of
        None \<Rightarrow> rw\<lparr>rw_pc := Accepting\<rparr>
      | Some err \<Rightarrow> rw_write res (state_msg [] workerRejected err) (rw\<lparr>rw_pc := Ending (Some err)\<rparr>))"

text \<open>The acceptance with the configuration; a failed write counts as a failed registration.\<close>

definition rw_accept :: "config \<Rightarrow> go_error option \<Rightarrow> go_error option \<Rightarrow> remote_worker \<Rightarrow> remote_worker" where
  "rw_accept cfg res res' rw =
     (case res of
        None \<Rightarrow> rw_write None ((state_msg (rw_id rw) workerAccepted [])\<lparr>W_Config := Some cfg\<rparr>)
                  (rw\<lparr>rw_pc := WaitingStart, rw_metric := Some (workerStateMetricValues workerAccepted)\<rparr>)
      | Some err \<Rightarrow> rw_write res' (state_msg [] workerRejected err) (rw\<lparr>rw_pc := Ending (Some err)\<rparr>))"

text \<open>A control message taken in \<open>waitForStart\<close>.\<close>

definition rw_start_ctrl :: "string \<times> string \<Rightarrow> go_error option \<Rightarrow> remote_worker \<Rightarrow> remote_worker" where
  "rw_start_ctrl = (\<lambda>(newState, err) res rw.
     (let rw' = (rw_write res (state_msg (rw_id rw) newState err) rw)\<lparr>rw_resp := Some res\<rparr>
      in rw'\<lparr>rw_pc := if newState = workerTesting then Updating
              else Ending (Some (''expected next worker state to be \"'' @ workerTesting @
                     ''\", but was \"'' @ newState @ ''\"''))\<rparr>))"

text \<open>A control message taken in \<open>receiveTestingUpdates\<close>; any but a failure is dropped.\<close>

definition rw_update_ctrl :: "string \<times> string \<Rightarrow> go_error option \<Rightarrow> remote_worker \<Rightarrow> remote_worker" where
  "rw_update_ctrl = (\<lambda>(newState, err) res rw.
     (if newState = workerFailed
      then (rw_write res (state_msg (rw_id rw) newState err) rw)
             \<lparr>rw_resp := Some res, rw_pc := Ending (Some (''worker failed: '' @ err))\<rparr>
      else rw))"

text \<open>An update read from the worker on a tick.\<close>

definition rw_update :: "go_error + workerMsg \<Rightarrow> remote_worker \<Rightarrow> remote_worker" where
  "rw_update r rw =
     (case r of
        Inl err \<Rightarrow> rw\<lparr>rw_pc := Ending (Some (''failed to read from remote worker: '' @ err))\<rparr>
      | Inr msg \<Rightarrow>
        if W_State msg = workerFailed
        then rw\<lparr>rw_pc := Ending (Some (''remote worker failed: '' @ W_Error msg))\<rparr>
        else (rw_setTxCount (W_TxCount msg) rw)\<lparr>rw_pc := Forwarding msg\<rparr>)"

text \<open>After the update was passed on to the coordinator.\<close>

definition rw_forwarded :: "workerMsg \<Rightarrow> remote_worker \<Rightarrow> remote_worker" where
  "rw_forwarded msg rw =
     (if W_State msg = workerCompleted
      then rw\<lparr>rw_metric := Some (workerStateMetricValues workerCompleted), rw_pc := Ending None\<rparr>
      else rw\<lparr>rw_pc := Updating\<rparr>)"

definition rw_stopped :: "remote_worker \<Rightarrow> remote_worker" where
  "rw_stopped rw =
     (case rw_pc rw of
        WaitingStart \<Rightarrow> rw\<lparr>rw_pc := Ending (Some ''wait cancelled'')\<rparr>
      | Updating \<Rightarrow> rw\<lparr>rw_pc := Ending (Some ''update receiver cancelled'')\<rparr>
      | _ \<Rightarrow> rw)"

text \<open>\<open>sendCtrlMsg\<close> in two parts: the request, and what its sender does with a nil answer.\<close>

definition rw_send_ctrl :: "string \<Rightarrow> string \<Rightarrow> remote_worker \<Rightarrow> remote_worker" where
  "rw_send_ctrl newState err rw = rw\<lparr>stateCtrl := stateCtrl rw @ [(newState, err)], rw_resp := None\<rparr>"

definition rw_set_state :: "string \<Rightarrow> remote_worker \<Rightarrow> remote_worker" where
  "rw_set_state newState rw = (rw_setState newState rw)\<lparr>rw_metric := Some (workerStateMetricValues newState)\<rparr>"

lemma rw_set_state_eq:
  "rw_set_state newState rw = rw\<lparr>rw_state := newState, rw_metric := Some (workerStateMetricValues newState)\<rparr>"
  by (simp add: rw_set_state_def rw_setState_def)

abbreviation rw_StartLoadTest :: "remote_worker \<Rightarrow> remote_worker" where
  "rw_StartLoadTest rw \<equiv> rw_send_ctrl workerTesting [] rw"

text \<open>\<open>Fail\<close>: nothing to do for a worker that failed already.\<close>

definition rw_Fail :: "string \<Rightarrow> remote_worker \<Rightarrow> remote_worker" where
  "rw_Fail err rw = (if rw_getState rw = workerFailed then rw else rw_send_ctrl workerFailed err rw)"

definition rw_Stop :: "remote_worker \<Rightarrow> remote_worker" where
  "rw_Stop rw = rw\<lparr>rw_stop := True\<rparr>"

text \<open>
  One step of the event loop that needs nothing but the socket and its own channels; \<open>reads\<close> says
  what a read of the socket may give.
\<close>

inductive rw_local :: "(go_error + workerMsg \<Rightarrow> bool) \<Rightarrow> config \<Rightarrow> remote_worker \<Rightarrow> remote_worker \<Rightarrow> bool"
    for reads cfg where
  read_id: "rw_pc rw = ReadingID \<Longrightarrow> reads r \<Longrightarrow> rw_local reads cfg rw (rw_readID r res rw)"
| reply: "rw_pc rw = AwaitingReply \<Longrightarrow> rw_reply rw = Some answer \<Longrightarrow>
    rw_local reads cfg rw (rw_registered answer res rw)"
| reply_timeout: "rw_pc rw = AwaitingReply \<Longrightarrow> rw_local reads cfg rw
    (rw_registered (Some ''timed out while attempting to register remote worker'') res rw)"
| accept: "rw_pc rw = Accepting \<Longrightarrow> rw_local reads cfg rw (rw_accept cfg res res' rw)"
| start_ctrl: "rw_pc rw = WaitingStart \<Longrightarrow> stateCtrl rw = m # ms \<Longrightarrow>
    rw_local reads cfg rw (rw_start_ctrl m res (rw\<lparr>stateCtrl := ms\<rparr>))"
| update_ctrl: "rw_pc rw = Updating \<Longrightarrow> stateCtrl rw = m # ms \<Longrightarrow>
    rw_local reads cfg rw (rw_update_ctrl m res (rw\<lparr>stateCtrl := ms\<rparr>))"
| update: "rw_pc rw = Updating \<Longrightarrow> reads r \<Longrightarrow> rw_local reads cfg rw (rw_update r rw)"
| stop_seen: "rw_pc rw \<in> {WaitingStart, Updating} \<Longrightarrow> rw_stop rw \<Longrightarrow> rw_local reads cfg rw (rw_stopped rw)"

subsection \<open>What a worker is told\<close>

definition told :: "remote_worker \<Rightarrow> string list" where
  "told rw = map W_State (rw_out rw)"

text \<open>The messages a worker can have been sent, by program point.\<close>

definition told_ok :: "remote_worker \<Rightarrow> bool" where
  "told_ok rw \<longleftrightarrow>
     told rw \<in>
     (case rw_pc rw of
        ReadingID \<Rightarrow> {[]}
      | Registering \<Rightarrow> {[]}
      | AwaitingReply \<Rightarrow> {[]}
      | Accepting \<Rightarrow> {[]}
      | WaitingStart \<Rightarrow> {[workerAccepted]}
      | Updating \<Rightarrow> {[workerAccepted], [workerAccepted, workerTesting]}
      | Forwarding _ \<Rightarrow> {[workerAccepted], [workerAccepted, workerTesting]}
      | _ \<Rightarrow> {[], [workerFailed], [workerRejected], [workerAccepted], [workerAccepted, workerTesting],
               [workerAccepted, workerFailed], [workerAccepted, workerTesting, workerFailed]}) \<and>
     (\<forall>m \<in> set (stateCtrl rw). fst m = workerTesting \<or> fst m = workerFailed)"

lemma told_write [simp]:
  "told (rw_write res m rw) = (case res of None \<Rightarrow> told rw @ [W_State m] | Some _ \<Rightarrow> told rw)"
  "rw_pc (rw_write res m rw) = rw_pc rw" "stateCtrl (rw_write res m rw) = stateCtrl rw"
  "rw_id (rw_write res m rw) = rw_id rw"
  by (simp_all add: told_def rw_write_def split: option.split)

lemma told_update [simp]:
  "told (rw_pc_update f rw) = told rw" "told (rw_id_update g rw) = told rw"
  "told (stateCtrl_update h rw) = told rw" "told (rw_resp_update i rw) = told rw"
  "told (rw_metric_update j rw) = told rw" "told (rw_txCount_update k rw) = told rw"
  "told (rw_state_update l rw) = told rw" "told (rw_stop_update m rw) = told rw"
  "told (rw_reply_update n rw) = told rw"
  by (simp_all add: told_def)

lemma state_msg_state [simp]: "W_State (state_msg w st e) = st"
  by (simp add: state_msg_def)

lemma rw_local_told:
  assumes "rw_local reads cfg rw rw'" and "told_ok rw"
  shows "told_ok rw'"
  using assms(1)
proof (cases rule: rw_local.cases)
  case (start_ctrl m ms res)
  with assms(2) have "told rw = [workerAccepted]" "fst m = workerTesting \<or> fst m = workerFailed"
    "\<forall>m \<in> set ms. fst m = workerTesting \<or> fst m = workerFailed"
    by (simp_all add: told_ok_def)
  then show ?thesis
    unfolding start_ctrl(1) by (auto simp: told_ok_def rw_start_ctrl_def split: option.splits prod.splits)
next
  case (update_ctrl m ms res)
  with assms(2) have "told rw = [workerAccepted] \<or> told rw = [workerAccepted, workerTesting]"
    "\<forall>m \<in> set ms. fst m = workerTesting \<or> fst m = workerFailed"
    by (auto simp: told_ok_def)
  then show ?thesis
    using update_ctrl(2)
    unfolding update_ctrl(1) by (auto simp: told_ok_def rw_update_ctrl_def split: option.splits prod.splits)
next
  case (read_id r res)
  with assms(2) show ?thesis
    by (auto simp: told_ok_def rw_readID_def split: sum.splits option.splits)
next
  case (reply answer res)
  with assms(2) show ?thesis
    by (auto simp: told_ok_def rw_registered_def split: option.splits)
next
  case (reply_timeout res)
  with assms(2) show ?thesis
    by (auto simp: told_ok_def rw_registered_def split: option.splits)
next
  case (accept res res')
  with assms(2) show ?thesis
    by (auto simp: told_ok_def rw_accept_def split: option.splits)
next
  case (update r)
  with assms(2) show ?thesis
    by (auto simp: told_ok_def rw_update_def split: sum.splits)
next
  case stop_seen
  with assms(2) show ?thesis
    by (auto simp: told_ok_def rw_stopped_def)
qed

text \<open>The operations the coordinator and the channels perform on a remote worker keep it too.\<close>

lemma told_ok_simps [simp]:
  "told_ok (rw_Stop rw) = told_ok rw" "told_ok (rw_set_state st rw) = told_ok rw"
  "told_ok (rw\<lparr>rw_reply := r\<rparr>) = told_ok rw" "told_ok (rw\<lparr>rw_resp := r\<rparr>) = told_ok rw"
  "told_ok newRemoteWorker"
  by (simp_all add: told_ok_def rw_Stop_def rw_set_state_eq newRemoteWorker_def told_def)

lemma told_ok_send: "told_ok rw \<Longrightarrow> st \<in> {workerTesting, workerFailed} \<Longrightarrow> told_ok (rw_send_ctrl st err rw)"
  by (auto simp: told_ok_def rw_send_ctrl_def)

lemma told_ok_fail: "told_ok rw \<Longrightarrow> told_ok (rw_Fail err rw)"
  by (simp add: rw_Fail_def told_ok_send)

lemma told_ok_forwarded: "told_ok rw \<Longrightarrow> rw_pc rw = Forwarding m \<Longrightarrow> told_ok (rw_forwarded m rw)"
  by (auto simp: told_ok_def rw_forwarded_def)

lemma told_ok_pc:
  "told_ok rw \<Longrightarrow> rw_pc rw = Registering \<Longrightarrow> told_ok (rw\<lparr>rw_pc := AwaitingReply\<rparr>)"
  "told_ok rw \<Longrightarrow> rw_pc rw = Ending e \<Longrightarrow> told_ok (rw\<lparr>rw_pc := Ended e\<rparr>)"
  by (simp_all add: told_ok_def)

lemma told_ok_subseq:
  "told_ok rw \<Longrightarrow> told rw = [workerRejected] \<or> subseq (told rw) [workerAccepted, workerTesting, workerFailed]"
proof -
  have "workerFailed \<noteq> workerTesting" "workerFailed \<noteq> workerAccepted" by (simp_all add: worker_states)
  then show "told_ok rw \<Longrightarrow> ?thesis" by (auto simp: told_ok_def split: rw_pc.splits)
qed

end
