(* ===== verification/Coord_System.thy ===== *)
theory Coord_System
  imports Remote_Worker
begin

section \<open>The coordinator and its remote workers together\<close>

text \<open>
  The goroutines of one coordinator process: \<open>Coordinator.Run\<close> and one event loop per incoming
  connection, joined by the three channels \<open>workerRegister\<close>, \<open>workerUnregister\<close> and
  \<open>workerUpdate\<close>, the answers to registrations and the control messages.  A channel is a queue
  of at most \<open>ExpectWorkers\<close> entries; a send waits for room.  Every step is a step of one of the
  component operations; the scheduler, the network and the clock choose among them.
\<close>

datatype coord_pc =
    C_Waiting
  | C_Starting "(string \<times> nat) list"
  | C_AwaitStart nat "(string \<times> nat) list"
  | C_Testing
  | C_Returned "go_error option"

record system =
  coord :: coordinator
  completed :: int
  cpc :: coord_pc
  rws :: "remote_worker list"
  q_register :: "nat list"
  q_unregister :: "(string \<times> go_error option) list"
  q_update :: "workerMsg list"

definition system_start :: "config \<Rightarrow> coordinator_config \<Rightarrow> system" where
  "system_start cfg ccfg =
     \<lparr>coord = enter_waiting (NewCoordinator cfg ccfg), completed = 0, cpc = C_Waiting, rws = [],
      q_register = [], q_unregister = [], q_update = []\<rparr>"

definition room :: "system \<Rightarrow> 'a list \<Rightarrow> bool" where
  "room s q \<longleftrightarrow> int (length q) < expectedWorkers (coord s)"

abbreviation RegisterRemoteWorker :: "nat \<Rightarrow> system \<Rightarrow> system" where
  "RegisterRemoteWorker k s \<equiv> s\<lparr>q_register := q_register s @ [k]\<rparr>"

abbreviation UnregisterRemoteWorker :: "string \<Rightarrow> go_error option \<Rightarrow> system \<Rightarrow> system" where
  "UnregisterRemoteWorker w err s \<equiv> s\<lparr>q_unregister := q_unregister s @ [(w, err)]\<rparr>"

abbreviation ReceiveWorkerUpdate :: "workerMsg \<Rightarrow> system \<Rightarrow> system" where
  "ReceiveWorkerUpdate m s \<equiv> s\<lparr>q_update := q_update s @ [m]\<rparr>"

definition set_rw :: "nat \<Rightarrow> remote_worker \<Rightarrow> system \<Rightarrow> system" where
  "set_rw k rw s = s\<lparr>rws := (rws s)[k := rw]\<rparr>"

text \<open>
  The end of \<open>Run\<close>: on an error the workers still registered are told to fail, then all of them
  are stopped.  The answers of the failing workers are not used.
\<close>

definition stop_rw :: "go_error option \<Rightarrow> coordinator \<Rightarrow> nat \<Rightarrow> remote_worker \<Rightarrow> remote_worker" where
  "stop_rw res c k rw =
     (if k \<in> set (gvals (workers c))
      then rw_Stop (case res of None \<Rightarrow> rw | Some err \<Rightarrow> rw_Fail err rw) else rw)"

definition finish :: "go_error option \<Rightarrow> system \<Rightarrow> system" where
  "finish res s =
     s\<lparr>coord := (coord s)\<lparr>stateMetric := if res = None then coordCompleted else coordFailed\<rparr>,
       cpc := C_Returned res,
       rws := map (\<lambda>(k, rw). stop_rw res (coord s) k rw) (zip [0..<length (rws s)] (rws s))\<rparr>"

text \<open>The answer to a registration goes to the goroutine that asked.\<close>

definition answer_reg :: "wait_event \<Rightarrow> go_error option option \<Rightarrow> system \<Rightarrow> system" where
  "answer_reg ev resp s =
     (case (ev, resp) of
        (RegisterReq _ k, Some r) \<Rightarrow> set_rw k ((rws s ! k)\<lparr>rw_reply := Some r\<rparr>) s
      | _ \<Rightarrow> s)"

text \<open>What one pass of \<open>waitForWorkers\<close> does to the system.\<close>

definition do_wait :: "wait_event \<Rightarrow> ((string, nat) gomap \<Rightarrow> (string \<times> nat) list) \<Rightarrow> system \<Rightarrow> system" where
  "do_wait ev order s =
     (let (c, resp, nxt) = wait_step ev (coord s);
          s' = answer_reg ev resp (s\<lparr>coord := c\<rparr>)
      in case nxt of
           KeepWaiting \<Rightarrow> s'
         | AllConnected \<Rightarrow> s'\<lparr>cpc := C_Starting (order (workers c))\<rparr>
         | WaitFailed err \<Rightarrow> finish (Some err) s')"

text \<open>What one pass of \<open>receiveTestingUpdates\<close> does to the system.\<close>

definition do_test :: "test_event \<Rightarrow> system \<Rightarrow> system" where
  "do_test ev s =
     (let ((c, n), r) = test_step ev (coord s, completed s);
          s1 = s\<lparr>coord := c, completed := n\<rparr>
      in case r of None \<Rightarrow> s1 | Some res \<Rightarrow> finish res (s1\<lparr>coord := leave_testing c\<rparr>))"

text \<open>\<open>reads k\<close> says what the socket of connection \<open>k\<close> may give; any message, and any error, for the
  coordinator on its own.\<close>

inductive sys_step :: "(nat \<Rightarrow> go_error + workerMsg \<Rightarrow> bool) \<Rightarrow> system \<Rightarrow> system \<Rightarrow> bool" for reads where
  connect: "sys_step reads s (s\<lparr>rws := rws s @ [newRemoteWorker]\<rparr>)"
| local: "k < length (rws s) \<Longrightarrow> rw_local (reads k) (coord_config (coord s)) (rws s ! k) rw' \<Longrightarrow> sys_step reads s (set_rw k rw' s)"
| ask_register: "k < length (rws s) \<Longrightarrow> rw_pc (rws s ! k) = Registering \<Longrightarrow> room s (q_register s) \<Longrightarrow>
    sys_step reads s (set_rw k ((rws s ! k)\<lparr>rw_pc := AwaitingReply\<rparr>) (RegisterRemoteWorker k s))"
| forward: "k < length (rws s) \<Longrightarrow> rw_pc (rws s ! k) = Forwarding m \<Longrightarrow> room s (q_update s) \<Longrightarrow>
    sys_step reads s (set_rw k (rw_forwarded m (rws s ! k)) (ReceiveWorkerUpdate m s))"
| unregister: "k < length (rws s) \<Longrightarrow> rw_pc (rws s ! k) = Ending e \<Longrightarrow> room s (q_unregister s) \<Longrightarrow>
    sys_step reads s (set_rw k ((rws s ! k)\<lparr>rw_pc := Ended e\<rparr>)
      (UnregisterRemoteWorker (rw_id (rws s ! k)) e s))"
| take_register: "cpc s = C_Waiting \<Longrightarrow> q_register s = k # q \<Longrightarrow> k < length (rws s) \<Longrightarrow>
    \<forall>m. ranges_over (order m) m \<Longrightarrow>
    sys_step reads s (do_wait (RegisterReq (rw_id (rws s ! k)) k) order (s\<lparr>q_register := q\<rparr>))"
| take_unregister: "cpc s = C_Waiting \<Longrightarrow> q_unregister s = (w, e) # q \<Longrightarrow>
    sys_step reads s (do_wait (UnregisterReq w) order (s\<lparr>q_unregister := q\<rparr>))"
| wait_ends: "cpc s = C_Waiting \<Longrightarrow> ev \<in> {ConnectTimeout, WaitStop, WaitServerStopped} \<Longrightarrow>
    sys_step reads s (do_wait ev order s)"
| tell_start: "cpc s = C_Starting ((w, k) # ws) \<Longrightarrow> k < length (rws s) \<Longrightarrow>
    length (stateCtrl (rws s ! k)) < 3 \<Longrightarrow>
    sys_step reads s (set_rw k (rw_StartLoadTest (rws s ! k)) (s\<lparr>cpc := C_AwaitStart k ws\<rparr>))"
| start_answer: "cpc s = C_AwaitStart k ws \<Longrightarrow> k < length (rws s) \<Longrightarrow> rw_resp (rws s ! k) = Some None \<Longrightarrow>
    sys_step reads s (set_rw k (rw_set_state workerTesting (rws s ! k)) (s\<lparr>cpc := C_Starting ws\<rparr>))"
| start_fails: "cpc s = C_AwaitStart k ws \<Longrightarrow> k < length (rws s) \<Longrightarrow> rw_resp (rws s ! k) = Some (Some err) \<Longrightarrow>
    sys_step reads s (finish (Some err) s)"
| start_timeout: "cpc s = C_AwaitStart k ws \<Longrightarrow>
    sys_step reads s (finish (Some ''timed out waiting for response for control message'') s)"
| all_started: "cpc s = C_Starting [] \<Longrightarrow>
    sys_step reads s (s\<lparr>cpc := C_Testing, coord := enter_testing now (coord s), completed := 0\<rparr>)"
| test_update: "cpc s = C_Testing \<Longrightarrow> q_update s = m # q \<Longrightarrow>
    sys_step reads s (do_test (WorkerUpdate m now) (s\<lparr>q_update := q\<rparr>))"
| test_unregister: "cpc s = C_Testing \<Longrightarrow> q_unregister s = (w, e) # q \<Longrightarrow>
    sys_step reads s (do_test (WorkerUnregister w e) (s\<lparr>q_unregister := q\<rparr>))"
| test_timer: "cpc s = C_Testing \<Longrightarrow> sys_step reads s (do_test (ProgressTimer now) s)"
| test_ends: "cpc s = C_Testing \<Longrightarrow> ev \<in> {TestStop, TestServerStopped} \<Longrightarrow> sys_step reads s (do_test ev s)"

text \<open>A system whose sockets give more can do more.\<close>

lemma rw_local_mono: "rw_local reads cfg rw rw' \<Longrightarrow> (\<And>r. reads r \<Longrightarrow> reads' r) \<Longrightarrow> rw_local reads' cfg rw rw'"
  by (erule rw_local.cases) (auto intro: rw_local.intros)

lemma sys_step_mono: "sys_step reads s t \<Longrightarrow> (\<And>k r. reads k r \<Longrightarrow> reads' k r) \<Longrightarrow> sys_step reads' s t"
  by (erule sys_step.cases; hypsubst; rule sys_step.intros; (assumption | blast intro: rw_local_mono)?)

subsection \<open>Frame facts of the steps\<close>

definition pcs :: "system \<Rightarrow> rw_pc list" where
  "pcs s = map rw_pc (rws s)"

lemma stop_rw_fields [simp]:
  "rw_pc (stop_rw res c k rw) = rw_pc rw" "told (stop_rw res c k rw) = told rw"
  "rw_id (stop_rw res c k rw) = rw_id rw" "rw_txCount (stop_rw res c k rw) = rw_txCount rw"
  by (simp_all add: stop_rw_def rw_Stop_def rw_Fail_def rw_send_ctrl_def told_def split: option.split)

lemma told_ok_stop_rw: "told_ok rw \<Longrightarrow> told_ok (stop_rw res c k rw)"
  by (simp add: stop_rw_def told_ok_fail split: option.split)

lemma rw_fields [simp]:
  "rw_pc (rw_send_ctrl st err rw) = rw_pc rw" "rw_pc (rw_set_state st rw) = rw_pc rw"
  by (simp_all add: rw_send_ctrl_def rw_set_state_eq)

lemma pcs_set_rw [simp]: "pcs (set_rw k rw s) = (pcs s)[k := rw_pc rw]"
  by (simp add: pcs_def set_rw_def map_update)

lemma set_rw_fields [simp]:
  "coord (set_rw k rw s) = coord s" "completed (set_rw k rw s) = completed s"
  "cpc (set_rw k rw s) = cpc s" "q_update (set_rw k rw s) = q_update s"
  "rws (set_rw k rw s) = (rws s)[k := rw]" "q_register (set_rw k rw s) = q_register s"
  "q_unregister (set_rw k rw s) = q_unregister s"
  by (simp_all add: set_rw_def)

lemma pcs_update [simp]:
  "pcs (s\<lparr>coord := c\<rparr>) = pcs s" "pcs (s\<lparr>completed := n\<rparr>) = pcs s" "pcs (s\<lparr>cpc := p\<rparr>) = pcs s"
  "pcs (s\<lparr>q_register := q\<rparr>) = pcs s" "pcs (s\<lparr>q_unregister := u\<rparr>) = pcs s" "pcs (s\<lparr>q_update := v\<rparr>) = pcs s"
  "pcs (s\<lparr>rws := r\<rparr>) = map rw_pc r"
  by (simp_all add: pcs_def)

lemma finish_fields [simp]:
  "completed (finish res s) = completed s" "cpc (finish res s) = C_Returned res"
  "q_update (finish res s) = q_update s" "workers (coord (finish res s)) = workers (coord s)"
  "coordCfg (coord (finish res s)) = coordCfg (coord s)" "length (rws (finish res s)) = length (rws s)"
  by (simp_all add: finish_def)

lemma rws_finish: "k < length (rws s) \<Longrightarrow> rws (finish res s) ! k = stop_rw res (coord s) k (rws s ! k)"
  by (simp add: finish_def)

lemma pcs_finish [simp]: "pcs (finish res s) = pcs s"
  by (intro nth_equalityI) (simp_all add: pcs_def rws_finish)

lemma answer_reg_fields [simp]:
  "coord (answer_reg ev resp s) = coord s" "completed (answer_reg ev resp s) = completed s"
  "cpc (answer_reg ev resp s) = cpc s" "q_update (answer_reg ev resp s) = q_update s"
  by (simp_all add: answer_reg_def split: wait_event.split option.split)

lemma pcs_answer_reg [simp]: "pcs (answer_reg ev resp s) = pcs s"
proof -
  have "(pcs s)[k := rw_pc (rws s ! k)] = pcs s" for k
    by (cases "k < length (rws s)") (simp_all add: pcs_def flip: map_update)
  then show ?thesis by (simp add: answer_reg_def split: wait_event.split option.split)
qed

lemma pcs_do_wait [simp]: "pcs (do_wait ev order s) = pcs s"
  by (simp add: do_wait_def Let_def split: prod.split wait_next.split)

lemma pcs_do_test [simp]: "pcs (do_test ev s) = pcs s"
  by (auto simp: do_test_def Let_def split: prod.splits option.splits)

lemma do_wait_fields [simp]:
  "completed (do_wait ev order s) = completed s" "q_update (do_wait ev order s) = q_update s"
  by (simp_all add: do_wait_def Let_def split: prod.split wait_next.split)

lemma do_test_fields [simp]: "q_update (do_test ev s) = q_update s"
  by (auto simp: do_test_def Let_def split: prod.splits option.splits)

lemma coordCfg_test_step: "test_step ev (c, n) = ((c', n'), r) \<Longrightarrow> coordCfg c' = coordCfg c"
  by (rule test_step_counts(3))

lemma coordCfg_do_wait [simp]: "coordCfg (coord (do_wait ev order s)) = coordCfg (coord s)"
proof -
  obtain c resp nxt where "wait_step ev (coord s) = (c, resp, nxt)" by (rule prod_cases3)
  with coordCfg_wait_step [of ev "coord s"] show ?thesis
    by (simp add: do_wait_def Let_def split: wait_next.split)
qed

lemma coordCfg_do_test [simp]: "coordCfg (coord (do_test ev s)) = coordCfg (coord s)"
  using coordCfg_test_step [of ev "coord s" "completed s"]
  by (auto simp: do_test_def Let_def leave_testing_def split: prod.splits option.splits)

subsection \<open>What a step does to each remote worker\<close>

text \<open>The coordinator's own passes leave each remote worker where it is.\<close>

definition still :: "remote_worker \<Rightarrow> remote_worker \<Rightarrow> bool" where
  "still rw rw' \<longleftrightarrow> rw_id rw' = rw_id rw \<and> rw_pc rw' = rw_pc rw \<and> told rw' = told rw \<and> rw_txCount rw' = rw_txCount rw"

lemma still_stop_rw: "still rw (stop_rw res c k rw)"
  by (simp add: still_def)

lemma nth_update_in: "i < length xs \<Longrightarrow> xs[k := y] ! i = (if i = k then y else xs ! i)"
  by (cases "i = k") simp_all

lemma answer_reg_quiet:
  "length (rws (answer_reg ev resp s)) = length (rws s) \<and>
   (i < length (rws s) \<longrightarrow> still (rws s ! i) (rws (answer_reg ev resp s) ! i))"
  by (auto simp: answer_reg_def nth_update_in still_def split: wait_event.split option.split)

lemma do_wait_quiet:
  "length (rws (do_wait ev order s)) = length (rws s) \<and>
   (i < length (rws s) \<longrightarrow> still (rws s ! i) (rws (do_wait ev order s) ! i))"
proof -
  obtain c resp nxt where 1: "wait_step ev (coord s) = (c, resp, nxt)" by (rule prod_cases3)
  show ?thesis
    using answer_reg_quiet [where ev = ev and resp = resp and s = "s\<lparr>coord := c\<rparr>" and i = i] 1
    by (auto simp: do_wait_def Let_def rws_finish still_def split: wait_next.split)
qed

lemma do_test_quiet:
  "length (rws (do_test ev s)) = length (rws s) \<and>
   (i < length (rws s) \<longrightarrow> still (rws s ! i) (rws (do_test ev s) ! i))"
proof -
  obtain c n r where "test_step ev (coord s, completed s) = ((c, n), r)" by (metis prod.exhaust)
  then show ?thesis by (simp add: do_test_def Let_def rws_finish still_def split: option.split)
qed

text \<open>
  A relation between a remote worker before and after: if the steps of its own event loop and its
  three moves through the channels are in the relation, and whatever changes neither its id, nor its
  program point, nor what it was told, nor its count, then every step of the system relates every remote worker
  before to the one after; a new one is as \<open>newRemoteWorker\<close> makes it.
\<close>

locale remote_relation =
  fixes reads :: "nat \<Rightarrow> go_error + workerMsg \<Rightarrow> bool"
    and R :: "remote_worker \<Rightarrow> remote_worker \<Rightarrow> bool"
  assumes quiet: "still rw rw' \<Longrightarrow> R rw rw'"
    and local: "rw_local (reads k) cfg rw rw' \<Longrightarrow> R rw rw'"
    and asked: "rw_pc rw = Registering \<Longrightarrow> R rw (rw\<lparr>rw_pc := AwaitingReply\<rparr>)"
    and forwarded: "rw_pc rw = Forwarding m \<Longrightarrow> R rw (rw_forwarded m rw)"
    and ended: "rw_pc rw = Ending e \<Longrightarrow> R rw (rw\<lparr>rw_pc := Ended e\<rparr>)"
begin

lemma relates_set: "k < length (rws s) \<Longrightarrow> R (rws s ! k) rw \<Longrightarrow> i < length (rws s) \<Longrightarrow> R (rws s ! i) ((rws s)[k := rw] ! i)"
  by (auto simp: nth_update_in still_def intro: quiet)

lemma step:
  assumes "sys_step reads s t"
  shows "length (rws s) \<le> length (rws t)" and "i < length (rws s) \<Longrightarrow> R (rws s ! i) (rws t ! i)"
    and "length (rws s) \<le> i \<Longrightarrow> i < length (rws t) \<Longrightarrow> rws t ! i = newRemoteWorker"
proof -
  have "length (rws s) \<le> length (rws t) \<and> (i < length (rws s) \<longrightarrow> R (rws s ! i) (rws t ! i)) \<and>
    (length (rws s) \<le> i \<longrightarrow> i < length (rws t) \<longrightarrow> rws t ! i = newRemoteWorker)"
    using assms
  proof (cases rule: sys_step.cases)
    case (take_register k q order)
    then show ?thesis using do_wait_quiet [where i = i and s = "s\<lparr>q_register := q\<rparr>"] by (auto intro: quiet)
  next
    case (take_unregister w e q order)
    then show ?thesis using do_wait_quiet [where i = i and s = "s\<lparr>q_unregister := q\<rparr>"] by (auto intro: quiet)
  next
    case (wait_ends ev order)
    then show ?thesis using do_wait_quiet [where i = i and s = s] by (auto intro: quiet)
  next
    case (test_update m q now)
    then show ?thesis using do_test_quiet [where i = i and s = "s\<lparr>q_update := q\<rparr>"] by (auto intro: quiet)
  next
    case (test_unregister w e q)
    then show ?thesis using do_test_quiet [where i = i and s = "s\<lparr>q_unregister := q\<rparr>"] by (auto intro: quiet)
  next
    case (test_timer now)
    then show ?thesis using do_test_quiet [where i = i and s = s] by (auto intro: quiet)
  next
    case (test_ends ev)
    then show ?thesis using do_test_quiet [where i = i and s = s] by (auto intro: quiet)
  qed (auto simp: nth_append nth_update_in rws_finish rw_send_ctrl_def rw_set_state_eq still_def
      intro: quiet local asked forwarded ended)
  then show "length (rws s) \<le> length (rws t)" "i < length (rws s) \<Longrightarrow> R (rws s ! i) (rws t ! i)"
    "length (rws s) \<le> i \<Longrightarrow> i < length (rws t) \<Longrightarrow> rws t ! i = newRemoteWorker" by blast+
qed

end

subsection \<open>No worker is counted that has not completed\<close>

definition pc_done :: "rw_pc \<Rightarrow> bool" where
  "pc_done p \<longleftrightarrow> p = Ending None \<or> p = Ended None"

definition dones :: "system \<Rightarrow> int" where
  "dones s = int (length (filter pc_done (pcs s)))"

lemma length_filter_update:
  "k < length xs \<Longrightarrow> int (length (filter P (xs[k := y]))) =
     int (length (filter P xs)) - of_bool (P (xs ! k)) + of_bool (P y)"
proof (induction xs arbitrary: k)
  case (Cons x xs)
  then show ?case by (cases k) auto
qed simp

lemma rw_local_not_done:
  assumes "rw_local reads cfg rw rw'"
  shows "\<not> pc_done (rw_pc rw)" and "\<not> pc_done (rw_pc rw')"
  using assms
  by (cases rule: rw_local.cases; auto simp: pc_done_def rw_readID_def rw_registered_def rw_accept_def
      rw_start_ctrl_def rw_update_ctrl_def rw_update_def rw_stopped_def Let_def
      split: sum.splits option.splits prod.splits if_splits rw_pc.splits)+

definition completion_ok :: "coordinator_config \<Rightarrow> system \<Rightarrow> bool" where
  "completion_ok ccfg s \<longleftrightarrow> coordCfg (coord s) = ccfg \<and> 0 \<le> completed s \<and>
     completed s + completions (q_update s) \<le> dones s \<and>
     (cpc s = C_Returned None \<longrightarrow> ExpectWorkers ccfg \<le> completed s)"

lemma completions_nonneg: "0 \<le> completions ms"
  by (simp add: completions_def)

lemma test_step_completed:
  assumes "test_step ev (c, n) = ((c', n'), r)"
  shows "n \<le> n' \<and> n' \<le> n + completions (case ev of WorkerUpdate m _ \<Rightarrow> [m] | _ \<Rightarrow> []) \<and>
    (r = Some None \<longrightarrow> expectedWorkers c \<le> n')"
  using assms
  by (cases ev) (auto simp: test_step_def handle_update_def Let_def split: if_splits option.splits)

lemma do_test_completed:
  "completed s \<le> completed (do_test ev s) \<and>
   completed (do_test ev s) \<le> completed s + completions (case ev of WorkerUpdate m _ \<Rightarrow> [m] | _ \<Rightarrow> []) \<and>
   (cpc (do_test ev s) = C_Returned None \<and> cpc s \<noteq> C_Returned None \<longrightarrow>
      expectedWorkers (coord s) \<le> completed (do_test ev s))"
  using test_step_completed [of ev "coord s" "completed s"]
  by (auto simp: do_test_def Let_def split: prod.splits option.splits)

lemma do_wait_not_nil: "cpc s \<noteq> C_Returned None \<Longrightarrow> cpc (do_wait ev order s) \<noteq> C_Returned None"
  by (simp add: do_wait_def Let_def split: prod.split wait_next.split)

lemma sys_step_completion_ok:
  assumes "sys_step reads s s'" and "completion_ok ccfg s"
  shows "completion_ok ccfg s'"
  using assms(1)
proof (cases rule: sys_step.cases)
  case connect
  with assms(2) show ?thesis
    by (simp add: completion_ok_def dones_def pc_done_def newRemoteWorker_def) (simp add: pcs_def)
next
  case (local k rw')
  with assms(2) rw_local_not_done [OF local(3)] show ?thesis
    by (simp add: completion_ok_def dones_def length_filter_update pcs_def)
next
  case (ask_register k)
  with assms(2) show ?thesis
    by (simp add: completion_ok_def dones_def length_filter_update pcs_def pc_done_def)
next
  case (forward k m)
  with assms(2) show ?thesis
    by (simp add: completion_ok_def dones_def length_filter_update pcs_def pc_done_def rw_forwarded_def)
next
  case (unregister k e)
  with assms(2) show ?thesis
    by (simp add: completion_ok_def dones_def length_filter_update pcs_def pc_done_def)
next
  case (take_register k q order)
  with assms(2) show ?thesis by (simp add: completion_ok_def dones_def do_wait_not_nil)
next
  case (take_unregister w e q order)
  with assms(2) show ?thesis by (simp add: completion_ok_def dones_def do_wait_not_nil)
next
  case (wait_ends ev order)
  with assms(2) show ?thesis by (simp add: completion_ok_def dones_def do_wait_not_nil)
next
  case (tell_start w k ws)
  with assms(2) show ?thesis
    by (simp add: completion_ok_def dones_def length_filter_update pcs_def)
next
  case (start_answer k ws)
  with assms(2) show ?thesis
    by (simp add: completion_ok_def dones_def length_filter_update pcs_def)
next
  case (all_started now)
  with assms(2) completions_nonneg [of "q_update s"] show ?thesis
    by (simp add: completion_ok_def dones_def)
next
  case (test_update m q now)
  with assms(2) do_test_completed [of "s\<lparr>q_update := q\<rparr>" "WorkerUpdate m now"] show ?thesis
    by (auto simp: completion_ok_def dones_def)
next
  case (test_unregister w e q)
  with assms(2) do_test_completed [of "s\<lparr>q_unregister := q\<rparr>" "WorkerUnregister w e"] show ?thesis
    by (auto simp: completion_ok_def dones_def)
next
  case (test_timer now)
  with assms(2) do_test_completed [of s "ProgressTimer now"] show ?thesis
    by (auto simp: completion_ok_def dones_def)
next
  case (test_ends ev)
  with assms(2) do_test_completed [of s ev] show ?thesis
    by (auto simp: completion_ok_def dones_def)
qed (use assms(2) in \<open>simp_all add: completion_ok_def dones_def\<close>)

interpretation sys_completion: kept_by_relation "sys_step reads" "completion_ok ccfg" for reads ccfg
  by unfold_locales (rule sys_step_completion_ok)

text \<open>C2: the coordinator reports success only if the work was done: in every schedule, with workers
  coming and going, when \<open>Run\<close> returns without error at least the expected number of
  connections have reported the completion of their load test.\<close>

theorem success_means_completed:
  assumes "(sys_step reads)\<^sup>*\<^sup>* (system_start cfg ccfg) s" and "cpc s = C_Returned None"
  shows "ExpectWorkers ccfg \<le> int (length (filter (\<lambda>rw. rw_pc rw \<in> {Ending None, Ended None}) (rws s)))"
proof -
  have "completion_ok ccfg (system_start cfg ccfg)"
    by (simp add: completion_ok_def system_start_def dones_def pcs_def enter_waiting_def NewCoordinator_def)
  with assms(1) have "completion_ok ccfg s" by (rule sys_completion.run_keeps)
  moreover have "0 \<le> completions (q_update s)" by (rule completions_nonneg)
  ultimately have "ExpectWorkers ccfg \<le> dones s" using assms(2)
    by (simp add: completion_ok_def)
  then show ?thesis by (simp add: dones_def pcs_def filter_map comp_def pc_done_def [abs_def])
qed

subsection \<open>A start that is a start for all\<close>

text \<open>
  While the coordinator waits, no worker has been told to test; while it starts the workers, it
  has all of them; and every worker has only been sent what the protocol allows.
\<close>

definition untold :: "remote_worker \<Rightarrow> bool" where
  "untold rw \<longleftrightarrow> workerTesting \<notin> set (told rw) \<and> (\<forall>m \<in> set (stateCtrl rw). fst m \<noteq> workerTesting)"

fun starting :: "coord_pc \<Rightarrow> bool" where
  "starting (C_Starting _) = True"
| "starting (C_AwaitStart _ _) = True"
| "starting _ = False"

definition start_ok :: "coordinator_config \<Rightarrow> system \<Rightarrow> bool" where
  "start_ok ccfg s \<longleftrightarrow> 1 \<le> ExpectWorkers ccfg \<and> coordCfg (coord s) = ccfg \<and> registry_ok (coord s) \<and>
     (\<forall>rw \<in> set (rws s). told_ok rw) \<and>
     (cpc s = C_Waiting \<longrightarrow> (\<forall>rw \<in> set (rws s). untold rw)) \<and>
     (starting (cpc s) \<longrightarrow> int (length (workers (coord s))) = ExpectWorkers ccfg)"

lemma rw_local_untold:
  assumes "rw_local reads cfg rw rw'" and "untold rw"
  shows "untold rw'"
  using assms
  by (cases rule: rw_local.cases)
    (auto simp: untold_def worker_states rw_readID_def rw_registered_def rw_accept_def rw_start_ctrl_def
      rw_update_ctrl_def rw_update_def rw_stopped_def Let_def
      split: sum.splits option.splits prod.splits if_splits rw_pc.splits)

lemma untold_simps [simp]:
  "untold newRemoteWorker" "untold (rw\<lparr>rw_pc := p\<rparr>) = untold rw" "untold (rw\<lparr>rw_reply := r\<rparr>) = untold rw"
  "untold (rw_forwarded m rw) = untold rw"
  by (simp_all add: untold_def newRemoteWorker_def told_def rw_forwarded_def)

lemma set_update_all: "\<forall>x \<in> set xs. P x \<Longrightarrow> P y \<Longrightarrow> \<forall>x \<in> set (xs[k := y]). P x"
  using set_update_subset_insert [of xs k y] by auto

lemma rws_answer_reg:
  assumes "\<forall>rw \<in> set (rws s). P rw" and "\<And>rw r. P rw \<Longrightarrow> P (rw\<lparr>rw_reply := r\<rparr>)"
  shows "\<forall>rw \<in> set (rws (answer_reg ev resp s)). P rw"
proof -
  have "\<forall>rw \<in> set ((rws s)[k := (rws s ! k)\<lparr>rw_reply := r\<rparr>]). P rw" for k r
  proof (cases "k < length (rws s)")
    case True
    with assms(1) have "P (rws s ! k)" by simp
    then show ?thesis using set_update_all [OF assms(1) assms(2)] by simp
  next
    case False
    with assms(1) show ?thesis by (simp add: list_update_beyond)
  qed
  then show ?thesis
    using assms(1) by (simp add: answer_reg_def split: wait_event.split option.split)
qed

lemma rws_finish_all:
  assumes "\<forall>rw \<in> set (rws s). told_ok rw"
  shows "\<forall>rw \<in> set (rws (finish res s)). told_ok rw"
proof -
  have "told_ok (rws (finish res s) ! i)" if "i < length (rws s)" for i
    using that assms by (simp add: rws_finish told_ok_stop_rw)
  then show ?thesis by (auto simp: in_set_conv_nth)
qed

lemma registry_ok_simps [simp]:
  "registry_ok (c\<lparr>stateMetric := n\<rparr>) = registry_ok c" "registry_ok (leave_testing c) = registry_ok c"
  "registry_ok (enter_testing now c) = registry_ok c"
  by (simp_all add: registry_ok_def leave_testing_def enter_testing_def)

lemma registry_ok_finish [simp]: "registry_ok (coord (finish res s)) = registry_ok (coord s)"
  by (simp add: finish_def)

lemma track_update_ok: "registry_ok c \<Longrightarrow> registry_ok (track_update m c)"
  by (auto simp: registry_ok_def track_update_def gomap_simps ghas_def Let_def)

lemma registry_ok_progress [simp]: "registry_ok (logTestingProgress n now c) = registry_ok c"
  by (simp add: registry_ok_def)

lemma test_step_registry: "registry_ok c \<Longrightarrow> test_step ev (c, n) = ((c', n'), r) \<Longrightarrow> registry_ok c'"
  by (cases ev) (auto simp: test_step_def handle_update_def Let_def track_update_ok
      unregisterRemoteWorker_ok split: if_splits option.splits)

lemma finish_start_ok: "start_ok ccfg s \<Longrightarrow> start_ok ccfg (finish res s)"
  using rws_finish_all [of s] by (simp add: start_ok_def)

lemma do_wait_start_ok:
  assumes "start_ok ccfg s" and "cpc s = C_Waiting"
  shows "start_ok ccfg (do_wait ev order s)"
proof -
  obtain c resp nxt where 1: "wait_step ev (coord s) = (c, resp, nxt)" by (rule prod_cases3)
  have reg: "registry_ok c" and cfg: "coordCfg c = ccfg"
    using assms(1) wait_step_ok [of "coord s" ev] coordCfg_wait_step [of ev "coord s"] 1
    by (simp_all add: start_ok_def)
  let ?s1 = "answer_reg ev resp (s\<lparr>coord := c\<rparr>)"
  have told: "\<forall>rw \<in> set (rws ?s1). told_ok rw"
    by (rule rws_answer_reg) (use assms in \<open>simp_all add: start_ok_def\<close>)
  have unt: "\<forall>rw \<in> set (rws ?s1). untold rw"
    by (rule rws_answer_reg) (use assms in \<open>simp_all add: start_ok_def\<close>)
  show ?thesis
  proof (cases nxt)
    case KeepWaiting
    with 1 told unt reg cfg assms show ?thesis by (simp add: do_wait_def start_ok_def)
  next
    case (WaitFailed err)
    with 1 told reg cfg assms rws_finish_all [of ?s1] show ?thesis
      by (simp add: do_wait_def start_ok_def)
  next
    case AllConnected
    with 1 have "ExpectWorkers (coordCfg c) \<le> int (length (workers c))"
      by (cases ev) (auto simp: wait_step_def Let_def split: prod.splits if_splits)
    then have "int (length (workers c)) = ExpectWorkers ccfg"
      using reg cfg assms(1) by (auto simp: registry_ok_def start_ok_def)
    with 1 AllConnected told reg cfg assms show ?thesis by (simp add: do_wait_def start_ok_def)
  qed
qed

lemma do_test_start_ok:
  assumes "start_ok ccfg s" and "cpc s = C_Testing"
  shows "start_ok ccfg (do_test ev s)"
proof -
  obtain c n r where 1: "test_step ev (coord s, completed s) = ((c, n), r)" by (metis prod.exhaust)
  then have "registry_ok c" and "coordCfg c = ccfg"
    using assms(1) test_step_registry coordCfg_test_step by (auto simp: start_ok_def)
  moreover have "coordCfg (leave_testing c) = coordCfg c" by (simp add: leave_testing_def)
  ultimately have "start_ok ccfg (s\<lparr>coord := c, completed := n\<rparr>)"
    and "start_ok ccfg (s\<lparr>coord := c, completed := n\<rparr>\<lparr>coord := leave_testing c\<rparr>)"
    using assms by (simp_all add: start_ok_def)
  then show ?thesis
    unfolding do_test_def 1 by (cases r) (simp_all only: Let_def prod.case option.case finish_start_ok)
qed

lemma set_rw_start_ok:
  assumes "start_ok ccfg s" and "told_ok rw" and "cpc s = C_Waiting \<Longrightarrow> untold rw"
  shows "start_ok ccfg (set_rw k rw s)"
  using assms set_update_all [of "rws s" told_ok rw k] set_update_all [of "rws s" untold rw k]
  unfolding start_ok_def set_rw_fields by metis

lemma sys_step_start_ok:
  assumes "sys_step reads s s'" and "start_ok ccfg s"
  shows "start_ok ccfg s'"
proof -
  have mem: "told_ok (rws s ! k)" "cpc s = C_Waiting \<Longrightarrow> untold (rws s ! k)" if "k < length (rws s)" for k
    using assms(2) that by (simp_all add: start_ok_def)
  have queues: "start_ok ccfg (s\<lparr>q_register := a\<rparr>)" "start_ok ccfg (s\<lparr>q_unregister := b\<rparr>)"
    "start_ok ccfg (s\<lparr>q_update := d\<rparr>)" for a b d
    using assms(2) by (simp_all add: start_ok_def)
  from assms(1) show ?thesis
  proof (cases rule: sys_step.cases)
    case connect
    with assms(2) show ?thesis by (simp add: start_ok_def)
  next
    case (local k rw')
    with assms(2) mem show ?thesis
      by (auto intro!: set_rw_start_ok intro: rw_local_told rw_local_untold)
  next
    case (ask_register k)
    with mem queues show ?thesis by (auto intro!: set_rw_start_ok told_ok_pc)
  next
    case (forward k m)
    with mem queues show ?thesis by (auto intro!: set_rw_start_ok told_ok_forwarded)
  next
    case (unregister k e)
    with mem queues show ?thesis by (auto intro!: set_rw_start_ok told_ok_pc)
  next
    case (take_register k q order)
    with queues show ?thesis by (auto intro!: do_wait_start_ok)
  next
    case (take_unregister w e q order)
    with queues show ?thesis by (auto intro!: do_wait_start_ok)
  next
    case (wait_ends ev order)
    with assms(2) show ?thesis by (auto intro!: do_wait_start_ok)
  next
    case (tell_start w k ws)
    with assms(2) have "start_ok ccfg (s\<lparr>cpc := C_AwaitStart k ws\<rparr>)" by (simp add: start_ok_def)
    then show ?thesis
      unfolding tell_start(1) by (rule set_rw_start_ok) (use tell_start(3) mem in \<open>simp_all add: told_ok_send\<close>)
  next
    case (start_answer k ws)
    with assms(2) have "start_ok ccfg (s\<lparr>cpc := C_Starting ws\<rparr>)" by (simp add: start_ok_def)
    then show ?thesis
      unfolding start_answer(1) by (rule set_rw_start_ok) (use start_answer(3) mem in simp_all)
  next
    case (test_update m q now)
    with queues show ?thesis by (auto intro!: do_test_start_ok)
  next
    case (test_unregister w e q)
    with queues show ?thesis by (auto intro!: do_test_start_ok)
  next
    case (all_started now)
    with assms(2) show ?thesis by (simp add: start_ok_def)
  qed (use assms(2) in \<open>simp_all add: finish_start_ok do_test_start_ok\<close>)
qed

interpretation sys_start: kept_by_relation "sys_step reads" "start_ok ccfg" for reads ccfg
  by unfold_locales (rule sys_step_start_ok)

lemma system_start_ok: "1 \<le> ExpectWorkers ccfg \<Longrightarrow> start_ok ccfg (system_start cfg ccfg)"
  using registry_ok_new by (simp add: start_ok_def system_start_def enter_waiting_def NewCoordinator_def)

text \<open>C3: the protocol with each worker is kept in every schedule: a worker is only ever told, each at
  most once and in this order, that it is accepted, that the test starts and that it failed, or
  else that it is rejected; none is told to start while the coordinator still waits, and while
  the start is under way exactly the expected number of workers is registered.\<close>

theorem start_protocol:
  assumes "1 \<le> ExpectWorkers ccfg" and "(sys_step reads)\<^sup>*\<^sup>* (system_start cfg ccfg) s" and "rw \<in> set (rws s)"
  shows "(told rw = [workerRejected] \<or> subseq (told rw) [workerAccepted, workerTesting, workerFailed]) \<and>
    (workerTesting \<in> set (told rw) \<longrightarrow> cpc s \<noteq> C_Waiting) \<and>
    (\<forall>ws. cpc s = C_Starting ws \<longrightarrow> int (length (workers (coord s))) = ExpectWorkers ccfg)"
proof -
  have ok: "start_ok ccfg s" using assms(2) system_start_ok [OF assms(1)] by (rule sys_start.run_keeps)
  with assms(3) told_ok_subseq [of rw] show ?thesis
    by (auto simp: start_ok_def untold_def)
qed

subsection \<open>A concrete system: one worker up to the start of its test\<close>

definition one_worker :: coordinator_config where
  "one_worker = two_workers\<lparr>ExpectWorkers := 1\<rparr>"

definition start_one :: "config \<Rightarrow> system" where
  "start_one cfg = system_start cfg one_worker"

abbreviation any_read :: "nat \<Rightarrow> go_error + workerMsg \<Rightarrow> bool" where
  "any_read k r \<equiv> True"

definition coord_one :: "config \<Rightarrow> coordinator" where
  "coord_one cfg = snd (registerRemoteWorker ''w'' 0 (coord (start_one cfg)))"

definition asking :: "string \<Rightarrow> remote_worker" where
  "asking w = newRemoteWorker\<lparr>rw_id := w, rw_pc := AwaitingReply\<rparr>"

definition accepted_rw :: "config \<Rightarrow> remote_worker" where
  "accepted_rw cfg = (asking ''w'')\<lparr>rw_pc := WaitingStart, rw_reply := Some None, rw_metric := Some 1,
     rw_out := [(state_msg ''w'' workerAccepted [])\<lparr>W_Config := Some cfg\<rparr>]\<rparr>"

definition testing_rw :: "config \<Rightarrow> remote_worker" where
  "testing_rw cfg = (accepted_rw cfg)\<lparr>rw_pc := Updating, rw_resp := Some None, rw_state := workerTesting,
     rw_metric := Some 3, rw_out := rw_out (accepted_rw cfg) @ [state_msg ''w'' workerTesting []]\<rparr>"

text \<open>One worker is registered and its test is under way.\<close>

definition testing_one :: "config \<Rightarrow> system" where
  "testing_one cfg = (start_one cfg)\<lparr>rws := [(testing_rw cfg)], coord := enter_testing 0 (coord_one cfg), cpc := C_Testing\<rparr>"

lemma sys_step_to: "(sys_step reads)\<^sup>*\<^sup>* a s \<Longrightarrow> sys_step reads s t \<Longrightarrow> t = t' \<Longrightarrow> (sys_step reads)\<^sup>*\<^sup>* a t'"
  by (simp add: rtranclp.rtrancl_into_rtrancl)

lemmas start_simps = start_one_def system_start_def one_worker_def two_workers_def enter_waiting_def
  NewCoordinator_def

lemma coord_one_eq: "registerRemoteWorker ''w'' 0 (coord (start_one cfg)) = (None, (coord_one cfg))"
  by (simp add: coord_one_def registerRemoteWorker_def start_simps ghas_def)

lemma coord_one_fields [simp]:
  "workers (coord_one cfg) = [(''w'', 0)]" "coordCfg (coord_one cfg) = one_worker" "ExpectWorkers one_worker = 1"
  "c_cfg (coord_one cfg) = cfg"
  by (simp_all add: coord_one_def registerRemoteWorker_def start_simps ghas_def)

lemma start_one_fields [simp]:
  "rws (start_one cfg) = []" "cpc (start_one cfg) = C_Waiting" "q_register (start_one cfg) = []" "completed (start_one cfg) = 0"
  "q_unregister (start_one cfg) = []" "q_update (start_one cfg) = []" "expectedWorkers (coord (start_one cfg)) = 1"
  "workers (coord (start_one cfg)) = []" "c_cfg (coord (start_one cfg)) = cfg"
  by (simp_all add: start_simps)

text \<open>A connection that names itself and asks to be registered.\<close>

lemma run_asks:
  assumes "(sys_step reads)\<^sup>*\<^sup>* a s" and "\<And>k. reads k (Inr (zero_msg\<lparr>W_ID := w\<rparr>))" and "q_register s = []" and "1 \<le> expectedWorkers (coord s)" and "w \<noteq> []"
  shows "(sys_step reads)\<^sup>*\<^sup>* a (s\<lparr>rws := rws s @ [asking w], q_register := [length (rws s)]\<rparr>)"
proof -
  let ?rw = "newRemoteWorker\<lparr>rw_id := w, rw_pc := Registering\<rparr>"
  have 1: "(sys_step reads)\<^sup>*\<^sup>* a (s\<lparr>rws := rws s @ [newRemoteWorker]\<rparr>)"
    using assms(1) sys_step.connect by (rule rtranclp.rtrancl_into_rtrancl)
  have "rw_local (reads k) cfg newRemoteWorker (rw_readID (Inr (zero_msg\<lparr>W_ID := w\<rparr>)) None newRemoteWorker)" for k cfg
    by (rule rw_local.read_id) (simp_all add: newRemoteWorker_def assms(2))
  moreover have "rw_readID (Inr (zero_msg\<lparr>W_ID := w\<rparr>)) None newRemoteWorker = ?rw"
    using assms(5) by (simp add: rw_readID_def)
  ultimately have l: "rw_local (reads k) cfg newRemoteWorker ?rw" for k cfg by simp
  have 2: "(sys_step reads)\<^sup>*\<^sup>* a (s\<lparr>rws := rws s @ [?rw]\<rparr>)"
    by (rule sys_step_to [OF 1 sys_step.local [where k = "length (rws s)" and rw' = ?rw]])
      (simp_all add: l set_rw_def)
  show ?thesis
    by (rule sys_step_to [OF 2 sys_step.ask_register [where k = "length (rws s)"]])
      (use assms(3,4) in \<open>simp_all add: room_def set_rw_def asking_def\<close>)
qed

text \<open>From there to the start of the test nothing is read.\<close>

definition asked_one :: "config \<Rightarrow> system" where
  "asked_one cfg = (start_one cfg)\<lparr>rws := [asking ''w''], q_register := [0]\<rparr>"

lemma run_started:
  "(sys_step reads)\<^sup>*\<^sup>* (asked_one cfg) (testing_one cfg)"
proof -
  let ?s = "\<lambda>c p rw q. (start_one cfg)\<lparr>coord := c, cpc := p, rws := [rw], q_register := q\<rparr>"
  let ?reply = "(asking ''w'')\<lparr>rw_reply := Some None\<rparr>"
  let ?acc = "?reply\<lparr>rw_pc := Accepting\<rparr>"
  let ?ctl = "(accepted_rw cfg)\<lparr>stateCtrl := [(workerTesting, [])], rw_resp := None\<rparr>"
  let ?upd = "(testing_rw cfg)\<lparr>rw_state := workerConnected, rw_metric := Some 1\<rparr>"
  have 1: "(sys_step reads)\<^sup>*\<^sup>* (asked_one cfg) (?s (coord (start_one cfg)) C_Waiting (asking ''w'') [0])"
    by (simp add: asked_one_def start_simps)
  have 2: "(sys_step reads)\<^sup>*\<^sup>* (asked_one cfg) (?s (coord_one cfg) (C_Starting [(''w'', 0)]) ?reply [])"
    by (rule sys_step_to [OF 1 sys_step.take_register [where k = 0 and q = "[]" and order = "\<lambda>m. m"]])
      (simp_all add: do_wait_def wait_step_def coord_one_eq answer_reg_def set_rw_def asking_def
        registerRemoteWorker_def [of "rw_id _"] Let_def)
  have 3: "(sys_step reads)\<^sup>*\<^sup>* (asked_one cfg) (?s (coord_one cfg) (C_Starting [(''w'', 0)]) ?acc [])"
    by (rule sys_step_to [OF 2 sys_step.local [OF _ rw_local.reply [where answer = None]], where k1 = 0])
      (simp_all add: asking_def rw_registered_def set_rw_def)
  have 4: "(sys_step reads)\<^sup>*\<^sup>* (asked_one cfg) (?s (coord_one cfg) (C_Starting [(''w'', 0)]) (accepted_rw cfg) [])"
    by (rule sys_step_to [OF 3 sys_step.local [OF _ rw_local.accept [where res = None]], where k1 = 0])
      (simp_all add: accepted_rw_def asking_def rw_accept_def rw_write_def set_rw_def newRemoteWorker_def
        workerStateMetricValues_def worker_states)
  have 5: "(sys_step reads)\<^sup>*\<^sup>* (asked_one cfg) (?s (coord_one cfg) (C_AwaitStart 0 []) ?ctl [])"
    by (rule sys_step_to [OF 4 sys_step.tell_start [where k = 0 and w = "''w''" and ws = "[]"]])
      (simp_all add: accepted_rw_def asking_def rw_send_ctrl_def set_rw_def newRemoteWorker_def)
  have 6: "(sys_step reads)\<^sup>*\<^sup>* (asked_one cfg) (?s (coord_one cfg) (C_AwaitStart 0 []) ?upd [])"
    by (rule sys_step_to [OF 5 sys_step.local [OF _ rw_local.start_ctrl [where m = "(workerTesting, [])"
        and res = None]], where k1 = 0])
      (simp_all add: testing_rw_def accepted_rw_def asking_def rw_start_ctrl_def rw_write_def set_rw_def
        newRemoteWorker_def start_simps Let_def)
  have 7: "(sys_step reads)\<^sup>*\<^sup>* (asked_one cfg) (?s (coord_one cfg) (C_Starting []) (testing_rw cfg) [])"
    by (rule sys_step_to [OF 6 sys_step.start_answer [where k = 0 and ws = "[]"]])
      (simp_all add: testing_rw_def accepted_rw_def asking_def rw_set_state_eq set_rw_def
        newRemoteWorker_def workerStateMetricValues_def worker_states)
  show ?thesis
    by (rule sys_step_to [OF 7 sys_step.all_started [where now = 0]])
      (simp_all add: testing_one_def start_simps)
qed

lemma run_one:
  "(sys_step any_read)\<^sup>*\<^sup>* (start_one cfg) (testing_one cfg)"
proof -
  have "(sys_step any_read)\<^sup>*\<^sup>* (start_one cfg) ((start_one cfg)\<lparr>rws := rws (start_one cfg) @ [asking ''w''],
      q_register := [length (rws (start_one cfg))]\<rparr>)"
    by (rule run_asks) simp_all
  then have "(sys_step any_read)\<^sup>*\<^sup>* (start_one cfg) (asked_one cfg)" by (simp add: asked_one_def)
  then show ?thesis using run_started by (rule rtranclp_trans)
qed

subsection \<open>Three schedules that go wrong\<close>

lemma testing_one_fields [simp]:
  "rws (testing_one cfg) = [(testing_rw cfg)]" "cpc (testing_one cfg) = C_Testing" "q_register (testing_one cfg) = []"
  "q_unregister (testing_one cfg) = []" "q_update (testing_one cfg) = []" "completed (testing_one cfg) = 0"
  "workers (coord (testing_one cfg)) = [(''w'', 0)]" "coordCfg (coord (testing_one cfg)) = one_worker"
  by (simp_all add: testing_one_def enter_testing_def)

definition completed_msg :: workerMsg where
  "completed_msg = state_msg ''w'' workerCompleted []"

definition done_rw :: "config \<Rightarrow> remote_worker" where
  "done_rw cfg = (testing_rw cfg)\<lparr>rw_pc := Ended None, rw_txCount := 0, rw_metric := Some 5\<rparr>"

text \<open>
  The only worker has completed its test and is gone; its completion is still in the update
  channel, but its departure, sent after it through another channel, was handled first.
\<close>

definition lost_one :: "config \<Rightarrow> system" where
  "lost_one cfg = (testing_one cfg)\<lparr>rws := [(done_rw cfg)], q_update := [completed_msg],
     coord := unregisterRemoteWorker ''w'' (coord (testing_one cfg))\<rparr>"

definition forwarded_one :: "config \<Rightarrow> system" where
  "forwarded_one cfg = (testing_one cfg)\<lparr>rws := [(testing_rw cfg)\<lparr>rw_pc := Ending None, rw_txCount := 0, rw_metric := Some 5\<rparr>],
     q_update := [completed_msg]\<rparr>"

lemma run_forwarded: "(sys_step any_read)\<^sup>*\<^sup>* (start_one cfg) (forwarded_one cfg)"
proof -
  have 1: "(sys_step any_read)\<^sup>*\<^sup>* (start_one cfg) ((testing_one cfg)\<lparr>rws := [(testing_rw cfg)\<lparr>rw_pc := Forwarding completed_msg,
      rw_txCount := 0\<rparr>]\<rparr>)"
    by (rule sys_step_to [OF run_one sys_step.local [OF _ rw_local.update [where r = "Inr completed_msg"]],
        where k1 = 0])
      (simp_all add: set_rw_def rw_update_def completed_msg_def testing_rw_def state_msg_def zero_msg_def
        worker_states testing_one_def start_simps)
  show ?thesis
    by (rule sys_step_to [OF 1 sys_step.forward [where k = 0 and m = completed_msg]])
      (simp_all add: forwarded_one_def set_rw_def room_def rw_forwarded_def completed_msg_def
        workerStateMetricValues_def worker_states)
qed

lemma run_lost: "(sys_step any_read)\<^sup>*\<^sup>* (start_one cfg) (lost_one cfg)"
proof -
  have 1: "(sys_step any_read)\<^sup>*\<^sup>* (start_one cfg) ((testing_one cfg)\<lparr>rws := [(done_rw cfg)], q_update := [completed_msg],
      q_unregister := [(''w'', None)]\<rparr>)"
    by (rule sys_step_to [OF run_forwarded sys_step.unregister [where k = 0 and e = None]])
      (simp_all add: forwarded_one_def set_rw_def room_def done_rw_def testing_rw_def accepted_rw_def asking_def
        newRemoteWorker_def testing_one_def start_simps)
  show ?thesis
    by (rule sys_step_to [OF 1 sys_step.test_unregister [where w = "''w''" and e = None and q = "[]"]])
      (simp_all add: do_test_def test_step_def lost_one_def testing_one_def start_simps)
qed

abbreviation kv_cfg :: config where
  "kv_cfg \<equiv> flag_defaults ''kvstore''"

theorem success_means_completed_witness:
  "\<exists>s. (sys_step any_read)\<^sup>*\<^sup>* (start_one kv_cfg) s \<and> cpc s = C_Returned None \<and>
     1 \<le> int (length (filter (\<lambda>rw. rw_pc rw \<in> {Ending None, Ended None}) (rws s)))"
proof -
  let ?now = "(0, 0, 0)"
  let ?t = "do_test (WorkerUpdate completed_msg ?now) ((forwarded_one kv_cfg)\<lparr>q_update := []\<rparr>)"
  have "sys_step any_read (forwarded_one kv_cfg) ?t"
    by (rule sys_step.test_update) (simp_all add: forwarded_one_def)
  with run_forwarded have run: "(sys_step any_read)\<^sup>*\<^sup>* (start_one kv_cfg) ?t" by (rule rtranclp.rtrancl_into_rtrancl)
  have ret: "cpc ?t = C_Returned None"
    by (simp add: do_test_def test_step_def handle_update_def completed_msg_def state_msg_def zero_msg_def
        worker_states forwarded_one_def testing_one_def enter_testing_def ghas_def track_update_def Let_def)
  from run ret success_means_completed [OF run [unfolded start_one_def] ret] show ?thesis
    by (intro exI [of _ ?t]) simp
qed

theorem start_protocol_witness:
  "told (testing_rw kv_cfg) = [workerRejected] \<or> subseq (told (testing_rw kv_cfg)) [workerAccepted, workerTesting, workerFailed]"
proof -
  have "1 \<le> ExpectWorkers one_worker" "(testing_rw kv_cfg) \<in> set (rws (testing_one kv_cfg))" by simp_all
  with start_protocol [OF _ run_one [unfolded start_one_def]] show ?thesis by blast
qed

text \<open>With nobody registered and too few completions, success is out of reach.\<close>

definition hopeless :: "system \<Rightarrow> bool" where
  "hopeless s \<longleftrightarrow> workers (coord s) = [] \<and> completed s < expectedWorkers (coord s) \<and>
     (cpc s = C_Testing \<or> (\<exists>err. cpc s = C_Returned (Some err)))"

lemma test_step_hopeless:
  assumes "test_step ev (c, n) = ((c', n'), r)" and "workers c = []"
  shows "workers c' = []" and "n' = n" and "r \<noteq> Some None" and "coordCfg c' = coordCfg c"
  using assms
  by (cases ev; auto simp: test_step_def handle_update_def ghas_def unregisterRemoteWorker_def
      split: option.splits if_splits)+

lemma do_test_hopeless:
  assumes "hopeless s" and "cpc s = C_Testing"
  shows "hopeless (do_test ev s)"
proof -
  obtain c n r where 1: "test_step ev (coord s, completed s) = ((c, n), r)" by (metis prod.exhaust)
  have "workers (coord s) = []" using assms(1) by (simp add: hopeless_def)
  note h = test_step_hopeless [OF 1 this]
  show ?thesis
  proof (cases r)
    case None
    with 1 h assms show ?thesis by (simp add: do_test_def hopeless_def)
  next
    case (Some res)
    with h(3) obtain err where "res = Some err" by (cases res) auto
    with 1 h assms Some show ?thesis by (simp add: do_test_def hopeless_def leave_testing_def)
  qed
qed

lemma sys_step_hopeless:
  assumes "sys_step reads s s'" and "hopeless s"
  shows "hopeless s'"
  using assms(1)
proof (cases rule: sys_step.cases)
  case (test_update m q now)
  with assms(2) have "hopeless (s\<lparr>q_update := q\<rparr>)" by (simp add: hopeless_def)
  with test_update show ?thesis by (simp add: do_test_hopeless)
next
  case (test_unregister w e q)
  with assms(2) have "hopeless (s\<lparr>q_unregister := q\<rparr>)" by (simp add: hopeless_def)
  with test_unregister show ?thesis by (simp add: do_test_hopeless)
qed (use assms(2) in \<open>auto simp: hopeless_def [of s] intro: do_test_hopeless
  simp: hopeless_def [of "_\<lparr>rws := _\<rparr>"] hopeless_def [of "set_rw _ _ _"]\<close>)

interpretation sys_hopeless: kept_by_relation "sys_step reads" hopeless for reads
  by unfold_locales (rule sys_step_hopeless)

lemma hopeless_not_nil: "hopeless s \<Longrightarrow> cpc s \<noteq> C_Returned None"
  by (auto simp: hopeless_def)

text \<open>C36: a completed load test can be lost.  A worker's last update and its departure travel through
  two channels, and the coordinator may take the departure first; the completion is then the
  message of an unregistered worker and is ignored.  There is a reachable state in which every
  worker has completed its test without error, and from which the coordinator can never again
  report success.\<close>

theorem completion_can_be_lost:
  "\<exists>s. (sys_step any_read)\<^sup>*\<^sup>* (start_one cfg) s \<and> list_all (\<lambda>rw. rw_pc rw = Ended None) (rws s) \<and> rws s \<noteq> [] \<and>
     \<not> (\<exists>s'. (sys_step any_read)\<^sup>*\<^sup>* s s' \<and> cpc s' = C_Returned None)"
proof (intro exI conjI)
  show "(sys_step any_read)\<^sup>*\<^sup>* (start_one cfg) (lost_one cfg)" by (rule run_lost)
  show "list_all (\<lambda>rw. rw_pc rw = Ended None) (rws (lost_one cfg))" by (simp add: lost_one_def done_rw_def)
  show "rws (lost_one cfg) \<noteq> []" by (simp add: lost_one_def)
  have "hopeless (lost_one cfg)" by (simp add: hopeless_def lost_one_def unregisterRemoteWorker_def)
  then have "hopeless s'" if "(sys_step any_read)\<^sup>*\<^sup>* (lost_one cfg) s'" for s'
    using that sys_hopeless.run_keeps by blast
  then show "\<not> (\<exists>s'. (sys_step any_read)\<^sup>*\<^sup>* (lost_one cfg) s' \<and> cpc s' = C_Returned None)"
    using hopeless_not_nil by blast
qed

text \<open>C37: a connection too many aborts a load test that is going well.  Registrations are not answered
  while the test is under way, so a late worker times out, and its departure carries that
  error: there is a run in which the one expected worker is registered and updating, and the
  coordinator returns an error because of the other.\<close>

theorem late_worker_aborts_test:
  "\<exists>s. (sys_step any_read)\<^sup>*\<^sup>* (testing_one cfg) s \<and> rw_pc (rws s ! 0) = Updating \<and> workers (coord s) = [(''w'', 0)] \<and>
     cpc s = C_Returned (Some
       ''remote worker failed: timed out while attempting to register remote worker'')"
proof -
  let ?err = "''timed out while attempting to register remote worker''"
  let ?s = "\<lambda>p q u. (testing_one cfg)\<lparr>rws := [(testing_rw cfg), p], q_register := q, q_unregister := u\<rparr>"
  let ?rej = "(asking ''x'')\<lparr>rw_pc := Ending (Some ?err), rw_out := [state_msg [] workerRejected ?err]\<rparr>"
  let ?final = "?rej\<lparr>rw_pc := Ended (Some ?err)\<rparr>"
  have "(sys_step any_read)\<^sup>*\<^sup>* (testing_one cfg) ((testing_one cfg)\<lparr>rws := rws (testing_one cfg) @ [asking ''x''],
      q_register := [length (rws (testing_one cfg))]\<rparr>)"
    by (rule run_asks) simp_all
  then have 1: "(sys_step any_read)\<^sup>*\<^sup>* (testing_one cfg) (?s (asking ''x'') [1] [])"
    by (simp add: testing_one_def start_simps)
  have 2: "(sys_step any_read)\<^sup>*\<^sup>* (testing_one cfg) (?s ?rej [1] [])"
    by (rule sys_step_to [OF 1 sys_step.local [OF _ rw_local.reply_timeout [where res = None]], where k1 = 1])
      (simp_all add: asking_def newRemoteWorker_def rw_registered_def rw_write_def set_rw_def testing_one_def
        start_simps)
  have 3: "(sys_step any_read)\<^sup>*\<^sup>* (testing_one cfg) (?s ?final [1] [(''x'', Some ?err)])"
    by (rule sys_step_to [OF 2 sys_step.unregister [where k = 1 and e = "Some ?err"]])
      (simp_all add: set_rw_def room_def asking_def newRemoteWorker_def testing_one_def start_simps)
  let ?s' = "(?s ?final [1] [])\<lparr>coord := leave_testing (unregisterRemoteWorker ''x'' (coord (testing_one cfg)))\<rparr>"
  have "do_test (WorkerUnregister ''x'' (Some ?err)) ((?s ?final [1] [(''x'', Some ?err)])\<lparr>q_unregister := []\<rparr>) =
      finish (Some (''remote worker failed: '' @ ?err)) ?s'"
    by (simp add: do_test_def test_step_def testing_one_def start_simps)
  then have "(sys_step any_read)\<^sup>*\<^sup>* (testing_one cfg) (finish (Some (''remote worker failed: '' @ ?err)) ?s')"
    by (intro sys_step_to [OF 3 sys_step.test_unregister [where w = "''x''" and e = "Some ?err" and q = "[]"]])
      simp_all
  moreover have "rw_pc (rws (finish res ?s') ! 0) = Updating" for res
    by (simp add: rws_finish testing_rw_def)
  ultimately show ?thesis
    by (intro exI [of _ "finish (Some (''remote worker failed: '' @ ?err)) ?s'"])
      (simp add: unregisterRemoteWorker_def leave_testing_def)
qed

text \<open>Two workers are expected; the second connection takes the id of the first.\<close>

definition start_two :: system where
  "start_two = system_start (flag_defaults ''kvstore'') two_workers"

definition coord_two :: coordinator where
  "coord_two = enter_waiting (NewCoordinator (flag_defaults ''kvstore'') two_workers)"

lemma start_two_eq:
  "start_two = \<lparr>coord = coord_two, completed = 0, cpc = C_Waiting, rws = [], q_register = [],
     q_unregister = [], q_update = []\<rparr>"
  by (simp add: start_two_def system_start_def coord_two_def)

lemma coord_two_fields: "workers coord_two = []" "coordCfg coord_two = two_workers"
  by (simp_all add: coord_two_def enter_waiting_def NewCoordinator_def)

text \<open>
  The second connection was rejected and has left; its unregistration took the id of the first, whose
  registration had been answered.
\<close>

definition duplicate_err :: string where
  "duplicate_err = ''worker with ID w already exists''"

definition evicted_two :: system where
  "evicted_two = start_two\<lparr>coord := unregisterRemoteWorker ''w'' (snd (registerRemoteWorker ''w'' 0 coord_two)),
     rws := [(asking ''w'')\<lparr>rw_reply := Some None\<rparr>,
       (asking ''w'')\<lparr>rw_reply := Some (Some duplicate_err), rw_pc := Ended (Some duplicate_err),
          rw_out := [state_msg [] workerRejected duplicate_err]\<rparr>]\<rparr>"

lemma run_evicted:
  assumes "\<And>k. reads k (Inr (zero_msg\<lparr>W_ID := ''w''\<rparr>))"
  shows "(sys_step reads)\<^sup>*\<^sup>* start_two evicted_two"
proof -
  note cf = coord_two_fields two_workers_def
  let ?dup = "''worker with ID w already exists''"
  obtain c1 where c1: "registerRemoteWorker ''w'' 0 coord_two = (None, c1)"
    and c1f: "workers c1 = [(''w'', 0)]" "expectedWorkers c1 = 2"
    by (simp add: registerRemoteWorker_def cf ghas_def)
  let ?first = "(asking ''w'')\<lparr>rw_reply := Some None\<rparr>"
  let ?rejected = "(asking ''w'')\<lparr>rw_reply := Some (Some ?dup), rw_pc := Ending (Some ?dup),
    rw_out := [state_msg [] workerRejected ?dup]\<rparr>"
  let ?s = "\<lambda>p u. start_two\<lparr>coord := c1, rws := [?first, p], q_unregister := u\<rparr>"
  note two = start_two_eq
  have c2: "registerRemoteWorker ''w'' 1 c1 = (Some ?dup, c1)"
    unfolding registerRemoteWorker_def [of "''w''" 1 c1] by (simp add: c1f ghas_def)
  have "(sys_step reads)\<^sup>*\<^sup>* start_two (start_two\<lparr>rws := rws start_two @ [asking ''w''], q_register := [length (rws start_two)]\<rparr>)"
    by (rule run_asks) (simp_all add: two cf assms)
  then have 1: "(sys_step reads)\<^sup>*\<^sup>* start_two (start_two\<lparr>rws := [asking ''w''], q_register := [0]\<rparr>)"
    by (simp add: two)
  have 2: "(sys_step reads)\<^sup>*\<^sup>* start_two (start_two\<lparr>coord := c1, rws := [?first]\<rparr>)"
    by (rule sys_step_to [OF 1 sys_step.take_register [where k = 0 and q = "[]" and order = "\<lambda>m. m"]])
      (simp_all add: do_wait_def wait_step_def c1 c1f answer_reg_def set_rw_def asking_def
        registerRemoteWorker_def [of "rw_id _"] Let_def two)
  have "(sys_step reads)\<^sup>*\<^sup>* start_two ((start_two\<lparr>coord := c1, rws := [?first]\<rparr>)\<lparr>rws := [?first] @ [asking ''w''],
      q_register := [1]\<rparr>)"
    using run_asks [OF 2 assms] c1f by (simp add: two)
  then have 3: "(sys_step reads)\<^sup>*\<^sup>* start_two ((?s (asking ''w'') [])\<lparr>q_register := [1]\<rparr>)" by (simp add: two)
  have 4: "(sys_step reads)\<^sup>*\<^sup>* start_two (?s ((asking ''w'')\<lparr>rw_reply := Some (Some ?dup)\<rparr>) [])"
    by (rule sys_step_to [OF 3 sys_step.take_register [where k = 1 and q = "[]" and order = "\<lambda>m. m"]])
      (simp_all add: do_wait_def wait_step_def c2 [simplified] c1f answer_reg_def set_rw_def asking_def two Let_def)
  have 5: "(sys_step reads)\<^sup>*\<^sup>* start_two (?s ?rejected [])"
    by (rule sys_step_to [OF 4 sys_step.local [OF _ rw_local.reply [where answer = "Some ?dup" and res = None]],
        where k1 = 1])
      (simp_all add: asking_def newRemoteWorker_def rw_registered_def rw_write_def set_rw_def)
  have 6: "(sys_step reads)\<^sup>*\<^sup>* start_two (?s (?rejected\<lparr>rw_pc := Ended (Some ?dup)\<rparr>) [(''w'', Some ?dup)])"
    by (rule sys_step_to [OF 5 sys_step.unregister [where k = 1 and e = "Some ?dup"]])
      (simp_all add: set_rw_def room_def asking_def newRemoteWorker_def c1f two)
  let ?final = "(?s (?rejected\<lparr>rw_pc := Ended (Some ?dup)\<rparr>) [])\<lparr>coord := unregisterRemoteWorker ''w'' c1\<rparr>"
  have "(sys_step reads)\<^sup>*\<^sup>* start_two ?final"
    by (rule sys_step_to [OF 6 sys_step.take_unregister [where w = "''w''" and e = "Some ?dup" and q = "[]"
        and order = "\<lambda>m. m"]])
      (simp_all add: do_wait_def wait_step_def answer_reg_def two Let_def)
  moreover have "?final = evicted_two" by (simp add: evicted_two_def duplicate_err_def c1 two asking_def newRemoteWorker_def)
  ultimately show ?thesis by simp
qed

text \<open>A rejected duplicate evicts the worker it duplicates.  The second connection with an id in use
  is rejected, and on its way out it unregisters that id: there is a run in which only two
  connections with the same id were made, the first is accepted or about to be, and the
  coordinator has no worker registered at all.\<close>

theorem duplicate_evicts_worker:
  "\<exists>s. (sys_step any_read)\<^sup>*\<^sup>* start_two s \<and> rw_reply (rws s ! 0) = Some None \<and> rw_pc (rws s ! 0) = AwaitingReply \<and>
     told (rws s ! 1) = [workerRejected] \<and> cpc s = C_Waiting \<and> workers (coord s) = []"
proof -
  have "(sys_step any_read)\<^sup>*\<^sup>* start_two evicted_two" by (rule run_evicted) simp
  then show ?thesis
    by (intro exI [of _ evicted_two])
      (simp add: evicted_two_def asking_def told_def unregisterRemoteWorker_def registerRemoteWorker_def
        coord_two_fields two_workers_def ghas_def start_two_eq)
qed

end
