(* ===== verification/Worker_Client.thy ===== *)
theory Worker_Client
  imports Transactor_Group Worker_Msgs "HOL-Library.Sublist"
begin

section \<open>The worker (worker.go)\<close>

text \<open>
  A worker connects to the coordinator, registers, waits for the start, runs a transactor group
  and reports its results.  Its life is a step relation over the program points of \<open>Run\<close>; the
  group runs inside by the steps of Transactor_Group, and the interrupt trap can fire between any
  two steps.  Every message handed to the socket is logged with the answer of its write: a write
  that failed may still have been sent.
\<close>

datatype worker_pc =
    W_Connecting
  | W_Registering
  | W_AwaitingReply
  | W_WaitingStart
  | W_Adding
  | W_Starting
  | W_Started
  | W_Running
  | W_Reporting
  | W_Ended "go_error option"
  | W_Crashed

record 'w worker =
  k_id :: string
  k_workerCfg :: worker_config
  k_cfg :: config
  k_pc :: worker_pc
  interrupts :: "(string, unit) gomap"
  k_interrupted :: bool
  k_stop :: bool
  k_said :: "(workerMsg \<times> go_error option) list"
  k_clients :: "'w client list"
  k_group :: "'w group"
  k_run :: "'w group_run option"

definition workerUpdateInterval :: duration where
  "workerUpdateInterval = 3 * second"

definition makeWorkerID :: "string \<Rightarrow> string" where
  "makeWorkerID uuid = filter (\<lambda>ch. ch \<noteq> CHR ''-'') uuid"

definition NewWorker :: "unicode_tables \<Rightarrow> string \<Rightarrow> worker_config \<Rightarrow> go_error + 'w worker" where
  "NewWorker ucd uuid cfg =
     (let workerID = (if WorkerID cfg = [] then makeWorkerID uuid else WorkerID cfg) in
      if \<not> isValidWorkerID ucd workerID
      then Inl (''invalid worker ID \"'' @ workerID @
             ''\": worker IDs can only contain lowercase alphanumeric characters'')
      else Inr \<lparr>k_id = workerID, k_workerCfg = cfg, k_cfg = zero_config, k_pc = W_Connecting,
        interrupts = [], k_interrupted = False, k_stop = False, k_said = [], k_clients = [],
        k_group = NewTransactorGroup, k_run = None\<rparr>)"

subsection \<open>Messages\<close>

definition w_say :: "workerMsg \<Rightarrow> go_error option \<Rightarrow> 'w worker \<Rightarrow> 'w worker" where
  "w_say m res w = w\<lparr>k_said := k_said w @ [(m, res)]\<rparr>"

definition w_fail :: "string \<Rightarrow> go_error option \<Rightarrow> 'w worker \<Rightarrow> 'w worker" where
  "w_fail reason res w =
     w_say (zero_msg\<lparr>W_ID := k_id w, W_State := workerFailed, W_Error := reason\<rparr>) res w"

text \<open>\<open>Run\<close> returning an error after it told the coordinator.\<close>

definition fail_end :: "go_error \<Rightarrow> go_error option \<Rightarrow> 'w worker \<Rightarrow> 'w worker" where
  "fail_end err res w = (w_fail err res w)\<lparr>k_pc := W_Ended (Some err)\<rparr>"

definition results_msg :: "string \<Rightarrow> 'w worker \<Rightarrow> int \<Rightarrow> int \<Rightarrow> workerMsg" where
  "results_msg state w n b =
     zero_msg\<lparr>W_ID := k_id w, W_State := state, W_TxCount := n, W_TotalTxBytes := b\<rparr>"

subsection \<open>Connecting, registering and waiting\<close>

text \<open>One attempt to connect and, when it failed, the case its \<open>select\<close> then takes.\<close>

datatype connect_event = Dialled | ConnectTimeLimit | ConnectStopped | ConnectRetry

definition w_connect :: "connect_event \<Rightarrow> 'w worker \<Rightarrow> 'w worker" where
  "w_connect ev w =
     (case ev of
        Dialled \<Rightarrow> w\<lparr>k_pc := W_Registering\<rparr>
      | ConnectTimeLimit \<Rightarrow> w\<lparr>k_pc := W_Ended (Some ''failed to reach coordinator within connect time limit'')\<rparr>
      | ConnectStopped \<Rightarrow> w\<lparr>k_pc := W_Ended (Some ''worker operations cancelled'')\<rparr>
      | ConnectRetry \<Rightarrow> w)"

definition w_register :: "go_error option \<Rightarrow> 'w worker \<Rightarrow> 'w worker" where
  "w_register res w =
     (w_say (zero_msg\<lparr>W_ID := k_id w\<rparr>) res w)
       \<lparr>k_pc := (case res of None \<Rightarrow> W_AwaitingReply | Some err \<Rightarrow> W_Ended (Some err))\<rparr>"

text \<open>The answer of the coordinator to the registration.\<close>

abbreviation w_setCfg :: "config \<Rightarrow> 'w worker \<Rightarrow> 'w worker" where
  "w_setCfg cfg w \<equiv> w\<lparr>k_cfg := cfg\<rparr>"

abbreviation w_Config :: "'w worker \<Rightarrow> config" where
  "w_Config w \<equiv> k_cfg w"

definition w_registered :: "'c registry \<Rightarrow> go_error + workerMsg \<Rightarrow> go_error option \<Rightarrow> 'w worker \<Rightarrow> 'w worker" where
  "w_registered reg r res w =
     (case r of
        Inl err \<Rightarrow> w\<lparr>k_pc := W_Ended (Some err)\<rparr>
      | Inr resp \<Rightarrow>
        if W_State resp \<noteq> workerAccepted
        then w\<lparr>k_pc := W_Ended (Some (''coordinator did not accept worker with state: '' @ W_State resp))\<rparr>
        else (case W_Config resp of
            None \<Rightarrow> fail_end ''missing configuration from coordinator'' res w
          | Some cfg \<Rightarrow>
            (case Config_Validate reg cfg of
               Some e \<Rightarrow> fail_end (config_error_text e) res w
             | None \<Rightarrow>
                if k_stop w then w\<lparr>k_pc := W_Ended (Some ''worker operations cancelled'')\<rparr>
                else (w_setCfg cfg w)\<lparr>k_pc := W_WaitingStart\<rparr>)))"

text \<open>One poll of \<open>waitForStart\<close>; the stop is looked at only after a failed read.\<close>

definition w_poll :: "go_error + workerMsg \<Rightarrow> go_error option \<Rightarrow> 'w worker \<Rightarrow> 'w worker" where
  "w_poll r res w =
     (case r of
        Inl _ \<Rightarrow> if k_stop w then fail_end ''worker operations cancelled'' res w else w
      | Inr msg \<Rightarrow>
        if W_State msg \<noteq> workerTesting
        then fail_end (''unexpected state change from coordinator: '' @ W_State msg) res w
        else w\<lparr>k_pc := W_Adding\<rparr>)"

subsection \<open>The load test\<close>

definition cancel_members :: "'w group_run \<Rightarrow> 'w group_run" where
  "cancel_members r = r\<lparr>members := map (\<lambda>m. m\<lparr>tr := Cancel (tr m)\<rparr>) (members r)\<rparr>"

definition w_cancel_group :: "'w worker \<Rightarrow> 'w worker" where
  "w_cancel_group w = w\<lparr>k_run := map_option cancel_members (k_run w)\<rparr>"

text \<open>\<open>AddAll\<close> and \<open>SetProgressCallback\<close>.\<close>

definition w_add :: "(go_error option \<times> 'w \<times> 'w group) option \<Rightarrow> go_error option \<Rightarrow> 'w worker \<Rightarrow> 'w worker" where
  "w_add r res w =
     (case r of
        None \<Rightarrow> w\<lparr>k_pc := W_Crashed\<rparr>
      | Some (Some err, _, _) \<Rightarrow> fail_end err res w
      | Some (None, _, g) \<Rightarrow>
          w\<lparr>k_group := g_SetProgressCallback workerUpdateInterval True g,
            k_clients := map snd (transactors g), k_pc := W_Starting\<rparr>)"

definition w_start :: "int \<Rightarrow> 'w list \<Rightarrow> 'w worker \<Rightarrow> 'w worker" where
  "w_start now ws w = w\<lparr>k_run := Some (g_Start now ws (k_group w)), k_pc := W_Started\<rparr>"

definition setInterrupt :: "string \<Rightarrow> 'w worker \<Rightarrow> 'w worker" where
  "setInterrupt name w = w\<lparr>interrupts := gset name () (interrupts w)\<rparr>"

definition removeInterrupt :: "string \<Rightarrow> 'w worker \<Rightarrow> 'w worker" where
  "removeInterrupt name w = w\<lparr>interrupts := gdel name (interrupts w)\<rparr>"

text \<open>The callback of the group: a report that cannot be written cancels the load test.\<close>

definition w_reportProgress :: "go_error option \<Rightarrow> int \<times> int \<Rightarrow> 'w worker \<Rightarrow> 'w worker" where
  "w_reportProgress res = (\<lambda>(n, b) w.
     (let w' = w_say (results_msg workerTesting w n b) res w in
      case res of None \<Rightarrow> w' | Some _ \<Rightarrow> w_cancel_group w'))"

text \<open>After \<open>Wait\<close>: an error ends the run, otherwise the results are reported.\<close>

definition w_waited :: "'w group_run \<Rightarrow> go_error option \<Rightarrow> 'w worker \<Rightarrow> 'w worker" where
  "w_waited r res w =
     (case g_Wait r of
        Some err \<Rightarrow> fail_end err res (removeInterrupt ''ExecuteStandalone'' w)
      | None \<Rightarrow> w\<lparr>k_pc := W_Reporting\<rparr>)"

definition w_reportFinalResults :: "'w group_run \<Rightarrow> go_error option \<Rightarrow> go_error option \<Rightarrow> 'w worker \<Rightarrow> 'w worker" where
  "w_reportFinalResults r res res' w =
     (let w' = removeInterrupt ''ExecuteStandalone''
             (w_say (results_msg workerCompleted w (totalTxs (grp r)) (totalBytes (grp r))) res w) in
      case res of
        None \<Rightarrow> w'\<lparr>k_pc := W_Ended None\<rparr>
      | Some err \<Rightarrow> fail_end err res' w')"

text \<open>
  \<open>cancel\<close> in its two parts: the interrupts are triggered, then, deferred, the stop channel is
  closed.
\<close>

abbreviation w_close_stop :: "'w worker \<Rightarrow> 'w worker" where
  "w_close_stop w \<equiv> w\<lparr>k_stop := True\<rparr>"

definition triggerInterrupts :: "'w worker \<Rightarrow> 'w worker" where
  "triggerInterrupts w =
     (if ghas (interrupts w) ''ExecuteStandalone'' then w_cancel_group w else w)\<lparr>k_interrupted := True\<rparr>"

definition running :: "worker_pc \<Rightarrow> bool" where
  "running p \<longleftrightarrow> p \<noteq> W_Crashed \<and> (\<forall>r. p \<noteq> W_Ended r)"

inductive worker_step :: "'w registry \<Rightarrow> group_env \<Rightarrow> 'w worker \<Rightarrow> 'w worker \<Rightarrow> bool" for reg env where
  connect: "k_pc w = W_Connecting \<Longrightarrow> (ev = ConnectStopped \<longrightarrow> k_stop w) \<Longrightarrow>
    worker_step reg env w (w_connect ev w)"
| register: "k_pc w = W_Registering \<Longrightarrow> worker_step reg env w (w_register res w)"
| registered: "k_pc w = W_AwaitingReply \<Longrightarrow> worker_step reg env w (w_registered reg r res w)"
| poll: "k_pc w = W_WaitingStart \<Longrightarrow> worker_step reg env w (w_poll r res w)"
| add: "k_pc w = W_Adding \<Longrightarrow>
    worker_step reg env w (w_add (AddAll reg env (w_Config w) (x, NewTransactorGroup)) res w)"
| start: "k_pc w = W_Starting \<Longrightarrow> length ws = length (transactors (k_group w)) \<Longrightarrow>
    worker_step reg env w (w_start now ws w)"
| interrupt_set: "k_pc w = W_Started \<Longrightarrow>
    worker_step reg env w ((setInterrupt ''ExecuteStandalone'' w)\<lparr>k_pc := W_Running\<rparr>)"
| group: "k_pc w \<in> {W_Started, W_Running} \<Longrightarrow> k_run w = Some r \<Longrightarrow> group_step (k_clients w) r r' \<Longrightarrow>
    g_reports r' = g_reports r \<Longrightarrow> worker_step reg env w (w\<lparr>k_run := Some r'\<rparr>)"
| progress: "k_pc w \<in> {W_Started, W_Running} \<Longrightarrow> k_run w = Some r \<Longrightarrow> group_step (k_clients w) r r' \<Longrightarrow>
    g_reports r' = g_reports r @ [nb] \<Longrightarrow>
    worker_step reg env w (w_reportProgress res nb (w\<lparr>k_run := Some r'\<rparr>))"
| waited: "k_pc w = W_Running \<Longrightarrow> k_run w = Some r \<Longrightarrow> wait_done r \<Longrightarrow>
    worker_step reg env w (w_waited r res w)"
| report: "k_pc w = W_Reporting \<Longrightarrow> k_run w = Some r \<Longrightarrow>
    worker_step reg env w (w_reportFinalResults r res res' w)"
| trap: "running (k_pc w) \<Longrightarrow> \<not> k_interrupted w \<Longrightarrow> worker_step reg env w (triggerInterrupts w)"
| stopped: "k_interrupted w \<Longrightarrow> \<not> k_stop w \<Longrightarrow> worker_step reg env w (w_close_stop w)"

subsection \<open>What a worker says\<close>

definition talk :: "'w worker \<Rightarrow> string list" where
  "talk w = map (\<lambda>m. W_State (fst m)) (k_said w)"

definition spoke :: "nat \<Rightarrow> string list" where
  "spoke n = [] # replicate n workerTesting"

lemma spoke_append [simp]: "spoke n @ [workerTesting] = spoke (Suc n)"
  by (simp add: spoke_def replicate_append_same)

text \<open>The states of the messages said so far, by program point.\<close>

fun said_ok :: "worker_pc \<Rightarrow> string list \<Rightarrow> bool" where
  "said_ok W_Connecting t \<longleftrightarrow> t = []"
| "said_ok W_Registering t \<longleftrightarrow> t = []"
| "said_ok W_Started t \<longleftrightarrow> (\<exists>n. t = spoke n)"
| "said_ok W_Running t \<longleftrightarrow> (\<exists>n. t = spoke n)"
| "said_ok W_Reporting t \<longleftrightarrow> (\<exists>n. t = spoke n)"
| "said_ok (W_Ended None) t \<longleftrightarrow> (\<exists>n. t = spoke n @ [workerCompleted])"
| "said_ok (W_Ended (Some e)) t \<longleftrightarrow> t = [] \<or> t = spoke 0 \<or> (\<exists>n. t = spoke n @ [workerFailed]) \<or>
     (\<exists>n. t = spoke n @ [workerCompleted, workerFailed])"
| "said_ok _ t \<longleftrightarrow> t = spoke 0"

text \<open>The group inside: made by \<open>AddAll\<close>, then running, then done without error.\<close>

definition made_group :: "nat \<Rightarrow> 'w group \<Rightarrow> bool" where
  "made_group n g \<longleftrightarrow> length (transactors g) = n \<and> txCounts g = [] \<and> g_txBytes g = [] \<and>
     (\<forall>i < n. progressCallbackID (fst (transactors g ! i)) = int i)"

definition ended_well :: "nat \<Rightarrow> 'w group_run \<Rightarrow> bool" where
  "ended_well n r \<longleftrightarrow> group_ok n r \<and> wait_done r \<and> g_Wait r = None"

fun run_ok :: "worker_pc \<Rightarrow> nat \<Rightarrow> 'w group \<Rightarrow> 'w group_run option \<Rightarrow> bool" where
  "run_ok W_Starting n g r \<longleftrightarrow> made_group n g"
| "run_ok W_Started n g r \<longleftrightarrow> pred_option (group_ok n) r \<and> r \<noteq> None"
| "run_ok W_Running n g r \<longleftrightarrow> pred_option (group_ok n) r \<and> r \<noteq> None"
| "run_ok W_Reporting n g r \<longleftrightarrow> pred_option (ended_well n) r \<and> r \<noteq> None"
| "run_ok (W_Ended None) n g r \<longleftrightarrow> pred_option (ended_well n) r \<and> r \<noteq> None"
| "run_ok _ n g r \<longleftrightarrow> True"

text \<open>The last message of a successful run.\<close>

definition final_ok :: "'w worker \<Rightarrow> bool" where
  "final_ok w \<longleftrightarrow> (k_pc w = W_Ended None \<longrightarrow> k_said w \<noteq> [] \<and>
     last (k_said w) = (results_msg workerCompleted w (totalTxs (grp (the (k_run w))))
       (totalBytes (grp (the (k_run w)))), None))"

definition worker_ok :: "'w worker \<Rightarrow> bool" where
  "worker_ok w \<longleftrightarrow> list_all (\<lambda>m. W_ID (fst m) = k_id w) (k_said w) \<and> said_ok (k_pc w) (talk w) \<and>
     run_ok (k_pc w) (length (k_clients w)) (k_group w) (k_run w) \<and> final_ok w"

lemma worker_updates [simp]:
  "talk (w_say m res w) = talk w @ [W_State m]"
  "k_id (w_say m res w) = k_id w" "k_clients (w_say m res w) = k_clients w"
  "k_group (w_say m res w) = k_group w" "k_run (w_say m res w) = k_run w" "k_pc (w_say m res w) = k_pc w"
  "k_said (w_say m res w) = k_said w @ [(m, res)]" "k_cfg (w_say m res w) = k_cfg w"
  "k_said (w_cancel_group w) = k_said w" "k_id (w_cancel_group w) = k_id w"
  "k_clients (w_cancel_group w) = k_clients w" "k_pc (w_cancel_group w) = k_pc w"
  "k_group (w_cancel_group w) = k_group w" "k_run (w_cancel_group w) = map_option cancel_members (k_run w)"
  "W_State (results_msg st w n b) = st" "W_ID (results_msg st w n b) = k_id w"
  by (simp_all add: talk_def w_say_def w_cancel_group_def results_msg_def)

lemma talk_fields [simp]:
  "talk (w\<lparr>k_pc := p\<rparr>) = talk w" "talk (w\<lparr>k_run := r\<rparr>) = talk w" "talk (w\<lparr>k_stop := x\<rparr>) = talk w"
  "talk (w\<lparr>k_interrupted := y\<rparr>) = talk w" "talk (w\<lparr>interrupts := i\<rparr>) = talk w"
  "talk (w\<lparr>k_cfg := c\<rparr>) = talk w" "talk (w\<lparr>k_group := g\<rparr>) = talk w"
  "talk (w\<lparr>k_clients := cs\<rparr>) = talk w" "talk (w_cancel_group w) = talk w"
  by (simp_all add: talk_def w_cancel_group_def)

lemma results_msg_fields [simp]:
  "results_msg st (w\<lparr>k_pc := p\<rparr>) n b = results_msg st w n b"
  "results_msg st (w\<lparr>k_stop := x\<rparr>) n b = results_msg st w n b"
  "results_msg st (w\<lparr>interrupts := i\<rparr>) n b = results_msg st w n b"
  "results_msg st (w_say m res w) n b = results_msg st w n b"
  by (simp_all add: results_msg_def)

text \<open>Cancelling the group is cancelling its members one after the other.\<close>

lemma cancel_members_run: "(group_step cls)\<^sup>*\<^sup>* r (cancel_members r)"
proof -
  let ?c = "\<lambda>m. m\<lparr>tr := Cancel (tr m)\<rparr>"
  let ?r = "\<lambda>k. r\<lparr>members := map ?c (take k (members r)) @ drop k (members r)\<rparr>"
  have "(group_step cls)\<^sup>*\<^sup>* r (?r k)" if "k \<le> length (members r)" for k
    using that
  proof (induction k)
    case 0
    then show ?case by simp
  next
    case (Suc k)
    have "group_step cls (?r k) ((?r k)\<lparr>members := (members (?r k))[k := ?c (members (?r k) ! k)],
        grp := fold trackTransactorProgress [] (grp (?r k))\<rparr>)"
      by (rule group_step.member [OF _ send_step.cancelled]) (use Suc.prems in simp_all)
    also have "\<dots> = ?r (Suc k)"
      using Suc.prems
      by (simp add: take_Suc_conv_app_nth list_update_append nth_append Cons_nth_drop_Suc [symmetric])
    finally show ?case using Suc by (simp add: rtranclp.rtrancl_into_rtrancl)
  qed
  from this [of "length (members r)"] show ?thesis by (simp add: cancel_members_def)
qed

lemma group_ok_cancel: "group_ok n r \<Longrightarrow> group_ok n (cancel_members r)"
  using cancel_members_run by (rule group_inv.run_keeps)

lemma ended_well_cancel: "ended_well n r \<Longrightarrow> ended_well n (cancel_members r)"
  by (simp add: ended_well_def group_ok_cancel)
    (simp add: wait_done_def g_Wait_def cancel_members_def)

lemma run_ok_cancel: "run_ok p n g r \<Longrightarrow> run_ok p n g (map_option cancel_members r)"
  by (induction p n g r rule: run_ok.induct)
    (auto simp: option.pred_map comp_def group_ok_cancel ended_well_cancel elim: option.pred_mono_strong)

lemma final_ok_cancel: "final_ok w \<Longrightarrow> running (k_pc w) \<Longrightarrow> final_ok (w_cancel_group w)"
  by (simp add: final_ok_def running_def)

lemma worker_ok_cancel: "worker_ok w \<Longrightarrow> running (k_pc w) \<Longrightarrow> worker_ok (w_cancel_group w)"
  by (simp add: worker_ok_def run_ok_cancel final_ok_cancel)

lemma w_add_ok:
  assumes "worker_ok w" and "k_pc w = W_Adding"
  shows "worker_ok (w_add (AddAll reg env cfg (x, NewTransactorGroup)) res w)"
proof -
  have t: "talk w = spoke 0" and ids: "list_all (\<lambda>m. W_ID (fst m) = k_id w) (k_said w)"
    using assms by (simp_all add: worker_ok_def)
  show ?thesis
  proof (cases "AddAll reg env cfg (x, NewTransactorGroup)")
    case None
    with t ids show ?thesis by (simp add: w_add_def worker_ok_def final_ok_def)
  next
    case (Some a)
    obtain e x' g where a: "a = (e, x', g)" by (cases a)
    show ?thesis
    proof (cases e)
      case None
      with add_all_group Some a
      have "made_group (length (transactors g)) (g_SetProgressCallback workerUpdateInterval True g)"
        by (fastforce simp: made_group_def g_SetProgressCallback_def)
      with t ids Some a None show ?thesis by (simp add: w_add_def worker_ok_def final_ok_def)
    next
      case (Some err)
      with t ids \<open>AddAll _ _ _ _ = _\<close> a show ?thesis
        by (auto simp: w_add_def worker_ok_def final_ok_def fail_end_def w_fail_def)
    qed
  qed
qed

lemma talking_ok:
  "said_ok W_WaitingStart t \<longleftrightarrow> t = spoke 0" "said_ok W_Adding t \<longleftrightarrow> t = spoke 0"
  "said_ok W_Starting t \<longleftrightarrow> t = spoke 0" "said_ok W_AwaitingReply t \<longleftrightarrow> t = spoke 0"
  by simp_all

lemma fail_end_ok:
  assumes "worker_ok w" and "k_pc w \<in> {W_AwaitingReply, W_WaitingStart, W_Running}"
  shows "worker_ok (fail_end err res w)"
proof -
  have "\<exists>n. talk w = spoke n" using assms by (auto simp: worker_ok_def)
  with assms(1) show ?thesis
    by (auto simp: worker_ok_def fail_end_def w_fail_def final_ok_def)
qed

lemma w_reportFinalResults_ok:
  assumes "worker_ok w" and "k_pc w = W_Reporting" and "k_run w = Some r"
  shows "worker_ok (w_reportFinalResults r res res' w)"
proof -
  have "\<exists>n. talk w = spoke n" using assms by (auto simp: worker_ok_def)
  with assms show ?thesis
    by (auto simp: worker_ok_def w_reportFinalResults_def fail_end_def w_fail_def removeInterrupt_def
        final_ok_def Let_def split: option.splits)
qed

lemma w_reportProgress_ok:
  assumes "worker_ok w" and "k_pc w \<in> {W_Started, W_Running}"
  shows "worker_ok (w_reportProgress res nb w)"
proof -
  obtain n where n: "talk w = spoke n" using assms by (auto simp: worker_ok_def)
  have "worker_ok (w_say (results_msg workerTesting w x y) res w)" for x y
    using assms n spoke_append [of n] by (auto simp: worker_ok_def final_ok_def)
  moreover have "running (k_pc w)" using assms(2) by (auto simp: running_def)
  ultimately show ?thesis
    by (cases nb; cases res) (simp_all add: w_reportProgress_def Let_def worker_ok_cancel)
qed

lemma group_moves_ok:
  assumes "worker_ok w" and "k_pc w \<in> {W_Started, W_Running}" and "k_run w = Some r"
    and "group_step (k_clients w) r r'"
  shows "worker_ok (w\<lparr>k_run := Some r'\<rparr>)"
  using assms by (auto simp: worker_ok_def final_ok_def intro: group_step_ok)

lemma worker_step_ok:
  assumes "worker_step reg env w w'" and "worker_ok w"
  shows "worker_ok w'"
  using assms(1)
proof (cases rule: worker_step.cases)
  case (connect ev)
  with assms(2) show ?thesis
    by (cases ev) (simp_all add: w_connect_def worker_ok_def final_ok_def)
next
  case (register res)
  with assms(2) show ?thesis
    by (cases res) (simp_all add: w_register_def worker_ok_def final_ok_def spoke_def zero_msg_def)
next
  case (registered r res)
  with assms(2) have "worker_ok (fail_end err res w)" for err by (simp add: fail_end_ok)
  with assms(2) registered show ?thesis
    by (auto simp: w_registered_def worker_ok_def final_ok_def split: sum.split option.split)
next
  case (poll r res)
  with assms(2) have "worker_ok (fail_end err res w)" for err by (simp add: fail_end_ok)
  with assms(2) poll show ?thesis
    by (auto simp: w_poll_def worker_ok_def final_ok_def split: sum.split)
next
  case (add x res)
  with assms(2) show ?thesis by (simp add: w_add_ok)
next
  case (start ws now)
  with assms(2) have "group_ok (length (k_clients w)) (g_Start now ws (k_group w))"
    using g_Start_ok [of ws "k_group w" now] by (auto simp: worker_ok_def made_group_def)
  with start assms(2) show ?thesis
    by (auto simp: w_start_def worker_ok_def final_ok_def spoke_def intro: exI [of _ 0])
next
  case interrupt_set
  with assms(2) show ?thesis
    by (simp add: setInterrupt_def worker_ok_def final_ok_def)
next
  case (group r r')
  with assms(2) show ?thesis by (simp add: group_moves_ok)
next
  case (progress r r' nb res)
  with assms(2) have "worker_ok (w\<lparr>k_run := Some r'\<rparr>)" by (simp add: group_moves_ok)
  with progress show ?thesis by (simp add: w_reportProgress_ok)
next
  case (waited r res)
  with assms(2) have "worker_ok (removeInterrupt ''ExecuteStandalone'' w)"
    by (simp add: worker_ok_def removeInterrupt_def final_ok_def)
  with waited have "worker_ok (fail_end err res (removeInterrupt ''ExecuteStandalone'' w))" for err
    by (intro fail_end_ok) (simp_all add: removeInterrupt_def)
  with waited assms(2) show ?thesis
    by (auto simp: w_waited_def worker_ok_def final_ok_def ended_well_def split: option.split)
next
  case (report r res res')
  with assms(2) show ?thesis by (simp add: w_reportFinalResults_ok)
next
  case trap
  with assms(2) have "worker_ok (w_cancel_group w)" by (simp add: worker_ok_cancel)
  with assms(2) trap show ?thesis
    by (auto simp: triggerInterrupts_def worker_ok_def final_ok_def running_def)
next
  case stopped
  with assms(2) show ?thesis by (auto simp: worker_ok_def final_ok_def)
qed

interpretation worker_inv: kept_by_relation "worker_step reg env" worker_ok for reg env
  by unfold_locales (rule worker_step_ok)

lemma NewWorker_ok: "NewWorker ucd uuid wcfg = Inr w \<Longrightarrow> worker_ok w"
  by (auto simp: NewWorker_def worker_ok_def talk_def final_ok_def Let_def split: if_splits)

definition conversation :: "string list \<Rightarrow> bool" where
  "conversation t \<longleftrightarrow> (\<exists>n. prefix t (spoke n @ [workerCompleted, workerFailed]) \<or> t = spoke n @ [workerFailed])"

lemma conversation_simps:
  "conversation []" "conversation (spoke n)" "conversation (spoke n @ [workerFailed])"
  "conversation (spoke n @ [workerCompleted])" "conversation (spoke n @ [workerCompleted, workerFailed])"
  by (auto simp: conversation_def intro: exI [of _ n] prefixI)

lemma said_ok_conversation: "said_ok p t \<Longrightarrow> conversation t"
  by (induction p t rule: said_ok.induct) (auto simp: conversation_simps)

text \<open>C22: a worker speaks the protocol of the coordinator: in every schedule of its load test, its
  callbacks, failing writes and interrupts, all its messages carry its id, the first is its
  registration, then come updates, then at most one completion and at most one failure, and a
  worker that said neither has not returned success.\<close>

theorem worker_conversation:
  assumes "NewWorker ucd uuid wcfg = Inr w0" and "(worker_step reg env)\<^sup>*\<^sup>* w0 w"
  shows "list_all (\<lambda>m. W_ID (fst m) = k_id w) (k_said w) \<and>
    (\<exists>n. prefix (talk w) (spoke n @ [workerCompleted, workerFailed]) \<or> talk w = spoke n @ [workerFailed]) \<and>
    (k_pc w = W_Ended None \<longrightarrow> (\<exists>n. talk w = spoke n @ [workerCompleted]))"
proof -
  have ok: "worker_ok w" using assms(2) NewWorker_ok [OF assms(1)] by (rule worker_inv.run_keeps)
  then have "conversation (talk w)" by (auto simp: worker_ok_def intro: said_ok_conversation)
  with ok show ?thesis unfolding conversation_def by (auto simp: worker_ok_def)
qed

text \<open>C21: a worker that returns success has done its load test and said so: every transactor of its
  group has ended, none of the results collected from them was an error, and the last message,
  written without error, is the completion with exactly the transactions and bytes that the
  transactors counted.\<close>

theorem worker_success_exact:
  assumes "NewWorker ucd uuid wcfg = Inr w0" and "(worker_step reg env)\<^sup>*\<^sup>* w0 w"
    and "k_pc w = W_Ended None"
  shows "\<exists>r. k_run w = Some r \<and> list_all (\<lambda>m. pc m = Returned) (members r) \<and> g_Wait r = None \<and>
    last (k_said w) = (zero_msg\<lparr>W_ID := k_id w, W_State := workerCompleted,
      W_TxCount := go_sum (map (\<lambda>m. txCount (tr m)) (members r)),
      W_TotalTxBytes := go_sum (map (\<lambda>m. txBytes (tr m)) (members r))\<rparr>, None)"
proof -
  have ok: "worker_ok w" using assms(2) NewWorker_ok [OF assms(1)] by (rule worker_inv.run_keeps)
  with assms(3) obtain r where r: "k_run w = Some r" "ended_well (length (k_clients w)) r"
    by (auto simp: worker_ok_def)
  then have g: "group_ok (length (k_clients w)) r" "wait_done r" "g_Wait r = None"
    by (simp_all add: ended_well_def)
  from ok assms(3) r(1) have "last (k_said w) = (results_msg workerCompleted w (totalTxs (grp r)) (totalBytes (grp r)), None)"
    by (simp add: worker_ok_def final_ok_def)
  with r(1) g(3) wait_totals [OF g(1,2)] show ?thesis by (simp add: results_msg_def)
qed

subsection \<open>A concrete worker\<close>

lemma group_step_reports:
  "group_step cls r r' \<Longrightarrow> g_reports r' = g_reports r \<or> (\<exists>nb. g_reports r' = g_reports r @ [nb])"
  by (cases rule: group_step.cases) (auto simp: g_reportProgress_def)

lemma worker_runs_group:
  assumes "(group_step (k_clients w))\<^sup>*\<^sup>* r r'" and "k_pc w \<in> {W_Started, W_Running}" and "k_run w = Some r"
  shows "\<exists>said. (worker_step reg env)\<^sup>*\<^sup>* w (w\<lparr>k_run := Some r', k_said := said\<rparr>)"
  using assms(1)
proof (induction rule: rtranclp_induct)
  case base
  have "w = w\<lparr>k_run := Some r, k_said := k_said w\<rparr>" using assms(3) by simp
  then show ?case by (metis rtranclp.rtrancl_refl)
next
  case (step y z)
  then obtain said where said: "(worker_step reg env)\<^sup>*\<^sup>* w (w\<lparr>k_run := Some y, k_said := said\<rparr>)" by blast
  let ?w = "w\<lparr>k_run := Some y, k_said := said\<rparr>"
  have "\<exists>said'. worker_step reg env ?w (w\<lparr>k_run := Some z, k_said := said'\<rparr>)"
  proof (cases "g_reports z = g_reports y")
    case True
    have "worker_step reg env ?w (?w\<lparr>k_run := Some z\<rparr>)"
      by (rule worker_step.group [where r = y]) (use assms(2) step.hyps(2) True in simp_all)
    moreover have "?w\<lparr>k_run := Some z\<rparr> = w\<lparr>k_run := Some z, k_said := said\<rparr>" by (cases w) simp
    ultimately show ?thesis by metis
  next
    case False
    with group_step_reports [OF step.hyps(2)] obtain nb where "g_reports z = g_reports y @ [nb]" by blast
    then have "worker_step reg env ?w (w_reportProgress None nb (?w\<lparr>k_run := Some z\<rparr>))"
      by (intro worker_step.progress [where r = y]) (use assms(2) step.hyps(2) in auto)
    moreover have "w_reportProgress None nb (?w\<lparr>k_run := Some z\<rparr>) =
        w\<lparr>k_run := Some z, k_said := k_said (w_reportProgress None nb (?w\<lparr>k_run := Some z\<rparr>))\<rparr>"
      by (cases w) (simp add: w_reportProgress_def w_say_def split_beta)
    ultimately show ?thesis by metis
  qed
  with said show ?case by (meson rtranclp.rtrancl_into_rtrancl)
qed

abbreviation demo_registry :: "unit registry" where
  "demo_registry \<equiv> [(''demo'', demo_factory)]"

text \<open>From the start of its load test, the group of one runs to its time limit and is reported.\<close>

lemma demo_finishes_with:
  assumes "k_pc w = W_Adding" and "k_cfg w = solo_cfg"
    and run: "(group_step [constant_client ''tx''])\<^sup>*\<^sup>* (solo_start workerUpdateInterval True) r"
      "wait_done r" "g_Wait r = None"
  shows "\<exists>w'. (worker_step demo_registry (demo_env 1))\<^sup>*\<^sup>* w w' \<and> k_pc w' = W_Ended None \<and> k_run w' = Some r"
proof -
  let ?step = "worker_step demo_registry (demo_env 1)"
  let ?g = "g_SetProgressCallback workerUpdateInterval True solo_group"
  let ?w1 = "w\<lparr>k_group := ?g, k_clients := map snd (transactors solo_group), k_pc := W_Starting\<rparr>"
  let ?w2 = "w_start 0 [()] ?w1"
  let ?w3 = "(setInterrupt ''ExecuteStandalone'' ?w2)\<lparr>k_pc := W_Running\<rparr>"
  have 1: "?step w ?w1"
    using worker_step.add [OF assms(1), of demo_registry "demo_env 1" "()" None] solo_add_all
    by (simp add: w_add_def assms(2))
  have 2: "?step ?w1 ?w2"
    by (rule worker_step.start) (simp_all add: g_SetProgressCallback_def solo_group_def NewTransactorGroup_def)
  have 3: "?step ?w2 ?w3" by (rule worker_step.interrupt_set) (simp add: w_start_def)
  have "k_clients ?w3 = [constant_client ''tx'']"
    by (simp add: setInterrupt_def w_start_def solo_group_def)
  with run have r: "(group_step (k_clients ?w3))\<^sup>*\<^sup>* (solo_start workerUpdateInterval True) r" "wait_done r"
      "g_Wait r = None" by simp_all
  obtain said where 4: "?step\<^sup>*\<^sup>* ?w3 (?w3\<lparr>k_run := Some r, k_said := said\<rparr>)"
    using worker_runs_group [OF r(1), of demo_registry "demo_env 1"]
    by (auto simp: setInterrupt_def w_start_def)
  let ?w4 = "?w3\<lparr>k_run := Some r, k_said := said\<rparr>"
  have 5: "?step ?w4 (w_waited r None ?w4)" by (rule worker_step.waited) (simp_all add: r(2))
  have 6: "?step (w_waited r None ?w4) (w_reportFinalResults r None None (w_waited r None ?w4))"
    by (rule worker_step.report) (simp_all add: w_waited_def r(3))
  have "?step\<^sup>*\<^sup>* w (w_reportFinalResults r None None (w_waited r None ?w4))"
    using 1 2 3 4 5 6 by (meson converse_rtranclp_into_rtranclp rtranclp.rtrancl_into_rtrancl)
  moreover have "k_pc (w_reportFinalResults r None None (w_waited r None ?w4)) = W_Ended None"
    "k_run (w_reportFinalResults r None None (w_waited r None ?w4)) = Some r"
    by (simp_all add: w_reportFinalResults_def w_waited_def r(3) removeInterrupt_def Let_def)
  ultimately show ?thesis by blast
qed

lemma demo_finishes:
  assumes "k_pc w = W_Adding" and "k_cfg w = solo_cfg"
  shows "\<exists>w'. (worker_step demo_registry (demo_env 1))\<^sup>*\<^sup>* w w' \<and> k_pc w' = W_Ended None"
  using solo_run [of "[constant_client ''tx'']"] demo_finishes_with [OF assms] by blast

definition demo_worker_cfg :: worker_config where
  "demo_worker_cfg = \<lparr>WorkerID = ''w'', CoordAddr = ''ws://localhost:26670'', CoordConnectTimeout = 180\<rparr>"

definition demo_worker :: "unit worker" where
  "demo_worker = \<lparr>k_id = ''w'', k_workerCfg = demo_worker_cfg, k_cfg = zero_config, k_pc = W_Connecting,
     interrupts = [], k_interrupted = False, k_stop = False, k_said = [], k_clients = [],
     k_group = NewTransactorGroup, k_run = None\<rparr>"

definition ascii_only :: unicode_tables where
  "ascii_only = \<lparr>table_lower = (\<lambda>_. False), table_digit = (\<lambda>_. False)\<rparr>"

lemma demo_worker_new: "NewWorker ascii_only ''u'' demo_worker_cfg = Inr demo_worker"
proof -
  have "runes ''w'' = [119]" by (simp add: runes_def decode_rune_def)
  then have "isValidWorkerID ascii_only ''w''" by (simp add: isValidWorkerID_def IsLower_def)
  then show ?thesis by (simp add: NewWorker_def demo_worker_cfg_def demo_worker_def Let_def)
qed

text \<open>The worker registers, is accepted with the configuration of the group of one, and is started.\<close>

definition demo_adding :: "unit worker" where
  "demo_adding = demo_worker\<lparr>k_cfg := solo_cfg, k_pc := W_Adding, k_said := [(zero_msg\<lparr>W_ID := ''w''\<rparr>, None)]\<rparr>"

lemma demo_to_adding: "(worker_step demo_registry (demo_env 1))\<^sup>*\<^sup>* demo_worker demo_adding"
proof -
  let ?step = "worker_step demo_registry (demo_env 1)"
  let ?msg = "zero_msg\<lparr>W_State := workerAccepted, W_Config := Some solo_cfg\<rparr>"
  let ?w1 = "w_connect Dialled demo_worker"
  let ?w2 = "w_register None ?w1"
  let ?w3 = "w_registered demo_registry (Inr ?msg) None ?w2"
  let ?w4 = "w_poll (Inr (zero_msg\<lparr>W_State := workerTesting\<rparr>)) None ?w3"
  have 3: "?w3 = ?w2\<lparr>k_cfg := solo_cfg, k_pc := W_WaitingStart\<rparr>"
    by (simp add: w_registered_def w_register_def w_connect_def w_say_def demo_worker_def
        Config_Validate_def demo_factory_def solo_cfg_def flag_defaults_def validBroadcastTxMethods_def
        validEndpointSelectMethods_def SelectSuppliedEndpoints_def)
  have "?step demo_worker ?w1" by (rule worker_step.connect) (simp_all add: demo_worker_def)
  moreover have "?step ?w1 ?w2" by (rule worker_step.register) (simp add: w_connect_def)
  moreover have "?step ?w2 ?w3" by (rule worker_step.registered) (simp add: w_register_def)
  moreover have "?step ?w3 ?w4" by (rule worker_step.poll) (simp only: 3, simp)
  ultimately have "?step\<^sup>*\<^sup>* demo_worker ?w4" by (meson r_into_rtranclp rtranclp.rtrancl_into_rtrancl)
  moreover have "?w4 = demo_adding"
    unfolding 3 by (simp add: w_poll_def w_register_def w_connect_def w_say_def demo_adding_def demo_worker_def)
  ultimately show ?thesis by simp
qed

lemma demo_success:
  "\<exists>w. (worker_step demo_registry (demo_env 1))\<^sup>*\<^sup>* demo_worker w \<and> k_pc w = W_Ended None"
  using demo_to_adding demo_finishes [of demo_adding] rtranclp_trans
  by (fastforce simp: demo_adding_def)

theorem worker_conversation_witness:
  "\<exists>w n. (worker_step demo_registry (demo_env 1))\<^sup>*\<^sup>* demo_worker w \<and> k_pc w = W_Ended None \<and>
     talk w = spoke n @ [workerCompleted]"
proof -
  obtain w where "(worker_step demo_registry (demo_env 1))\<^sup>*\<^sup>* demo_worker w" "k_pc w = W_Ended None"
    using demo_success by blast
  with worker_conversation [OF demo_worker_new this(1)] show ?thesis by blast
qed

theorem worker_success_exact_witness:
  "\<exists>w. (worker_step demo_registry (demo_env 1))\<^sup>*\<^sup>* demo_worker w \<and>
     W_State (fst (last (k_said w))) = workerCompleted"
proof -
  obtain w where "(worker_step demo_registry (demo_env 1))\<^sup>*\<^sup>* demo_worker w" "k_pc w = W_Ended None"
    using demo_success by blast
  with worker_success_exact [OF demo_worker_new this] show ?thesis
    by (intro exI [of _ w]) auto
qed

text \<open>An interrupt can be lost.  Between the last look at the stop channel and the registration
  of the interrupt with the running group, while the worker connects to the endpoints, an
  interrupt reaches nobody: there is a run in which the worker is told to stop and its stop
  channel is closed before its load test begins, and yet it runs the whole test and returns
  success.\<close>

theorem interrupt_can_be_lost:
  "\<exists>w1 w2. NewWorker ascii_only ''u'' demo_worker_cfg = Inr demo_worker \<and>
     (worker_step demo_registry (demo_env 1))\<^sup>*\<^sup>* demo_worker w1 \<and>
     k_interrupted w1 \<and> k_stop w1 \<and> k_run w1 = None \<and>
     (worker_step demo_registry (demo_env 1))\<^sup>*\<^sup>* w1 w2 \<and> k_pc w2 = W_Ended None"
proof -
  let ?step = "worker_step demo_registry (demo_env 1)"
  let ?t = "triggerInterrupts demo_adding"
  let ?w = "?t\<lparr>k_stop := True\<rparr>"
  have t: "?t = demo_adding\<lparr>k_interrupted := True\<rparr>"
    by (simp add: triggerInterrupts_def demo_adding_def demo_worker_def ghas_def)
  have "?step demo_adding ?t"
    by (rule worker_step.trap) (simp_all add: demo_adding_def demo_worker_def running_def)
  moreover have "?step ?t ?w"
    by (rule worker_step.stopped) (simp_all add: t, simp add: demo_adding_def demo_worker_def)
  ultimately have 1: "?step\<^sup>*\<^sup>* demo_worker ?w"
    using demo_to_adding by (meson rtranclp.rtrancl_into_rtrancl)
  have "k_pc ?w = W_Adding" "k_cfg ?w = solo_cfg" by (simp_all add: t) (simp_all add: demo_adding_def)
  from demo_finishes [OF this] obtain w2 where "?step\<^sup>*\<^sup>* ?w w2" "k_pc w2 = W_Ended None" by blast
  moreover have "k_interrupted ?w" "k_stop ?w" "k_run ?w = None"
    by (simp_all add: t) (simp add: demo_adding_def demo_worker_def)
  ultimately show ?thesis using 1 demo_worker_new by blast
qed

end
