(* ===== verification/Standalone_Cli.thy ===== *)
theory Standalone_Cli
  imports Network_Info Transactor_Group Agg_Stats Load_Coordinator Worker_Client
begin

section \<open>Standalone execution and the command line (loadtest.go, cli.go, main.go)\<close>

text \<open>
  \<open>ExecuteStandalone\<close> finds its endpoints, makes a group, runs it to its end and writes the
  statistics; the command line validates its configuration, runs one of the three modes and turns
  the outcome into an exit code.  The group runs by the steps of Transactor_Group; an interrupt is
  a cancellation of its members.
\<close>

record standalone_env =
  sa_crawl :: crawl_env
  sa_lookup :: ip_lookup
  sa_rounds :: "crawl_round list"
  sa_group :: group_env
  sa_create :: "string \<Rightarrow> go_error option"

text \<open>The crawl that a configuration asks for; the coordinator asks for the same.\<close>

definition waitForPeers :: "standalone_env \<Rightarrow> config \<Rightarrow> (go_error + string list) option" where
  "waitForPeers env cfg =
     waitForNetworkPeers (sa_crawl env) (sa_lookup env) (Endpoints cfg) (EndpointSelectMethod cfg)
       (ExpectPeers cfg) (MinConnectivity cfg) (MaxEndpoints cfg)
       (seconds_duration (PeerConnectTimeout cfg)) (sa_rounds env)"

definition find_endpoints :: "standalone_env \<Rightarrow> config \<Rightarrow> (go_error + config) option" where
  "find_endpoints env cfg =
     (if ExpectPeers cfg > 0
      then map_option (map_sum id (\<lambda>peers. cfg\<lparr>Endpoints := peers\<rparr>)) (waitForPeers env cfg)
      else Some (Inr cfg))"

definition g_WriteAggregateStats ::
    "(string \<Rightarrow> go_error option) \<Rightarrow> string \<Rightarrow> int \<Rightarrow> 'w group \<Rightarrow> go_error + string \<times> string" where
  "g_WriteAggregateStats createErr filename now g =
     writeAggregateStats createErr filename
       \<lparr>TotalTxs = totalTxs g, TotalTimeSeconds = seconds (now - getStartTime g),
        TotalBytes = totalBytes g, AvgTxRate = 0, AvgDataRate = 0\<rparr>"

text \<open>From the end of \<open>Wait\<close> on: the error and the files written.\<close>

definition standalone_end ::
    "standalone_env \<Rightarrow> config \<Rightarrow> int \<Rightarrow> 'w group_run \<Rightarrow> go_error option \<times> (string \<times> string) list" where
  "standalone_end env cfg now s =
     (case g_Wait s of
        Some err \<Rightarrow> (Some err, [])
      | None \<Rightarrow>
        if StatsOutputFile cfg \<noteq> [] then
          (case g_WriteAggregateStats (sa_create env) (StatsOutputFile cfg) now (grp s) of
             Inl err \<Rightarrow> (Some err, [])
           | Inr file \<Rightarrow> (None, [file]))
        else (None, []))"

text \<open>
  \<open>ExecuteStandalone\<close>: its error, the files it wrote and the final state of its group, if it came
  to that.
\<close>

inductive ExecuteStandalone ::
    "'w registry \<Rightarrow> standalone_env \<Rightarrow> config \<Rightarrow> 'w \<Rightarrow> go_error option \<Rightarrow> (string \<times> string) list \<Rightarrow>
     'w group_run option \<Rightarrow> bool" for reg env cfg w where
  no_peers: "find_endpoints env cfg = Some (Inl err) \<Longrightarrow> ExecuteStandalone reg env cfg w (Some err) [] None"
| not_connected: "find_endpoints env cfg = Some (Inr cfg') \<Longrightarrow>
    AddAll reg (sa_group env) cfg' (w, NewTransactorGroup) = Some (Some err, w', g) \<Longrightarrow>
    ExecuteStandalone reg env cfg w (Some err) [] None"
| ran: "find_endpoints env cfg = Some (Inr cfg') \<Longrightarrow>
    AddAll reg (sa_group env) cfg' (w, NewTransactorGroup) = Some (None, w', g) \<Longrightarrow>
    length ws = length (transactors g) \<Longrightarrow>
    (group_step (map snd (transactors g)))\<^sup>*\<^sup>* (g_Start now ws g) s \<Longrightarrow> wait_done s \<Longrightarrow>
    standalone_end env cfg' now' s = (res, files) \<Longrightarrow>
    ExecuteStandalone reg env cfg w res files (Some s)"

inductive_cases standalone_groupE: "ExecuteStandalone reg env cfg w res files (Some s)"

subsection \<open>The command line\<close>

definition coordinator_flag_defaults :: coordinator_config where
  "coordinator_flag_defaults = \<lparr>BindAddr = ''localhost:26670'', ExpectWorkers = 2,
     WorkerConnectTimeout = 180, ShutdownWait = 0, LoadTestID = 0\<rparr>"

definition worker_flag_defaults :: worker_config where
  "worker_flag_defaults = \<lparr>WorkerID = [], CoordAddr = ''ws://localhost:26670'', CoordConnectTimeout = 180\<rparr>"

text \<open>
  The three commands: the exit code, given the outcome of what the command executes, which is only
  asked for when the configuration is valid.
\<close>

definition standalone_command :: "'w registry \<Rightarrow> (config \<Rightarrow> go_error option) \<Rightarrow> config \<Rightarrow> int" where
  "standalone_command reg execute cfg =
     (if Config_Validate reg cfg \<noteq> None then 1
      else if execute cfg \<noteq> None then 1 else 0)"

definition coordinator_command ::
    "'w registry \<Rightarrow> (coordinator \<Rightarrow> go_error option) \<Rightarrow> config \<Rightarrow> coordinator_config \<Rightarrow> int" where
  "coordinator_command reg run cfg ccfg =
     (if Config_Validate reg cfg \<noteq> None then 1
      else if CoordinatorConfig_Validate ccfg \<noteq> None then 1
      else if run (NewCoordinator cfg ccfg) \<noteq> None then 1 else 0)"

definition worker_command ::
    "unicode_tables \<Rightarrow> string \<Rightarrow> ('w worker \<Rightarrow> go_error option) \<Rightarrow> worker_config \<Rightarrow> int" where
  "worker_command ucd uuid run workerCfg =
     (if WorkerConfig_Validate ucd workerCfg \<noteq> None then 1
      else case NewWorker ucd uuid workerCfg of
        Inl err \<Rightarrow> 1
      | Inr worker \<Rightarrow> if run worker \<noteq> None then 1 else 0)"

definition CLIVersion :: string where
  "CLIVersion = ''v1.3.0''"

definition version_command :: "string \<Rightarrow> string" where
  "version_command cliVersionCommitID =
     (let version = (if length cliVersionCommitID > 0 then CLIVersion @ ''-'' @ cliVersionCommitID
                     else CLIVersion)
      in ''tm-load-test '' @ version @ [CHR 0x0A])"

text \<open>
  The command line as Cobra leaves it: a command with its configurations, or an error, on which
  \<open>Run\<close> only writes a record to the log and returns.  The result is the exit status and what is
  printed.
\<close>

datatype cli_request =
    CliError go_error
  | RootCommand config
  | CoordinatorCommand config coordinator_config
  | WorkerCommand worker_config
  | VersionCommand

datatype log_level = InfoLevel | DebugLevel

definition initLogLevel :: "bool \<Rightarrow> log_level \<Rightarrow> log_level" where
  "initLogLevel flagVerbose level = (if flagVerbose then DebugLevel else level)"

record 'w cli_world =
  cli_registry :: "'w registry"
  cli_tables :: unicode_tables
  cli_uuid :: string
  cli_execute :: "config \<Rightarrow> go_error option"
  cli_coordinate :: "coordinator \<Rightarrow> go_error option"
  cli_work :: "'w worker \<Rightarrow> go_error option"
  cli_commit :: string

definition cli_Run :: "'w cli_world \<Rightarrow> cli_request \<Rightarrow> int \<times> string" where
  "cli_Run env req =
     (case req of
        CliError _ \<Rightarrow> (0, [])
      | RootCommand cfg \<Rightarrow> (standalone_command (cli_registry env) (cli_execute env) cfg, [])
      | CoordinatorCommand cfg ccfg \<Rightarrow> (coordinator_command (cli_registry env) (cli_coordinate env) cfg ccfg, [])
      | WorkerCommand wcfg \<Rightarrow> (worker_command (cli_tables env) (cli_uuid env) (cli_work env) wcfg, [])
      | VersionCommand \<Rightarrow> (0, version_command (cli_commit env)))"

text \<open>
  The exit status is 0 or 1, and it tells the success of a command: it is 0 for a test only if its
  configuration is valid and its run returned no error.  A command line that is not understood
  exits with 0 as well.
\<close>

lemma exit_status_exact:
  "fst (cli_Run env req) \<in> {0, 1}"
  "fst (cli_Run env req) = 0 \<longleftrightarrow>
     (case req of
        RootCommand cfg \<Rightarrow> Config_Validate (cli_registry env) cfg = None \<and> cli_execute env cfg = None
      | CoordinatorCommand cfg ccfg \<Rightarrow> Config_Validate (cli_registry env) cfg = None \<and>
          CoordinatorConfig_Validate ccfg = None \<and> cli_coordinate env (NewCoordinator cfg ccfg) = None
      | WorkerCommand wcfg \<Rightarrow> WorkerConfig_Validate (cli_tables env) wcfg = None \<and>
          (\<exists>w. NewWorker (cli_tables env) (cli_uuid env) wcfg = Inr w \<and> cli_work env w = None)
      | _ \<Rightarrow> True)"
  by (auto simp: cli_Run_def standalone_command_def coordinator_command_def worker_command_def
      split: cli_request.split sum.split)

text \<open>The application itself names the kvstore client factory as its default.\<close>

definition main_defaults :: config where
  "main_defaults = flag_defaults ''kvstore''"

subsection \<open>What a standalone run does\<close>

lemma find_endpoints_file:
  assumes "find_endpoints env cfg = Some (Inr cfg')"
  shows "StatsOutputFile cfg' = StatsOutputFile cfg"
proof (cases "ExpectPeers cfg > 0")
  case True
  with assms obtain r :: "go_error + string list" where "map_sum (id :: go_error \<Rightarrow> go_error) (\<lambda>peers. cfg\<lparr>Endpoints := peers\<rparr>) r = Inr cfg'"
    by (auto simp: find_endpoints_def)
  then show ?thesis by (cases r) auto
next
  case False
  with assms show ?thesis by (simp add: find_endpoints_def)
qed

lemma add_all_length:
  assumes "AddAll reg env cfg (w, NewTransactorGroup) = Some (None, w', g)"
  shows "length (transactors g) = length (Endpoints cfg) * nat (Connections cfg)"
proof -
  have "built env cfg (concat (map (replicate (nat (Connections cfg))) (Endpoints cfg)))
      NewTransactorGroup None g"
    using assms unfolding AddAll_def by (rule add_endpoints_built)
  then have "length (transactors g) = length (concat (map (replicate (nat (Connections cfg))) (Endpoints cfg)))"
    by (auto simp: built_def grows_def NewTransactorGroup_def)
  then show ?thesis by (simp add: length_concat_replicate)
qed

text \<open>C31: a standalone run that succeeds has run the whole test and its file says so: for every schedule
  of its transactors, with interrupts, there was one transactor for each connection to each
  endpoint found, every one of them ended without handing an error to \<open>Wait\<close>, and the one file
  written holds exactly the sums of what they counted.\<close>

theorem standalone_success_exact:
  assumes "ExecuteStandalone reg env cfg w None files (Some s)" and "StatsOutputFile cfg \<noteq> []"
  shows "\<exists>cfg' time. find_endpoints env cfg = Some (Inr cfg') \<and>
    length (members s) = length (Endpoints cfg') * nat (Connections cfg') \<and>
    list_all (\<lambda>m. pc m = Returned) (members s) \<and> g_Wait s = None \<and>
    files = [(StatsOutputFile cfg, csv_text (stats_records (stats_compute
      \<lparr>TotalTxs = go_sum (map (\<lambda>m. txCount (tr m)) (members s)), TotalTimeSeconds = time,
       TotalBytes = go_sum (map (\<lambda>m. txBytes (tr m)) (members s)), AvgTxRate = 0, AvgDataRate = 0\<rparr>)))]"
proof -
  from assms(1) obtain cfg' w' g ws now now' where 1: "find_endpoints env cfg = Some (Inr cfg')"
      "AddAll reg (sa_group env) cfg' (w, NewTransactorGroup) = Some (None, w', g)"
      "length ws = length (transactors g)" "(group_step (map snd (transactors g)))\<^sup>*\<^sup>* (g_Start now ws g) s"
      "wait_done s" "standalone_end env cfg' now' s = (None, files)"
    by (elim standalone_groupE) blast
  have ok: "group_ok (length (transactors g)) s" using 1(2-4) by (rule started_ok)
  have out: "StatsOutputFile cfg' = StatsOutputFile cfg"
    using 1(1) by (rule find_endpoints_file)
  have "length (members s) = length (Endpoints cfg') * nat (Connections cfg')"
    using ok add_all_length [OF 1(2)] by (simp add: group_ok_def)
  moreover have "g_Wait s = None" using 1(6) by (auto simp: standalone_end_def split: option.splits)
  moreover have "files = [(StatsOutputFile cfg, csv_text (stats_records (stats_compute
      \<lparr>TotalTxs = totalTxs (grp s), TotalTimeSeconds = seconds (now' - g_startTime (grp s)),
       TotalBytes = totalBytes (grp s), AvgTxRate = 0, AvgDataRate = 0\<rparr>)))]"
    using 1(6) assms(2) out
    by (auto simp: standalone_end_def g_WriteAggregateStats_def writeAggregateStats_def Let_def
        split: option.splits)
  ultimately show ?thesis using 1(1) wait_totals [OF ok 1(5)] by auto
qed

text \<open>The flags' defaults are a valid configuration: with nothing but endpoints given, each of the
  three modes passes its validation.\<close>

theorem defaults_valid:
  "Config_Validate (snd init_registry) (main_defaults\<lparr>Endpoints := e # es\<rparr>) = None \<and>
   CoordinatorConfig_Validate coordinator_flag_defaults = None \<and>
   WorkerConfig_Validate ucd worker_flag_defaults = None"
proof -
  let ?c = "main_defaults\<lparr>Endpoints := e # es\<rparr>"
  have "MaxTxsPerEndpoint ?c = 60000"
    by (simp add: MaxTxsPerEndpoint_def main_defaults_def flag_defaults_def)
  moreover have "requiredKVStoreSuffixLen 60000 = Inr 5"
    by (simp add: requiredKVStoreSuffixLen_def kvstoreMaxTxsByKeySuffixLen_def)
  ultimately have "KVStore_ValidateConfig ?c = None"
    by (simp add: KVStore_ValidateConfig_None main_defaults_def flag_defaults_def)
  then have "Config_Validate (snd init_registry) ?c = None"
    by (simp add: config_validate_kvstore_iff main_defaults_def flag_defaults_def SelectSuppliedEndpoints_def)
  then show ?thesis
    by (simp add: CoordinatorConfig_Validate_def coordinator_flag_defaults_def WorkerConfig_Validate_def
        worker_flag_defaults_def)
qed

subsection \<open>An empty test succeeds\<close>

text \<open>
  Two supplied peers that know only each other, and a configuration that wants discovered endpoints
  only: there are none.
\<close>

definition lonely_cfg :: config where
  "lonely_cfg = main_defaults\<lparr>Endpoints := [''http://a'', ''http://b''], ExpectPeers := 2,
     EndpointSelectMethod := SelectDiscoveredEndpoints, StatsOutputFile := ''s.csv''\<rparr>"

definition lonely_env :: standalone_env where
  "lonely_env = \<lparr>sa_crawl = pair_env, sa_lookup = (\<lambda>h. Inr [None, Some h]), sa_rounds = [pair_round],
     sa_group = demo_env 0, sa_create = (\<lambda>_. None)\<rparr>"

lemma lonely_endpoints: "find_endpoints lonely_env lonely_cfg = Some (Inr (lonely_cfg\<lparr>Endpoints := []\<rparr>))"
proof -
  have "waitForPeers lonely_env lonely_cfg = Some (Inr [])"
    by (simp add: waitForPeers_def lonely_env_def lonely_cfg_def main_defaults_def flag_defaults_def
        i64_def seconds_duration_def waitForNetworkPeers_def lookupFirstIPv4Addr_def pair_env_def pair_round_def
        query_peer_def pair_net_def unqueried_def rpc_addr_def getNetworkPeers_def resolvePeerMap_def
        ghas_def getMinPeerConnectivity_def filterPeerMap_def reset_queried_def
        SelectSuppliedEndpoints_def SelectDiscoveredEndpoints_def)
  then show ?thesis by (simp add: find_endpoints_def) (simp add: lonely_cfg_def)
qed

lemma empty_run:
  fixes reg :: "'w registry"
  assumes "find_endpoints env cfg = Some (Inr (cfg\<lparr>Endpoints := []\<rparr>))"
    and "standalone_end env (cfg\<lparr>Endpoints := []\<rparr>) now' (g_Start now [] (NewTransactorGroup :: 'w group)) = (res, files)"
  shows "ExecuteStandalone reg env cfg w res files (Some (g_Start now [] NewTransactorGroup))"
proof (rule ExecuteStandalone.ran [OF assms(1) _ _ rtranclp.rtrancl_refl _ assms(2)])
  show "AddAll reg (sa_group env) (cfg\<lparr>Endpoints := []\<rparr>) (w, NewTransactorGroup) = Some (None, w, NewTransactorGroup)"
    by (simp add: AddAll_def)
  show "length [] = length (transactors NewTransactorGroup)" by (simp add: NewTransactorGroup_def)
  show "wait_done (g_Start now [] NewTransactorGroup)"
    by (simp add: wait_done_def g_Start_def NewTransactorGroup_def)
qed

text \<open>A load test against nothing succeeds: there is a configuration that passes validation, with
  two endpoints that are up, for which the crawl selects none, and the run then makes no
  connection, sends nothing, writes its statistics file and returns success.\<close>

theorem empty_test_succeeds:
  "Config_Validate (snd init_registry) lonely_cfg = None \<and>
   (\<exists>files s. ExecuteStandalone (snd init_registry) lonely_env lonely_cfg w None files (Some s) \<and>
      members s = [] \<and> map fst files = [''s.csv''])"
proof
  have "MaxTxsPerEndpoint lonely_cfg = 60000"
    by (simp add: MaxTxsPerEndpoint_def lonely_cfg_def main_defaults_def flag_defaults_def)
  moreover have "requiredKVStoreSuffixLen 60000 = Inr 5"
    by (simp add: requiredKVStoreSuffixLen_def kvstoreMaxTxsByKeySuffixLen_def)
  ultimately have "KVStore_ValidateConfig lonely_cfg = None"
    by (simp add: KVStore_ValidateConfig_None lonely_cfg_def main_defaults_def flag_defaults_def)
  then show "Config_Validate (snd init_registry) lonely_cfg = None"
    by (simp add: config_validate_kvstore_iff lonely_cfg_def main_defaults_def flag_defaults_def
        SelectDiscoveredEndpoints_def)
  let ?s = "g_Start 0 [] NewTransactorGroup :: entropy group_run"
  have w: "g_Wait ?s = None" by (simp add: g_Wait_def g_Start_def)
  obtain files where f: "standalone_end lonely_env (lonely_cfg\<lparr>Endpoints := []\<rparr>) 0 ?s = (None, files)"
      "map fst files = [''s.csv'']"
    by (simp add: standalone_end_def w g_WriteAggregateStats_def writeAggregateStats_def lonely_env_def
        lonely_cfg_def Let_def)
  have "ExecuteStandalone (snd init_registry) lonely_env lonely_cfg w None files (Some ?s)"
    using lonely_endpoints f(1) by (rule empty_run)
  moreover have "members ?s = []" by (simp add: g_Start_def NewTransactorGroup_def)
  ultimately show "\<exists>files s. ExecuteStandalone (snd init_registry) lonely_env lonely_cfg w None files (Some s) \<and>
      members s = [] \<and> map fst files = [''s.csv'']"
    using f(2) by (intro exI conjI)
qed

text \<open>The group of one, run standalone to its time limit.\<close>

theorem standalone_success_exact_witness:
  "\<exists>files s. ExecuteStandalone demo_registry (lonely_env\<lparr>sa_group := demo_env 1\<rparr>)
       (solo_cfg\<lparr>StatsOutputFile := ''s.csv''\<rparr>) () None files (Some s) \<and> length (members s) = 1 \<and>
     map fst files = [''s.csv'']"
proof -
  let ?cfg = "solo_cfg\<lparr>StatsOutputFile := ''s.csv''\<rparr>" and ?env = "lonely_env\<lparr>sa_group := demo_env 1\<rparr>"
  obtain g where add: "AddAll demo_registry (demo_env 1) ?cfg ((), NewTransactorGroup) = Some (None, (), g)"
      "length (transactors g) = 1" "map snd (transactors g) = [constant_client ''tx'']"
      "transactors g = [(SetProgressCallback 0 2500000000 True (fresh_transactor ''a'' ?cfg), constant_client ''tx'')]"
    by (simp add: demo_simps solo_cfg_def signed_divide_int_def)
  let ?s0 = "g_Start 0 [()] g"
  have top: "pc (members ?s0 ! 0) = LoopTop" and len: "length (members ?s0) = 1"
    by (simp_all add: g_Start_def add sendLoop_start_def solo_cfg_def flag_defaults_def
        connPingPeriod_def seconds_duration_pos SetProgressCallback_def)
  obtain s where s: "(group_step [constant_client ''tx''])\<^sup>*\<^sup>* ?s0 s" "wait_done s" "g_Wait s = None"
    using one_member_run [OF top len] by (auto simp: g_Start_def add fresh_transactor_def
        sendLoop_start_def SetProgressCallback_def)
  have "find_endpoints ?env ?cfg = Some (Inr ?cfg)"
    by (simp add: find_endpoints_def solo_cfg_def flag_defaults_def)
  moreover obtain files where "standalone_end ?env ?cfg 0 s = (None, files)" "map fst files = [''s.csv'']"
    by (simp add: standalone_end_def s(3) g_WriteAggregateStats_def writeAggregateStats_def lonely_env_def Let_def)
  ultimately have "ExecuteStandalone demo_registry ?env ?cfg () None files (Some s)"
    using add s by (intro ExecuteStandalone.ran [where ws = "[()]" and now = 0 and now' = 0 and g = g
        and cfg' = ?cfg and w' = "()"]) simp_all
  moreover have "length (members s) = 1"
    using standalone_success_exact [OF calculation] \<open>find_endpoints ?env ?cfg = _\<close>
    by (auto simp: solo_cfg_def flag_defaults_def)
  ultimately show ?thesis using \<open>map fst files = _\<close> by (intro exI conjI)
qed

end
