(* ===== verification/Rpc_Types.thy ===== *)
theory Rpc_Types
  imports Worker_Msgs Go_Text Network_Info
begin

section \<open>Tendermint's RPC types and the net_info request (rpc.go)\<close>

text \<open>
  The JSON codecs of rpc.go and \<open>httpClient.netInfo\<close>.  A decoder gives \<open>None\<close> where the code returns
  an error.  The text of a response is its document, as in Worker_Msgs; only \<open>HexBytes\<close> reads the
  text itself, and it sees the text of a string without escapes.  Times are read by the argument
  \<open>rfc3339\<close>.
\<close>

subsection \<open>HexBytes\<close>

definition HexBytes_MarshalJSON :: "string \<Rightarrow> string" where
  "HexBytes_MarshalJSON bz = CHR 0x22 # map upper_char (hex_encode bz) @ [CHR 0x22]"

definition HexBytes_UnmarshalJSON :: "string \<Rightarrow> string option" where
  "HexBytes_UnmarshalJSON data =
     (if length data < 2 \<or> data ! 0 \<noteq> CHR 0x22 \<or> data ! (length data - 1) \<noteq> CHR 0x22 then None
      else hex_decode (take (length data - 2) (drop 1 data)))"

subsection \<open>Numbers written as strings\<close>

text \<open>A JSON \<open>null\<close> leaves the string empty, and the empty string is no number.\<close>

definition json_text :: "json \<Rightarrow> string option" where
  "json_text j = (case j of JNull \<Rightarrow> Some [] | JStr s \<Rightarrow> Some s | _ \<Rightarrow> None)"

definition JSONStrInt :: "json \<Rightarrow> int option" where
  "JSONStrInt j = (case json_text j of None \<Rightarrow> None | Some s \<Rightarrow> read_int64 s)"

definition JSONStrUint64 :: "json \<Rightarrow> nat option" where
  "JSONStrUint64 j = (case json_text j of None \<Rightarrow> None | Some s \<Rightarrow> read_uint64 s)"

definition JSONStrInt64 :: "json \<Rightarrow> int option" where
  "JSONStrInt64 j = (case json_text j of None \<Rightarrow> None | Some s \<Rightarrow> read_int64 s)"

definition JSONDuration :: "json \<Rightarrow> duration option" where
  "JSONDuration j = JSONStrInt64 j"

subsection \<open>Decoding structs\<close>

text \<open>The field decoders a struct is put together from, as in Worker_Msgs.\<close>

definition set_with :: "(json \<Rightarrow> 'v option) \<Rightarrow> ('v \<Rightarrow> 'r \<Rightarrow> 'r) \<Rightarrow> json \<Rightarrow> 'r \<Rightarrow> 'r option" where
  "set_with dec f j r = map_option (\<lambda>v. f v r) (dec j)"

definition set_range :: "int \<Rightarrow> (int \<Rightarrow> 'r \<Rightarrow> 'r) \<Rightarrow> json \<Rightarrow> 'r \<Rightarrow> 'r option" where
  "set_range bound f j r = (case j of JNull \<Rightarrow> Some r
     | JNum n \<Rightarrow> if 0 \<le> n \<and> n < bound then Some (f n r) else None | _ \<Rightarrow> None)"

definition set_struct :: "'v fields \<Rightarrow> ('r \<Rightarrow> 'v) \<Rightarrow> ('v \<Rightarrow> 'r \<Rightarrow> 'r) \<Rightarrow> json \<Rightarrow> 'r \<Rightarrow> 'r option" where
  "set_struct fs get f j r = (case j of JNull \<Rightarrow> Some r
     | JObj ms \<Rightarrow> map_option (\<lambda>v. f v r) (decode_members fs ms (get r)) | _ \<Rightarrow> None)"

fun decode_elems :: "'v fields \<Rightarrow> 'v \<Rightarrow> json list \<Rightarrow> 'v list option" where
  "decode_elems fs zero [] = Some []"
| "decode_elems fs zero (JNull # js) = map_option ((#) zero) (decode_elems fs zero js)"
| "decode_elems fs zero (JObj ms # js) =
     (case decode_members fs ms zero of None \<Rightarrow> None
      | Some v \<Rightarrow> map_option ((#) v) (decode_elems fs zero js))"
| "decode_elems fs zero (_ # js) = None"

definition set_structs :: "'v fields \<Rightarrow> 'v \<Rightarrow> ('v list \<Rightarrow> 'r \<Rightarrow> 'r) \<Rightarrow> json \<Rightarrow> 'r \<Rightarrow> 'r option" where
  "set_structs fs zero f j r = (case j of JNull \<Rightarrow> Some (f [] r)
     | JArr js \<Rightarrow> map_option (\<lambda>vs. f vs r) (decode_elems fs zero js) | _ \<Rightarrow> None)"

subsection \<open>The types of the net_info response\<close>

record ProtocolVersion =
  P2P :: nat
  Block :: nat
  App :: nat

record DefaultNodeInfoOther =
  TxIndex :: string
  RPCAddress :: string

record DefaultNodeInfo =
  ProtocolVersionOf :: ProtocolVersion
  DefaultNodeID :: string
  ListenAddr :: string
  NetworkName :: string
  NodeVersion :: string
  NodeChannels :: string
  Moniker :: string
  Other :: DefaultNodeInfoOther

record FlowStatus =
  Start :: int
  Bytes :: int
  Samples :: int
  InstRate :: int
  CurRate :: int
  AvgRate :: int
  PeakRate :: int
  BytesRem :: int
  FlowDuration :: duration
  Idle :: duration
  TimeRem :: duration
  Progress :: int
  Active :: bool

record ChannelStatus =
  ChannelID :: int
  SendQueueCapacity :: int
  SendQueueSize :: int
  Priority :: int
  RecentlySent :: int

record ConnectionStatus =
  ConnDuration :: duration
  SendMonitor :: FlowStatus
  RecvMonitor :: FlowStatus
  ConnChannels :: "ChannelStatus list"

record Peer =
  NodeInfo :: DefaultNodeInfo
  IsOutbound :: bool
  ConnectionStatusOf :: ConnectionStatus
  RemoteIP :: string

record NetInfo =
  Listening :: bool
  Listeners :: "string list"
  NPeers :: int
  Peers :: "Peer list"

record RPCError =
  Code :: int
  Message :: string
  ErrorData :: string

record RPCResponse =
  ResponseVersion :: string
  ResponseID :: int
  Result :: "json option"
  ResponseError :: "RPCError option"

subsection \<open>Their fields\<close>

definition ProtocolVersion_fields :: "ProtocolVersion fields" where
  "ProtocolVersion_fields =
     [(''p2p'', set_with JSONStrUint64 (\<lambda>n. P2P_update (\<lambda>_. n))),
      (''block'', set_with JSONStrUint64 (\<lambda>n. Block_update (\<lambda>_. n))),
      (''app'', set_with JSONStrUint64 (\<lambda>n. App_update (\<lambda>_. n)))]"

definition DefaultNodeInfoOther_fields :: "DefaultNodeInfoOther fields" where
  "DefaultNodeInfoOther_fields =
     [(''tx_index'', set_str (\<lambda>s. TxIndex_update (\<lambda>_. s))),
      (''rpc_address'', set_str (\<lambda>s. RPCAddress_update (\<lambda>_. s)))]"

text \<open>The text \<open>UnmarshalJSON\<close> is given for a JSON value that is a string; any other is refused.\<close>

definition json_hex :: "json \<Rightarrow> string option" where
  "json_hex j = (case j of JStr s \<Rightarrow> HexBytes_UnmarshalJSON (CHR 0x22 # s @ [CHR 0x22]) | _ \<Rightarrow> None)"

definition DefaultNodeInfo_fields :: "DefaultNodeInfo fields" where
  "DefaultNodeInfo_fields =
     [(''protocol_version'', set_struct ProtocolVersion_fields ProtocolVersionOf
         (\<lambda>v. ProtocolVersionOf_update (\<lambda>_. v))),
      (''id'', set_str (\<lambda>s. DefaultNodeID_update (\<lambda>_. s))),
      (''listen_addr'', set_str (\<lambda>s. ListenAddr_update (\<lambda>_. s))),
      (''network'', set_str (\<lambda>s. NetworkName_update (\<lambda>_. s))),
      (''version'', set_str (\<lambda>s. NodeVersion_update (\<lambda>_. s))),
      (''channels'', set_with json_hex (\<lambda>s. NodeChannels_update (\<lambda>_. s))),
      (''moniker'', set_str (\<lambda>s. Moniker_update (\<lambda>_. s))),
      (''other'', set_struct DefaultNodeInfoOther_fields Other (\<lambda>v. Other_update (\<lambda>_. v)))]"

text \<open>Without tags the members are matched with the names of the fields, whatever the case.\<close>

definition set_time :: "(string \<Rightarrow> int option) \<Rightarrow> (int \<Rightarrow> 'r \<Rightarrow> 'r) \<Rightarrow> json \<Rightarrow> 'r \<Rightarrow> 'r option" where
  "set_time rfc3339 f j r = (case j of JNull \<Rightarrow> Some r
     | JStr s \<Rightarrow> map_option (\<lambda>t. f t r) (rfc3339 s) | _ \<Rightarrow> None)"

definition FlowStatus_fields :: "(string \<Rightarrow> int option) \<Rightarrow> FlowStatus fields" where
  "FlowStatus_fields rfc3339 =
     [(''start'', set_time rfc3339 (\<lambda>t. Start_update (\<lambda>_. t))),
      (''bytes'', set_with JSONStrInt64 (\<lambda>n. Bytes_update (\<lambda>_. n))),
      (''samples'', set_with JSONStrInt64 (\<lambda>n. Samples_update (\<lambda>_. n))),
      (''instrate'', set_with JSONStrInt64 (\<lambda>n. InstRate_update (\<lambda>_. n))),
      (''currate'', set_with JSONStrInt64 (\<lambda>n. CurRate_update (\<lambda>_. n))),
      (''avgrate'', set_with JSONStrInt64 (\<lambda>n. AvgRate_update (\<lambda>_. n))),
      (''peakrate'', set_with JSONStrInt64 (\<lambda>n. PeakRate_update (\<lambda>_. n))),
      (''bytesrem'', set_with JSONStrInt64 (\<lambda>n. BytesRem_update (\<lambda>_. n))),
      (''duration'', set_with JSONDuration (\<lambda>n. FlowDuration_update (\<lambda>_. n))),
      (''idle'', set_with JSONDuration (\<lambda>n. Idle_update (\<lambda>_. n))),
      (''timerem'', set_with JSONDuration (\<lambda>n. TimeRem_update (\<lambda>_. n))),
      (''progress'', set_range (2 ^ 32) (\<lambda>n. Progress_update (\<lambda>_. n))),
      (''active'', set_bool (\<lambda>b. Active_update (\<lambda>_. b)))]"

definition ChannelStatus_fields :: "ChannelStatus fields" where
  "ChannelStatus_fields =
     [(''id'', set_range (2 ^ 8) (\<lambda>n. ChannelID_update (\<lambda>_. n))),
      (''sendqueuecapacity'', set_with JSONStrInt (\<lambda>n. SendQueueCapacity_update (\<lambda>_. n))),
      (''sendqueuesize'', set_with JSONStrInt (\<lambda>n. SendQueueSize_update (\<lambda>_. n))),
      (''priority'', set_with JSONStrInt (\<lambda>n. Priority_update (\<lambda>_. n))),
      (''recentlysent'', set_with JSONStrInt64 (\<lambda>n. RecentlySent_update (\<lambda>_. n)))]"

definition zero_channel :: ChannelStatus where
  "zero_channel = \<lparr>ChannelID = 0, SendQueueCapacity = 0, SendQueueSize = 0, Priority = 0, RecentlySent = 0\<rparr>"

definition ConnectionStatus_fields :: "(string \<Rightarrow> int option) \<Rightarrow> ConnectionStatus fields" where
  "ConnectionStatus_fields rfc3339 =
     [(''duration'', set_with JSONDuration (\<lambda>n. ConnDuration_update (\<lambda>_. n))),
      (''sendmonitor'', set_struct (FlowStatus_fields rfc3339) SendMonitor (\<lambda>v. SendMonitor_update (\<lambda>_. v))),
      (''recvmonitor'', set_struct (FlowStatus_fields rfc3339) RecvMonitor (\<lambda>v. RecvMonitor_update (\<lambda>_. v))),
      (''channels'', set_structs ChannelStatus_fields zero_channel (\<lambda>v. ConnChannels_update (\<lambda>_. v)))]"

definition Peer_fields :: "(string \<Rightarrow> int option) \<Rightarrow> Peer fields" where
  "Peer_fields rfc3339 =
     [(''node_info'', set_struct DefaultNodeInfo_fields NodeInfo (\<lambda>v. NodeInfo_update (\<lambda>_. v))),
      (''is_outbound'', set_bool (\<lambda>b. IsOutbound_update (\<lambda>_. b))),
      (''connection_status'', set_struct (ConnectionStatus_fields rfc3339) ConnectionStatusOf
         (\<lambda>v. ConnectionStatusOf_update (\<lambda>_. v))),
      (''remote_ip'', set_str (\<lambda>s. RemoteIP_update (\<lambda>_. s)))]"

text \<open>The zero time is year 1; its nanoseconds do not matter to anything here.\<close>

definition zero_flow :: FlowStatus where
  "zero_flow = \<lparr>Start = 0, Bytes = 0, Samples = 0, InstRate = 0, CurRate = 0, AvgRate = 0, PeakRate = 0,
     BytesRem = 0, FlowDuration = 0, Idle = 0, TimeRem = 0, Progress = 0, Active = False\<rparr>"

definition zero_peer :: Peer where
  "zero_peer =
     \<lparr>NodeInfo = \<lparr>ProtocolVersionOf = \<lparr>P2P = 0, Block = 0, App = 0\<rparr>, DefaultNodeID = [], ListenAddr = [],
        NetworkName = [], NodeVersion = [], NodeChannels = [], Moniker = [],
        Other = \<lparr>TxIndex = [], RPCAddress = []\<rparr>\<rparr>,
      IsOutbound = False,
      ConnectionStatusOf = \<lparr>ConnDuration = 0, SendMonitor = zero_flow, RecvMonitor = zero_flow,
        ConnChannels = []\<rparr>,
      RemoteIP = []\<rparr>"

definition NetInfo_fields :: "(string \<Rightarrow> int option) \<Rightarrow> NetInfo fields" where
  "NetInfo_fields rfc3339 =
     [(''listening'', set_bool (\<lambda>b. Listening_update (\<lambda>_. b))),
      (''listeners'', set_strs (\<lambda>ss. Listeners_update (\<lambda>_. ss))),
      (''n_peers'', set_with JSONStrInt (\<lambda>n. NPeers_update (\<lambda>_. n))),
      (''peers'', set_structs (Peer_fields rfc3339) zero_peer (\<lambda>ps. Peers_update (\<lambda>_. ps)))]"

definition RPCError_fields :: "RPCError fields" where
  "RPCError_fields =
     [(''code'', set_int (\<lambda>n. Code_update (\<lambda>_. n))),
      (''message'', set_str (\<lambda>s. Message_update (\<lambda>_. s))),
      (''data'', set_str (\<lambda>s. ErrorData_update (\<lambda>_. s)))]"

definition zero_error :: RPCError where
  "zero_error = \<lparr>Code = 0, Message = [], ErrorData = []\<rparr>"

text \<open>The error is a pointer; the result is kept as it is, \<open>null\<close> included.\<close>

definition set_error :: "json \<Rightarrow> RPCResponse \<Rightarrow> RPCResponse option" where
  "set_error j r = (case j of JNull \<Rightarrow> Some (r\<lparr>ResponseError := None\<rparr>)
     | JObj ms \<Rightarrow> map_option (\<lambda>e. r\<lparr>ResponseError := Some e\<rparr>)
         (decode_members RPCError_fields ms (case ResponseError r of None \<Rightarrow> zero_error | Some e \<Rightarrow> e))
     | _ \<Rightarrow> None)"

definition RPCResponse_fields :: "RPCResponse fields" where
  "RPCResponse_fields =
     [(''jsonrpc'', set_str (\<lambda>s. ResponseVersion_update (\<lambda>_. s))),
      (''id'', set_int (\<lambda>n. ResponseID_update (\<lambda>_. n))),
      (''result'', \<lambda>j r. Some (r\<lparr>Result := Some j\<rparr>)),
      (''error'', set_error)]"

definition zero_response :: RPCResponse where
  "zero_response = \<lparr>ResponseVersion = [], ResponseID = 0, Result = None, ResponseError = None\<rparr>"

text \<open>\<open>json.Unmarshal\<close> into a fresh struct.\<close>

definition decode_struct :: "'r fields \<Rightarrow> 'r \<Rightarrow> json \<Rightarrow> 'r option" where
  "decode_struct fs zero j = (case j of JNull \<Rightarrow> Some zero
     | JObj ms \<Rightarrow> decode_members fs ms zero | _ \<Rightarrow> None)"

definition zero_net_info :: NetInfo where
  "zero_net_info = \<lparr>Listening = False, Listeners = [], NPeers = 0, Peers = []\<rparr>"

subsection \<open>The request\<close>

text \<open>\<open>newHttpRpcClient\<close> keeps the address without the slashes at its end.\<close>

definition http_addr :: "string \<Rightarrow> string" where
  "http_addr addr = rev (dropWhile (\<lambda>ch. ch = CHR ''/'') (rev addr))"

text \<open>What a \<open>GET\<close> of a URL gives: no response, a body that cannot be read, or a body, which may not
  be JSON.\<close>

datatype http_answer = GetFails string | BodyFails string | Body "json option"

datatype net_info_error =
    NetInfoGet string string
  | NetInfoRead string
  | NetInfoResponse string
  | NetInfoCode int string string
  | NetInfoInner string

definition inner_net_info :: "(string \<Rightarrow> int option) \<Rightarrow> string \<Rightarrow> RPCResponse \<Rightarrow> net_info_error + NetInfo" where
  "inner_net_info rfc3339 addr res =
     (case Result res of
        None \<Rightarrow> Inl (NetInfoInner addr)
      | Some j \<Rightarrow> (case decode_struct (NetInfo_fields rfc3339) zero_net_info j of
          None \<Rightarrow> Inl (NetInfoInner addr) | Some n \<Rightarrow> Inr n))"

definition netInfo :: "(string \<Rightarrow> int option) \<Rightarrow> (string \<Rightarrow> http_answer) \<Rightarrow> string \<Rightarrow> net_info_error + NetInfo" where
  "netInfo rfc3339 get addr =
     (case get (addr @ ''/net_info'') of
        GetFails err \<Rightarrow> Inl (NetInfoGet addr err)
      | BodyFails err \<Rightarrow> Inl (NetInfoRead err)
      | Body body \<Rightarrow>
        (case (case body of None \<Rightarrow> None | Some j \<Rightarrow> decode_struct RPCResponse_fields zero_response j) of
           None \<Rightarrow> Inl (NetInfoResponse addr)
         | Some res \<Rightarrow>
           (case ResponseError res of
              Some e \<Rightarrow> if Code e \<noteq> 0 then Inl (NetInfoCode (Code e) addr (Message e))
                else inner_net_info rfc3339 addr res
            | None \<Rightarrow> inner_net_info rfc3339 addr res)))"

text \<open>The texts of the errors; where they quote an error of the JSON decoder, its text is left out.\<close>

fun net_info_error_text :: "net_info_error \<Rightarrow> string" where
  "net_info_error_text (NetInfoGet addr err) = ''failed to get net_info for peer '' @ addr @ '': '' @ err"
| "net_info_error_text (NetInfoRead err) = err"
| "net_info_error_text (NetInfoResponse addr) =
     ''failed to unmarshal net_info response for peer '' @ addr"
| "net_info_error_text (NetInfoCode c addr msg) =
     ''got error code '' @ show_int c @ '' when attempting to get net_info for '' @ addr @ '': '' @ msg"
| "net_info_error_text (NetInfoInner addr) =
     ''failed to unmarshal net_info inner response for peer '' @ addr"

text \<open>
  The crawl's question to a peer (\<open>net_info\<close> of Network_Info), answered over HTTP: the client made
  for the address asks, and the addresses of the peers are read off the answer.
\<close>

definition rpc_net :: "(string \<Rightarrow> int option) \<Rightarrow> (string \<Rightarrow> http_answer) \<Rightarrow> net_info" where
  "rpc_net rfc3339 get addr =
     (case netInfo rfc3339 get (http_addr addr) of
        Inl err \<Rightarrow> Inl (net_info_error_text err)
      | Inr n \<Rightarrow> Inr (map RemoteIP (Peers n)))"

subsection \<open>The codecs\<close>

lemma code_upper: "(of_char (upper_char ch) :: nat) =
    (let n = of_char ch in if 97 \<le> n \<and> n \<le> 122 then n - 32 else n)"
  by (auto simp: upper_char_def Let_def of_char_of take_bit_eq_mod intro: mod_less)

lemma code_hex_digit: "n < 16 \<Longrightarrow> (of_char (hex_digits ! n) :: nat) = (if n < 10 then 48 + n else 87 + n)"
proof -
  have "list_all (\<lambda>n. (of_char (hex_digits ! n) :: nat) = (if n < 10 then 48 + n else 87 + n)) [0..<16]"
    by code_simp
  then show "n < 16 \<Longrightarrow> ?thesis" by (simp add: list_all_iff del: upt_rec_numeral)
qed

lemma hex_val_digit:
  assumes "hex_val ch = Some n"
  shows "n < 16 \<and> upper_char (hex_digits ! n) = upper_char ch"
proof -
  obtain k :: nat where k: "k = of_char ch" by simp
  from assms consider "48 \<le> k" "k \<le> 57" "n = k - 48" | "97 \<le> k" "k \<le> 102" "n = k - 87"
    | "65 \<le> k" "k \<le> 70" "n = k - 55"
    by (auto simp: hex_val_def k Let_def split: if_splits)
  then have "n < 16 \<and> (of_char (upper_char (hex_digits ! n)) :: nat) = of_char (upper_char ch)"
    by cases (auto simp: code_upper code_hex_digit Let_def simp flip: k)
  then show ?thesis by simp
qed

lemma hex_chars:
  "hex_val (upper_char ch) = hex_val ch"
  "upper_char (upper_char ch) = upper_char ch"
  "upper_char ch = CHR 0x22 \<longleftrightarrow> ch = CHR 0x22"
proof -
  show "hex_val (upper_char ch) = hex_val ch"
    by (auto simp: hex_val_def code_upper Let_def)
  show "upper_char (upper_char ch) = upper_char ch"
    by (auto simp: upper_char_def [of "upper_char ch"] code_upper Let_def)
  have "of_char (upper_char ch) = (34 :: nat) \<longleftrightarrow> of_char ch = (34 :: nat)"
    by (auto simp: code_upper Let_def)
  moreover have "x = CHR 0x22 \<longleftrightarrow> of_char x = (34 :: nat)" for x
    using of_char_eq_iff [of x "CHR 0x22", where 'a = nat] by simp
  ultimately show "upper_char ch = CHR 0x22 \<longleftrightarrow> ch = CHR 0x22" by simp
qed

lemma hex_decode_upper [simp]: "hex_decode (map upper_char s) = hex_decode s"
  by (induction s rule: hex_decode.induct) (simp_all add: hex_chars(1))

lemma hex_decode_Some: "hex_decode s = Some bz \<longleftrightarrow> map upper_char s = map upper_char (hex_encode bz)"
proof
  show "hex_decode s = Some bz \<Longrightarrow> map upper_char s = map upper_char (hex_encode bz)"
  proof (induction s arbitrary: bz rule: hex_decode.induct)
    case (3 p q rest)
    then obtain u v t where *: "hex_val p = Some u" "hex_val q = Some v" "hex_decode rest = Some t"
      "bz = char_of (u * 16 + v) # t" by (auto split: option.splits)
    note p = hex_val_digit [OF *(1)] and q = hex_val_digit [OF *(2)]
    have "(of_char (char_of (u * 16 + v) :: char) :: nat) = u * 16 + v"
      using p q by (simp add: of_char_of take_bit_eq_mod)
    moreover have "(u * 16 + v) div 16 = u" "(u * 16 + v) mod 16 = v" using q by auto
    ultimately show ?case using 3(1) [OF *(3)] p q * by simp
  qed simp_all
  assume "map upper_char s = map upper_char (hex_encode bz)"
  then have "hex_decode (map upper_char s) = Some bz" by (simp only: hex_upper_roundtrip)
  then show "hex_decode s = Some bz" by simp
qed

text \<open>\<open>HexBytes\<close> is read exactly from its quoted hexadecimal form in either case: a text decodes to
  some bytes if and only if it is, up to the case of its letters, the text those bytes encode to;
  so decoding inverts encoding and every accepted text has one meaning.\<close>

theorem hex_bytes_exact:
  "HexBytes_UnmarshalJSON data = Some bz \<longleftrightarrow> map upper_char data = HexBytes_MarshalJSON bz"
proof (cases "2 \<le> length data")
  case False
  then show ?thesis by (auto simp: HexBytes_UnmarshalJSON_def HexBytes_MarshalJSON_def dest: arg_cong [of _ _ length])
next
  case True
  then obtain p s q where d: "data = p # s @ [q]"
    by (cases data; cases "rev (tl data)") (auto simp: rev_eq_Cons_iff)
  show ?thesis
    by (auto simp: d HexBytes_UnmarshalJSON_def HexBytes_MarshalJSON_def hex_chars(3) hex_decode_Some nth_append)
qed

text \<open>The numbers that Tendermint writes as strings are read exactly, at their width: a signed
  number is accepted just when it is an \<open>int64\<close>, an unsigned one just when it is a \<open>uint64\<close>, both
  with their value; a JSON number, which the package itself would write for these types, is not.\<close>

theorem string_numbers_exact:
  "JSONStrInt (JStr (show_int n)) = (if in_i64 n then Some n else None) \<and>
   JSONDuration (JStr (show_int n)) = (if in_i64 n then Some n else None) \<and>
   JSONStrUint64 (JStr (show_nat m)) = (if m < 2 ^ 64 then Some m else None) \<and>
   JSONStrInt (JNum n) = None \<and> JSONStrInt64 (JNum n) = None \<and> JSONStrUint64 (JNum n) = None"
  by (simp add: JSONStrInt_def JSONDuration_def JSONStrInt64_def JSONStrUint64_def json_text_def
      read_int64_show_iff read_uint64_def)

subsection \<open>The document a node sends\<close>

text \<open>
  The form in which a Tendermint node writes a net_info response: the specification against which
  the decoders are checked.  Numbers of 64 bits are strings, the channels are hexadecimal, and a
  time is written by \<open>show_time\<close>.
\<close>

definition str_num :: "int \<Rightarrow> json" where
  "str_num n = JStr (show_int n)"

definition ProtocolVersion_json :: "ProtocolVersion \<Rightarrow> (string \<times> json) list" where
  "ProtocolVersion_json v = [(''p2p'', JStr (show_nat (P2P v))), (''block'', JStr (show_nat (Block v))),
     (''app'', JStr (show_nat (App v)))]"

definition DefaultNodeInfo_json :: "DefaultNodeInfo \<Rightarrow> (string \<times> json) list" where
  "DefaultNodeInfo_json d =
     [(''protocol_version'', JObj (ProtocolVersion_json (ProtocolVersionOf d))),
      (''id'', JStr (DefaultNodeID d)), (''listen_addr'', JStr (ListenAddr d)),
      (''network'', JStr (NetworkName d)), (''version'', JStr (NodeVersion d)),
      (''channels'', JStr (map upper_char (hex_encode (NodeChannels d)))), (''moniker'', JStr (Moniker d)),
      (''other'', JObj [(''tx_index'', JStr (TxIndex (Other d))), (''rpc_address'', JStr (RPCAddress (Other d)))])]"

definition FlowStatus_json :: "(int \<Rightarrow> string) \<Rightarrow> FlowStatus \<Rightarrow> (string \<times> json) list" where
  "FlowStatus_json show_time f =
     [(''Start'', JStr (show_time (Start f))), (''Bytes'', str_num (Bytes f)), (''Samples'', str_num (Samples f)),
      (''InstRate'', str_num (InstRate f)), (''CurRate'', str_num (CurRate f)), (''AvgRate'', str_num (AvgRate f)),
      (''PeakRate'', str_num (PeakRate f)), (''BytesRem'', str_num (BytesRem f)),
      (''Duration'', str_num (FlowDuration f)), (''Idle'', str_num (Idle f)), (''TimeRem'', str_num (TimeRem f)),
      (''Progress'', JNum (Progress f)), (''Active'', JBool (Active f))]"

definition ChannelStatus_json :: "ChannelStatus \<Rightarrow> (string \<times> json) list" where
  "ChannelStatus_json c =
     [(''ID'', JNum (ChannelID c)), (''SendQueueCapacity'', str_num (SendQueueCapacity c)),
      (''SendQueueSize'', str_num (SendQueueSize c)), (''Priority'', str_num (Priority c)),
      (''RecentlySent'', str_num (RecentlySent c))]"

definition ConnectionStatus_json :: "(int \<Rightarrow> string) \<Rightarrow> ConnectionStatus \<Rightarrow> (string \<times> json) list" where
  "ConnectionStatus_json show_time c =
     [(''Duration'', str_num (ConnDuration c)), (''SendMonitor'', JObj (FlowStatus_json show_time (SendMonitor c))),
      (''RecvMonitor'', JObj (FlowStatus_json show_time (RecvMonitor c))),
      (''Channels'', JArr (map (\<lambda>ch. JObj (ChannelStatus_json ch)) (ConnChannels c)))]"

definition Peer_json :: "(int \<Rightarrow> string) \<Rightarrow> Peer \<Rightarrow> (string \<times> json) list" where
  "Peer_json show_time p =
     [(''node_info'', JObj (DefaultNodeInfo_json (NodeInfo p))), (''is_outbound'', JBool (IsOutbound p)),
      (''connection_status'', JObj (ConnectionStatus_json show_time (ConnectionStatusOf p))),
      (''remote_ip'', JStr (RemoteIP p))]"

definition NetInfo_json :: "(int \<Rightarrow> string) \<Rightarrow> NetInfo \<Rightarrow> (string \<times> json) list" where
  "NetInfo_json show_time n =
     [(''listening'', JBool (Listening n)), (''listeners'', JArr (map JStr (Listeners n))),
      (''n_peers'', str_num (NPeers n)), (''peers'', JArr (map (\<lambda>p. JObj (Peer_json show_time p)) (Peers n)))]"

definition response_json :: "(int \<Rightarrow> string) \<Rightarrow> NetInfo \<Rightarrow> json" where
  "response_json show_time n =
     JObj [(''jsonrpc'', JStr ''2.0''), (''id'', JNum (-1)), (''result'', JObj (NetInfo_json show_time n))]"

text \<open>The values of the types: what fits the widths, and times that read back.\<close>

definition FlowStatus_ok :: "(string \<Rightarrow> int option) \<Rightarrow> (int \<Rightarrow> string) \<Rightarrow> FlowStatus \<Rightarrow> bool" where
  "FlowStatus_ok rfc3339 show_time f \<longleftrightarrow> rfc3339 (show_time (Start f)) = Some (Start f) \<and>
     list_all in_i64 [Bytes f, Samples f, InstRate f, CurRate f, AvgRate f, PeakRate f, BytesRem f,
       FlowDuration f, Idle f, TimeRem f] \<and> 0 \<le> Progress f \<and> Progress f < 2 ^ 32"

definition ChannelStatus_ok :: "ChannelStatus \<Rightarrow> bool" where
  "ChannelStatus_ok c \<longleftrightarrow> 0 \<le> ChannelID c \<and> ChannelID c < 2 ^ 8 \<and>
     list_all in_i64 [SendQueueCapacity c, SendQueueSize c, Priority c, RecentlySent c]"

definition Peer_ok :: "(string \<Rightarrow> int option) \<Rightarrow> (int \<Rightarrow> string) \<Rightarrow> Peer \<Rightarrow> bool" where
  "Peer_ok rfc3339 show_time p \<longleftrightarrow>
     list_all (\<lambda>k. k < 2 ^ 64) [P2P (ProtocolVersionOf (NodeInfo p)), Block (ProtocolVersionOf (NodeInfo p)),
       App (ProtocolVersionOf (NodeInfo p))] \<and>
     in_i64 (ConnDuration (ConnectionStatusOf p)) \<and>
     FlowStatus_ok rfc3339 show_time (SendMonitor (ConnectionStatusOf p)) \<and>
     FlowStatus_ok rfc3339 show_time (RecvMonitor (ConnectionStatusOf p)) \<and>
     list_all ChannelStatus_ok (ConnChannels (ConnectionStatusOf p))"

definition NetInfo_ok :: "(string \<Rightarrow> int option) \<Rightarrow> (int \<Rightarrow> string) \<Rightarrow> NetInfo \<Rightarrow> bool" where
  "NetInfo_ok rfc3339 show_time n \<longleftrightarrow> in_i64 (NPeers n) \<and> list_all (Peer_ok rfc3339 show_time) (Peers n)"

lemma field_decoders [simp]:
  "set_with dec f j r = map_option (\<lambda>v. f v r) (dec j)"
  "set_range bound g (JNum n) r = (if 0 \<le> n \<and> n < bound then Some (g n r) else None)"
  "set_struct fs get h (JObj ms) r = map_option (\<lambda>v. h v r) (decode_members fs ms (get r))"
  "set_structs fs' zero k (JArr js) r = map_option (\<lambda>vs. k vs r) (decode_elems fs' zero js)"
  "set_time rfc3339 l (JStr s) r = map_option (\<lambda>t. l t r) (rfc3339 s)"
  "JSONStrUint64 (JStr (show_nat m)) = (if m < 2 ^ 64 then Some m else None)"
  "json_hex (JStr (map upper_char (hex_encode bz))) = Some bz"
  using hex_upper_roundtrip [of bz]
  by (simp_all add: set_with_def set_range_def set_struct_def set_structs_def set_time_def
      JSONStrUint64_def json_text_def read_uint64_def json_hex_def HexBytes_UnmarshalJSON_def
      nth_append)

lemma str_num_decoders [simp]:
  "JSONStrInt (str_num n) = (if in_i64 n then Some n else None)"
  "JSONStrInt64 (str_num n) = (if in_i64 n then Some n else None)"
  "JSONDuration (str_num n) = (if in_i64 n then Some n else None)"
  by (simp_all add: str_num_def JSONStrInt_def JSONStrInt64_def JSONDuration_def json_text_def
      read_int64_show_iff)

lemma lower_names [simp]:
  "map lower_char ''Start'' = ''start''" "map lower_char ''Bytes'' = ''bytes''"
  "map lower_char ''Samples'' = ''samples''" "map lower_char ''InstRate'' = ''instrate''"
  "map lower_char ''CurRate'' = ''currate''" "map lower_char ''AvgRate'' = ''avgrate''"
  "map lower_char ''PeakRate'' = ''peakrate''" "map lower_char ''BytesRem'' = ''bytesrem''"
  "map lower_char ''Duration'' = ''duration''" "map lower_char ''Idle'' = ''idle''"
  "map lower_char ''TimeRem'' = ''timerem''" "map lower_char ''Progress'' = ''progress''"
  "map lower_char ''Active'' = ''active''" "map lower_char ''ID'' = ''id''"
  "map lower_char ''SendQueueCapacity'' = ''sendqueuecapacity''"
  "map lower_char ''SendQueueSize'' = ''sendqueuesize''"
  "map lower_char ''Priority'' = ''priority''" "map lower_char ''RecentlySent'' = ''recentlysent''"
  "map lower_char ''SendMonitor'' = ''sendmonitor''"
  "map lower_char ''RecvMonitor'' = ''recvmonitor''" "map lower_char ''Channels'' = ''channels''"
  "map lower_char ''p2p'' = ''p2p''" "map lower_char ''block'' = ''block''"
  "map lower_char ''app'' = ''app''" "map lower_char ''tx_index'' = ''tx_index''"
  "map lower_char ''rpc_address'' = ''rpc_address''"
  "map lower_char ''protocol_version'' = ''protocol_version''"
  "map lower_char ''listen_addr'' = ''listen_addr''" "map lower_char ''network'' = ''network''"
  "map lower_char ''version'' = ''version''" "map lower_char ''channels'' = ''channels''"
  "map lower_char ''moniker'' = ''moniker''" "map lower_char ''other'' = ''other''"
  "map lower_char ''node_info'' = ''node_info''" "map lower_char ''is_outbound'' = ''is_outbound''"
  "map lower_char ''connection_status'' = ''connection_status''"
  "map lower_char ''remote_ip'' = ''remote_ip''" "map lower_char ''listening'' = ''listening''"
  "map lower_char ''listeners'' = ''listeners''" "map lower_char ''n_peers'' = ''n_peers''"
  "map lower_char ''peers'' = ''peers''" "map lower_char ''jsonrpc'' = ''jsonrpc''"
  "map lower_char ''result'' = ''result''"
  by code_simp+

lemma decode_elems_map:
  assumes "\<And>x. x \<in> set xs \<Longrightarrow> decode_members fs (enc x) zero = Some x"
  shows "decode_elems fs zero (map (\<lambda>x. JObj (enc x)) xs) = Some xs"
  using assms by (induction xs) simp_all

lemma ChannelStatus_roundtrip:
  "ChannelStatus_ok c \<Longrightarrow> decode_members ChannelStatus_fields (ChannelStatus_json c) zero_channel = Some c"
  by (cases c) (simp add: ChannelStatus_ok_def ChannelStatus_fields_def ChannelStatus_json_def
      zero_channel_def del: list.map)

lemma FlowStatus_roundtrip:
  "FlowStatus_ok rfc3339 show_time f \<Longrightarrow>
     decode_members (FlowStatus_fields rfc3339) (FlowStatus_json show_time f) zero_flow = Some f"
  by (cases f) (simp add: FlowStatus_ok_def FlowStatus_fields_def FlowStatus_json_def zero_flow_def
      del: list.map)

lemma ConnectionStatus_roundtrip:
  assumes "in_i64 (ConnDuration c)" and "FlowStatus_ok rfc3339 show_time (SendMonitor c)"
    and "FlowStatus_ok rfc3339 show_time (RecvMonitor c)" and "list_all ChannelStatus_ok (ConnChannels c)"
  shows "decode_members (ConnectionStatus_fields rfc3339) (ConnectionStatus_json show_time c)
      (ConnectionStatusOf zero_peer) = Some c"
proof -
  have "decode_elems ChannelStatus_fields zero_channel
      (map (\<lambda>ch. JObj (ChannelStatus_json ch)) (ConnChannels c)) = Some (ConnChannels c)"
    using assms(4) by (intro decode_elems_map ChannelStatus_roundtrip) (simp add: list_all_iff)
  with assms show ?thesis
    by (cases c) (simp add: ConnectionStatus_fields_def ConnectionStatus_json_def zero_peer_def
        FlowStatus_roundtrip del: list.map)
qed

lemma DefaultNodeInfo_roundtrip:
  assumes "P2P (ProtocolVersionOf d) < 2 ^ 64" and "Block (ProtocolVersionOf d) < 2 ^ 64"
    and "App (ProtocolVersionOf d) < 2 ^ 64"
  shows "decode_members DefaultNodeInfo_fields (DefaultNodeInfo_json d) (NodeInfo zero_peer) = Some d"
proof -
  obtain v i l n w c m e where d: "d = \<lparr>ProtocolVersionOf = v, DefaultNodeID = i, ListenAddr = l,
      NetworkName = n, NodeVersion = w, NodeChannels = c, Moniker = m, Other = e\<rparr>" by (cases d)
  show ?thesis
    using assms by (cases v; cases e) (simp add: d DefaultNodeInfo_fields_def DefaultNodeInfo_json_def
        ProtocolVersion_fields_def ProtocolVersion_json_def DefaultNodeInfoOther_fields_def zero_peer_def
        del: list.map)
qed

lemma Peer_roundtrip:
  assumes "Peer_ok rfc3339 show_time p"
  shows "decode_members (Peer_fields rfc3339) (Peer_json show_time p) zero_peer = Some p"
  using assms DefaultNodeInfo_roundtrip [of "NodeInfo p"]
    ConnectionStatus_roundtrip [of "ConnectionStatusOf p" rfc3339 show_time]
  by (cases p) (simp add: Peer_ok_def Peer_fields_def Peer_json_def zero_peer_def del: list.map)

lemma NetInfo_roundtrip:
  assumes "NetInfo_ok rfc3339 show_time n"
  shows "decode_members (NetInfo_fields rfc3339) (NetInfo_json show_time n) zero_net_info = Some n"
proof -
  have "decode_elems (Peer_fields rfc3339) zero_peer (map (\<lambda>p. JObj (Peer_json show_time p)) (Peers n)) =
      Some (Peers n)"
    using assms by (intro decode_elems_map Peer_roundtrip) (simp add: NetInfo_ok_def list_all_iff)
  with assms show ?thesis
    by (cases n) (simp add: NetInfo_ok_def NetInfo_fields_def NetInfo_json_def zero_net_info_def
        del: list.map)
qed

text \<open>C32: the crawl sees what the node says: for every net_info document in the form Tendermint
  writes, with any peers, channels and monitors whose numbers have their widths, \<open>netInfo\<close> returns
  exactly the value that was written, and the question of the crawl is answered with the remote
  addresses of its peers, in order.\<close>

theorem net_info_roundtrip:
  assumes "get (http_addr (Addr p) @ ''/net_info'') = Body (Some (response_json show_time n))"
    and "NetInfo_ok rfc3339 show_time n"
  shows "netInfo rfc3339 get (http_addr (Addr p)) = Inr n \<and>
    query_peer (rpc_net rfc3339 get) p = PeerAnswer \<lparr>Addr = Addr p,
      PeerAddrs = map (\<lambda>q. rpc_addr (RemoteIP q)) (Peers n), SuccessfullyQueried = True\<rparr>"
proof -
  have "decode_struct RPCResponse_fields zero_response (response_json show_time n) =
      Some (zero_response\<lparr>ResponseVersion := ''2.0'', ResponseID := -1, Result := Some (JObj (NetInfo_json show_time n))\<rparr>)"
    by (simp add: decode_struct_def response_json_def RPCResponse_fields_def zero_response_def
        in_i64_def del: list.map)
  with assms(1) NetInfo_roundtrip [OF assms(2)]
  have "netInfo rfc3339 get (http_addr (Addr p)) = Inr n"
    by (simp add: netInfo_def inner_net_info_def decode_struct_def [of "NetInfo_fields _"] zero_response_def)
  then show ?thesis by (simp add: query_peer_def rpc_net_def comp_def)
qed

text \<open>A node with one peer, at 10.0.0.2, and the clock stopped at zero.\<close>

definition demo_info :: NetInfo where
  "demo_info = \<lparr>Listening = True, Listeners = [''Listener(@)''], NPeers = 1,
     Peers = [zero_peer\<lparr>RemoteIP := ''10.0.0.2''\<rparr>]\<rparr>"

theorem net_info_roundtrip_witness:
  "query_peer (rpc_net (\<lambda>_. Some 0) (\<lambda>_. Body (Some (response_json (\<lambda>_. ''now'') demo_info))))
     (unqueried ''http://10.0.0.1:26657'') =
   PeerAnswer \<lparr>Addr = ''http://10.0.0.1:26657'', PeerAddrs = [''http://10.0.0.2:26657''],
     SuccessfullyQueried = True\<rparr>"
proof -
  have "NetInfo_ok (\<lambda>_. Some 0) (\<lambda>_. ''now'') demo_info"
    by (simp add: NetInfo_ok_def demo_info_def Peer_ok_def zero_peer_def zero_flow_def FlowStatus_ok_def in_i64_def)
  from net_info_roundtrip [OF _ this, of "\<lambda>_. Body (Some (response_json (\<lambda>_. ''now'') demo_info))"]
  show ?thesis by (simp add: demo_info_def unqueried_def rpc_addr_def)
qed

end
