(* ===== verification/Outage_Sim.thy ===== *)
theory Outage_Sim
  imports Go_Prelude
begin

section \<open>The outage simulator (internal/outagesim, cmd/tm-outage-sim-server)\<close>

text \<open>
  An HTTP server that stops and starts the local Tendermint service for an authenticated client.
  What the handler asks of its machine is a field of \<open>machine\<close>: whether the service runs, what
  running a service command gives, and whether a password matches a bcrypt hash.  The handler's
  effects are the response and the service commands it ran.
\<close>

record http_request =
  Method :: string
  ReqBody :: "(go_error + string) option"
  BasicAuth :: "(string \<times> string) option"

record machine =
  isTendermintRunning :: bool
  executeServiceCmd :: "string \<Rightarrow> go_error option"
  hash_matches :: "string \<Rightarrow> string \<Rightarrow> bool"

text \<open>
  What service_mgmt.go asks of the machine: \<open>run\<close> is the execution of a command with its arguments,
  through the operating system.
\<close>

definition IsTendermintRunning :: "(string \<Rightarrow> string list \<Rightarrow> go_error option) \<Rightarrow> bool" where
  "IsTendermintRunning run \<longleftrightarrow> run ''sudo'' [''pidof'', ''tendermint''] = None"

definition ExecuteServiceCmd :: "(string \<Rightarrow> string list \<Rightarrow> go_error option) \<Rightarrow> string \<Rightarrow> go_error option" where
  "ExecuteServiceCmd run st = run ''sudo'' [''/bin/systemctl'', st, ''tendermint'']"

definition local_machine :: "(string \<Rightarrow> string list \<Rightarrow> go_error option) \<Rightarrow> (string \<Rightarrow> string \<Rightarrow> bool) \<Rightarrow> machine" where
  "local_machine run matches =
     \<lparr>isTendermintRunning = IsTendermintRunning run, executeServiceCmd = ExecuteServiceCmd run,
      hash_matches = matches\<rparr>"

record handled =
  status :: int
  reply_text :: string
  commands :: "string list"

abbreviation (input) StatusOK :: int where "StatusOK \<equiv> 200"
abbreviation (input) StatusBadRequest :: int where "StatusBadRequest \<equiv> 400"
abbreviation (input) StatusUnauthorized :: int where "StatusUnauthorized \<equiv> 401"
abbreviation (input) StatusMethodNotAllowed :: int where "StatusMethodNotAllowed \<equiv> 405"
abbreviation (input) StatusInternalServerError :: int where "StatusInternalServerError \<equiv> 500"

definition respond :: "string list \<Rightarrow> int \<Rightarrow> string \<Rightarrow> handled" where
  "respond cmds c msg = \<lparr>status = c, reply_text = msg @ [CHR 0x0A], commands = cmds\<rparr>"

definition tendermintUp :: "machine \<Rightarrow> handled" where
  "tendermintUp m =
     (if \<not> isTendermintRunning m then
        (case executeServiceCmd m ''start'' of
           Some err \<Rightarrow> respond [''start''] StatusInternalServerError ''Failed to start Tendermint process''
         | None \<Rightarrow> respond [''start''] StatusOK ''Service successfully started'')
      else respond [] StatusOK ''Service is already running'')"

definition tendermintDown :: "machine \<Rightarrow> handled" where
  "tendermintDown m =
     (if isTendermintRunning m then
        (case executeServiceCmd m ''stop'' of
           Some err \<Rightarrow> respond [''stop''] StatusInternalServerError ''Failed to stop Tendermint process''
         | None \<Rightarrow> respond [''stop''] StatusOK ''Service successfully stopped'')
      else respond [] StatusOK ''Service is already stopped'')"

definition authenticate :: "machine \<Rightarrow> http_request \<Rightarrow> string \<Rightarrow> string \<Rightarrow> go_error option" where
  "authenticate m req username passwordHash =
     (case BasicAuth req of
        None \<Rightarrow> Some ''missing username and/or password in request''
      | Some (u, p) \<Rightarrow>
        if u \<noteq> username then Some ''invalid username and/or password''
        else if \<not> hash_matches m passwordHash p then Some ''invalid username and/or password''
        else None)"

text \<open>\<open>MakeOutageEndpointHandler\<close>: the body is \<open>None\<close> when the request has none.\<close>

definition OutageEndpointHandler :: "string \<Rightarrow> string \<Rightarrow> machine \<Rightarrow> http_request \<Rightarrow> handled" where
  "OutageEndpointHandler username passwordHash m r =
     (if Method r \<noteq> ''POST'' then respond [] StatusMethodNotAllowed ''Unsupported method''
      else case ReqBody r of
        None \<Rightarrow> respond [] StatusBadRequest ''Missing command in request''
      | Some body \<Rightarrow>
        (case authenticate m r username passwordHash of
           Some err \<Rightarrow> respond [] StatusUnauthorized (''Error: '' @ err)
         | None \<Rightarrow>
           (case body of
              Inl err \<Rightarrow> respond [] StatusInternalServerError
                ''Internal server error while reading request body''
            | Inr cmd \<Rightarrow>
                if cmd = ''up'' then tendermintUp m
                else if cmd = ''down'' then tendermintDown m
                else respond [] StatusBadRequest ''Unrecognised command'')))"

text \<open>On the local machine: the process is looked for, and only if it is absent the service is started.\<close>

lemma up_on_local_machine:
  "tendermintUp (local_machine run matches) =
     (if run ''sudo'' [''pidof'', ''tendermint''] = None then respond [] StatusOK ''Service is already running''
      else if run ''sudo'' [''/bin/systemctl'', ''start'', ''tendermint''] = None
      then respond [''start''] StatusOK ''Service successfully started''
      else respond [''start''] StatusInternalServerError ''Failed to start Tendermint process'')"
  by (auto simp: tendermintUp_def local_machine_def IsTendermintRunning_def ExecuteServiceCmd_def split: option.split)

subsection \<open>The server\<close>

text \<open>
  The start of the server: an exit code, or the handler it serves.  A hash may be given with
  \<open>#\<close> for \<open>$\<close>.
\<close>

definition outage_server :: "string \<Rightarrow> string \<Rightarrow> int + (machine \<Rightarrow> http_request \<Rightarrow> handled)" where
  "outage_server username passwordHash =
     (if username = [] then Inl 1
      else if passwordHash = [] then Inl 1
      else Inr (OutageEndpointHandler username
        (map (\<lambda>ch. if ch = CHR ''#'' then CHR ''$'' else ch) passwordHash)))"

text \<open>What the requests of a run leave of the service, each command that works taking effect.\<close>

definition after_request :: "http_request \<Rightarrow> string \<Rightarrow> string \<Rightarrow> machine \<Rightarrow> machine" where
  "after_request r username passwordHash m =
     (if commands (OutageEndpointHandler username passwordHash m r) = [''start''] \<and>
         executeServiceCmd m ''start'' = None then m\<lparr>isTendermintRunning := True\<rparr>
      else if commands (OutageEndpointHandler username passwordHash m r) = [''stop''] \<and>
         executeServiceCmd m ''stop'' = None then m\<lparr>isTendermintRunning := False\<rparr>
      else m)"

lemmas outage_defs = OutageEndpointHandler_def tendermintUp_def tendermintDown_def respond_def
  authenticate_def

text \<open>C35: only an authenticated command touches the service: the handler runs a service command just
  when the request is a POST whose body reads \<open>up\<close> or \<open>down\<close>, the user name is the configured one,
  the password matches the configured hash, and the service is not already as asked; it then runs
  exactly one, \<open>start\<close> or \<open>stop\<close> accordingly.\<close>

theorem outage_commands_exact:
  "commands (OutageEndpointHandler username passwordHash m r) =
     (if Method r = ''POST'' \<and> (\<exists>p. BasicAuth r = Some (username, p) \<and> hash_matches m passwordHash p)
      then (if ReqBody r = Some (Inr ''up'') \<and> \<not> isTendermintRunning m then [''start'']
            else if ReqBody r = Some (Inr ''down'') \<and> isTendermintRunning m then [''stop''] else [])
      else [])"
  by (cases "BasicAuth r"; cases "ReqBody r"; cases "the (ReqBody r)"; cases "executeServiceCmd m ''start''";
      cases "executeServiceCmd m ''stop''"; simp add: outage_defs split: prod.split)

text \<open>An answer of success tells the truth: when the handler answers an authenticated \<open>up\<close> or
  \<open>down\<close> with status 200 the service is afterwards in the state asked for, and with any other
  status it is as it was before.\<close>

theorem outage_answer_truthful:
  assumes "after_request r username passwordHash m = m'" and "ReqBody r = Some (Inr cmd)"
  shows "if status (OutageEndpointHandler username passwordHash m r) = 200
    then isTendermintRunning m' = (cmd = ''up'') \<and> (cmd = ''up'' \<or> cmd = ''down'') else m' = m"
  unfolding assms(1) [symmetric] after_request_def
  by (cases "BasicAuth r"; cases "executeServiceCmd m ''start''"; cases "executeServiceCmd m ''stop''";
      simp add: outage_defs assms(2) split: prod.split)

theorem outage_answer_truthful_witness:
  "isTendermintRunning (after_request
     \<lparr>Method = ''POST'', ReqBody = Some (Inr ''up''), BasicAuth = Some (''u'', ''pw'')\<rparr> ''u'' ''h''
     \<lparr>isTendermintRunning = False, executeServiceCmd = \<lambda>_. None, hash_matches = \<lambda>_ _. True\<rparr>)"
  using outage_answer_truthful [of "\<lparr>Method = ''POST'', ReqBody = Some (Inr ''up''), BasicAuth = Some (''u'', ''pw'')\<rparr>"
      "''u''" "''h''" "\<lparr>isTendermintRunning = False, executeServiceCmd = \<lambda>_. None, hash_matches = \<lambda>_ _. True\<rparr>"
      _ "''up''", OF refl]
  by (simp add: outage_defs)

end
