(* ===== verification/Logrus_Logging.thy ===== *)
theory Logrus_Logging
  imports Go_Map
begin

section \<open>The logger (internal/logging/logging.go)\<close>

text \<open>
  A \<open>LogrusLogger\<close> holds a Go map of fields and a stack of such maps.  Go maps are references, so
  the maps live in a store and the logger and its stack hold their addresses: what \<open>PushFields\<close>
  pushes is the map itself, not a copy.  An \<open>interface{}\<close> is a text, a number or a slice of
  values; an entry handed to logrus is its fields and its message.  Every operation holds the
  logger's lock, so it is one step.  \<open>None\<close> is a panic.
\<close>

datatype log_value = VText string | VNum int | VSlice "log_value list"

type_synonym log_fields = "(string, log_value) gomap"

datatype level = DebugLevel | InfoLevel | ErrorLevel

record logger =
  l_entry :: log_fields
  l_ctx :: string
  l_fields :: nat
  pushedFieldSets :: "nat list"

record log_state =
  field_maps :: "log_fields list"
  the_logger :: logger
  entries :: "(level \<times> log_fields \<times> string) list"

text \<open>Pairs of a key and a value; an odd number of arguments gives no fields at all.\<close>

fun kv_loop :: "log_value list \<Rightarrow> log_fields \<Rightarrow> log_fields option" where
  "kv_loop (VText k # v # rest) res = kv_loop rest (gset k v res)"
| "kv_loop (_ # _ # rest) res = None"
| "kv_loop _ res = Some res"

definition serializeKVPairs :: "log_value list \<Rightarrow> log_fields option" where
  "serializeKVPairs kvpairs = (if length kvpairs mod 2 = 0 then kv_loop kvpairs [] else Some [])"

text \<open>The constructor passes its own argument slice as one argument.\<close>

definition NewLogrusLogger :: "string \<Rightarrow> log_value list \<Rightarrow> log_fields list \<Rightarrow> log_state option" where
  "NewLogrusLogger ctx kvpairs store =
     (case serializeKVPairs [VSlice kvpairs] of
        None \<Rightarrow> None
      | Some fs \<Rightarrow>
        Some \<lparr>field_maps = store @ [fs],
          the_logger = \<lparr>l_entry = (if ctx \<noteq> [] then [(''ctx'', VText ctx)] else []), l_ctx = ctx,
            l_fields = length store, pushedFieldSets = []\<rparr>,
          entries = []\<rparr>)"

definition fields_of :: "log_state \<Rightarrow> log_fields" where
  "fields_of s = field_maps s ! l_fields (the_logger s)"

text \<open>\<open>WithFields\<close> of logrus: a copy of the entry's fields, overridden by the ones given.\<close>

definition with_fields :: "log_fields \<Rightarrow> log_fields \<Rightarrow> log_fields" where
  "with_fields entry fs = fold (\<lambda>(k, v). gset k v) fs entry"

definition withFields :: "log_state \<Rightarrow> log_fields" where
  "withFields s = (if fields_of s \<noteq> [] then with_fields (l_entry (the_logger s)) (fields_of s)
     else l_entry (the_logger s))"

definition withKVPairs :: "log_value list \<Rightarrow> log_state \<Rightarrow> log_fields option" where
  "withKVPairs kvpairs s =
     (case serializeKVPairs kvpairs of
        None \<Rightarrow> None
      | Some fs \<Rightarrow> Some (if fs \<noteq> [] then with_fields (withFields s) fs else withFields s))"

text \<open>\<open>Debug\<close>, \<open>Info\<close> and \<open>Error\<close>.\<close>

definition log_at :: "level \<Rightarrow> string \<Rightarrow> log_value list \<Rightarrow> log_state \<Rightarrow> log_state option" where
  "log_at lv msg kvpairs s =
     (case withKVPairs kvpairs s of
        None \<Rightarrow> None
      | Some fs \<Rightarrow> Some (s\<lparr>entries := entries s @ [(lv, fs, msg)]\<rparr>))"

definition SetField :: "string \<Rightarrow> log_value \<Rightarrow> log_state \<Rightarrow> log_state" where
  "SetField k v s =
     s\<lparr>field_maps := (field_maps s)[l_fields (the_logger s) := gset k v (fields_of s)]\<rparr>"

definition PushFields :: "log_state \<Rightarrow> log_state" where
  "PushFields s = s\<lparr>the_logger := (the_logger s)
     \<lparr>pushedFieldSets := pushedFieldSets (the_logger s) @ [l_fields (the_logger s)]\<rparr>\<rparr>"

definition PopFields :: "log_state \<Rightarrow> log_state" where
  "PopFields s =
     (let pfsLen = length (pushedFieldSets (the_logger s)) in
      if pfsLen > 0
      then s\<lparr>the_logger := (the_logger s)\<lparr>l_fields := pushedFieldSets (the_logger s) ! (pfsLen - 1),
             pushedFieldSets := take (pfsLen - 1) (pushedFieldSets (the_logger s))\<rparr>\<rparr>
      else s)"

text \<open>The operations of the interface other than logging, and a run of them.\<close>

datatype log_op = Set_Field string log_value | Push_Fields | Pop_Fields

fun log_op_step :: "log_op \<Rightarrow> log_state \<Rightarrow> log_state" where
  "log_op_step (Set_Field k v) s = SetField k v s"
| "log_op_step Push_Fields s = PushFields s"
| "log_op_step Pop_Fields s = PopFields s"

definition run_ops :: "log_op list \<Rightarrow> log_state \<Rightarrow> log_state" where
  "run_ops ops s = fold log_op_step ops s"

text \<open>\<open>NoopLogger\<close>: every operation leaves everything as it is.\<close>

definition noop_step :: "log_op \<Rightarrow> log_state \<Rightarrow> log_state" where
  "noop_step op s = s"

subsection \<open>The fields of a logger\<close>

text \<open>
  The fields set by a run of operations, as if there were no stack: the invariant is that the
  logger and all of its stack share one map.
\<close>

fun fields_set :: "log_op list \<Rightarrow> log_fields \<Rightarrow> log_fields" where
  "fields_set [] fs = fs"
| "fields_set (Set_Field k v # ops) fs = fields_set ops (gset k v fs)"
| "fields_set (_ # ops) fs = fields_set ops fs"

definition one_map :: "log_state \<Rightarrow> bool" where
  "one_map s \<longleftrightarrow> l_fields (the_logger s) < length (field_maps s) \<and>
     list_all (\<lambda>a. a = l_fields (the_logger s)) (pushedFieldSets (the_logger s))"

lemma one_map_step:
  assumes "one_map s"
  shows "one_map (log_op_step op s) \<and> fields_of (log_op_step op s) = fields_set [op] (fields_of s)"
proof (cases op)
  case (Set_Field k v)
  with assms show ?thesis by (simp add: one_map_def SetField_def fields_of_def)
next
  case Push_Fields
  with assms show ?thesis by (simp add: one_map_def PushFields_def fields_of_def)
next
  case Pop_Fields
  let ?st = "pushedFieldSets (the_logger s)"
  show ?thesis
  proof (cases "?st = []")
    case True
    with Pop_Fields assms show ?thesis by (simp add: PopFields_def)
  next
    case False
    then have "?st ! (length ?st - 1) \<in> set ?st" by simp
    with assms have "?st ! (length ?st - 1) = l_fields (the_logger s)"
      by (simp add: one_map_def list_all_iff)
    with Pop_Fields assms show ?thesis
      by (simp add: PopFields_def one_map_def fields_of_def list_all_iff Let_def) (blast dest: in_set_takeD)
  qed
qed

lemma run_ops_fields:
  "one_map s \<Longrightarrow> fields_of (run_ops ops s) = fields_set ops (fields_of s)"
proof (induction ops arbitrary: s)
  case Nil
  then show ?case by (simp add: run_ops_def)
next
  case (Cons op ops)
  from one_map_step [OF Cons.prems, of op] Cons.IH [of "log_op_step op s"]
  show ?case by (cases op) (simp_all add: run_ops_def)
qed

lemma new_logger:
  "NewLogrusLogger ctx kvpairs store = Some s \<Longrightarrow> one_map s \<and> fields_of s = []"
  by (auto simp: NewLogrusLogger_def serializeKVPairs_def one_map_def fields_of_def)

text \<open>A logger forgets the fields it is made with and never takes a field back.  Whatever fields
  the constructor is given, and whatever sequence of \<open>SetField\<close>, \<open>PushFields\<close> and \<open>PopFields\<close> is then
  run, the logger has exactly the fields that were set, all of them, with their last values:
  \<open>PopFields\<close> restores nothing, because what \<open>PushFields\<close> saves is the same map.\<close>

theorem pop_restores_nothing:
  assumes "NewLogrusLogger ctx kvpairs store = Some s"
  shows "fields_of (run_ops ops s) = fields_set (filter (\<lambda>op. op \<noteq> Push_Fields \<and> op \<noteq> Pop_Fields) ops) []"
proof -
  have "fields_set ops fs = fields_set (filter (\<lambda>op. op \<noteq> Push_Fields \<and> op \<noteq> Pop_Fields) ops) fs" for fs
    by (induction ops fs rule: fields_set.induct) simp_all
  then show ?thesis using new_logger [OF assms] run_ops_fields by metis
qed

theorem pop_restores_nothing_witness:
  "\<exists>s. NewLogrusLogger ''worker'' [VText ''id'', VText ''w''] [] = Some s \<and>
     fields_of (run_ops [Push_Fields, Set_Field ''peer'' (VNum 1), Pop_Fields] s) = [(''peer'', VNum 1)]"
proof -
  obtain s where "NewLogrusLogger ''worker'' [VText ''id'', VText ''w''] [] = Some s"
    by (simp add: NewLogrusLogger_def serializeKVPairs_def)
  with pop_restores_nothing [OF this, of "[Push_Fields, Set_Field ''peer'' (VNum 1), Pop_Fields]"]
  show ?thesis by simp
qed

end
