(* ===== verification/Transactor_Limit.thy ===== *)
theory Transactor_Limit
  imports Load_Transactor
begin

section \<open>A transactor with a limit comes to its end (transactor.go)\<close>

text \<open>
  One pass of the send loop as a function of the tick its \<open>select\<close> takes, shown to be steps of the
  loop; and the number of passes after which the transaction limit ends it.
\<close>

definition loop_pass :: "'w client \<Rightarrow> tick \<Rightarrow> 'w send_state \<Rightarrow> 'w send_state option" where
  "loop_pass cl tk s =
     (case select_tick cl tk (world s) (count_check (tr s)) of
        None \<Rightarrow> None
      | Some (w', t', rs) \<Rightarrow>
        Some (if mustStop t'
              then s\<lparr>tr := t_close None t', world := w', pc := Returned, reports := reports s @ rs\<rparr>
              else s\<lparr>tr := t', world := w', pc := LoopTop, reports := reports s @ rs\<rparr>))"

fun send_passes :: "'w client \<Rightarrow> tick list \<Rightarrow> 'w send_state \<Rightarrow> 'w send_state option" where
  "send_passes cl [] s = Some s"
| "send_passes cl (tk # tks) s =
     (if pc s = LoopTop
      then (case loop_pass cl tk s of None \<Rightarrow> None | Some s' \<Rightarrow> send_passes cl tks s')
      else Some s)"

lemma loop_pass_steps:
  assumes "pc s = LoopTop" and "loop_pass cl tk s = Some s'"
  shows "(send_step cl)\<^sup>*\<^sup>* s s'"
proof -
  obtain w' t' rs where sel: "select_tick cl tk (world s) (count_check (tr s)) = Some (w', t', rs)"
    using assms(2) by (auto simp: loop_pass_def split: option.splits)
  let ?s1 = "s\<lparr>tr := count_check (tr s), pc := Selecting\<rparr>"
  let ?s2 = "?s1\<lparr>tr := t', world := w', pc := Checking, reports := reports ?s1 @ rs\<rparr>"
  have "send_step cl s ?s1" using assms(1) by (rule send_step.at_top)
  moreover have "send_step cl ?s1 ?s2" by (rule send_step.selected [where tk = tk]) (simp_all add: sel)
  moreover have "send_step cl ?s2 s'"
  proof (cases "mustStop t'")
    case True
    then have "send_step cl ?s2 (?s2\<lparr>tr := t_close None (tr ?s2), pc := Returned\<rparr>)"
      by (intro send_step.leave) simp_all
    also have "?s2\<lparr>tr := t_close None (tr ?s2), pc := Returned\<rparr> = s'"
      using True assms(2) sel by (cases s) (simp add: loop_pass_def)
    finally show ?thesis .
  next
    case False
    then have "send_step cl ?s2 (?s2\<lparr>pc := LoopTop\<rparr>)" by (intro send_step.again) simp_all
    also have "?s2\<lparr>pc := LoopTop\<rparr> = s'"
      using False assms(2) sel by (cases s) (simp add: loop_pass_def)
    finally show ?thesis .
  qed
  ultimately show ?thesis by (meson r_into_rtranclp rtranclp_trans)
qed

lemma send_passes_steps: "send_passes cl tks s = Some s' \<Longrightarrow> (send_step cl)\<^sup>*\<^sup>* s s'"
  by (induction cl tks s rule: send_passes.induct)
    (auto split: option.splits if_splits dest: loop_pass_steps intro: rtranclp_trans)

lemma send_passes_append:
  "send_passes cl (xs @ ys) s =
     (case send_passes cl xs s of None \<Rightarrow> None | Some s' \<Rightarrow> send_passes cl ys s')"
proof (induction cl xs s rule: send_passes.induct)
  case (2 cl tk tks s)
  then show ?case by (cases ys) (auto split: option.splits)
qed simp

subsection \<open>Batches that meet no obstacle\<close>

text \<open>The connection takes every write, and a batch never takes as long as the send period.\<close>

definition quick :: "config \<Rightarrow> batch_io \<Rightarrow> bool" where
  "quick c io \<longleftrightarrow> (\<forall>i. write_result io i = None \<and> batch_elapsed io i < seconds_duration (SendPeriod c))"

definition always_generates :: "'w client \<Rightarrow> bool" where
  "always_generates cl \<longleftrightarrow> (\<forall>w. \<exists>tx w'. GenerateTx cl w = Some (Inr tx, w'))"

lemma batch_loop_quick:
  assumes "always_generates cl" and "quick c io"
  shows "\<exists>r. batch_loop cl m (seconds_duration (SendPeriod c)) io toSend sent sb w fs = Some r \<and>
    batch_err r = None \<and> batch_sent r = max sent toSend"
proof (induction "nat (toSend - sent)" arbitrary: sent sb w fs)
  case 0
  then show ?case by (simp add: batch_loop.simps [of cl m _ io toSend sent])
next
  case (Suc k)
  obtain tx w' where g: "GenerateTx cl w = Some (Inr tx, w')"
    using assms(1) unfolding always_generates_def by blast
  have "write_result io (nat sent) = None" "\<not> seconds_duration (SendPeriod c) \<le> batch_elapsed io (nat sent)"
    using assms(2) by (auto simp: quick_def not_le)
  moreover have "sent < toSend" using Suc.hyps(2) by linarith
  ultimately have eq: "batch_loop cl m (seconds_duration (SendPeriod c)) io toSend sent sb w fs =
      batch_loop cl m (seconds_duration (SendPeriod c)) io toSend (sent + 1) (i64 (sb + int (length tx))) w'
        (fs @ [tx_frame m tx])"
    using g by (subst batch_loop.simps) (simp add: Let_def)
  have "k = nat (toSend - (sent + 1))" using Suc.hyps(2) by linarith
  from Suc.hyps(1) [OF this] Suc.hyps(2) show ?case unfolding eq by (fastforce simp: max_def)
qed

lemma sendTransactions_quick:
  assumes "always_generates cl" and "quick (t_config t) io"
  shows "\<exists>w' t'. sendTransactions cl io w t = Some (None, w', t') \<and> t_config t' = t_config t \<and>
    stop t' = stop t \<and> stopErr t' = stopErr t \<and> txCount t' = i64 (txCount t + max 0 (batch_limit t))"
proof -
  obtain r where "batch_loop cl (broadcastTxMethod t) (seconds_duration (SendPeriod (t_config t))) io
      (batch_limit t) 0 0 w (frames (if txCount t = 0 then trackStartTime (batch_now io) t else t)) = Some r"
    "batch_err r = None" "batch_sent r = max 0 (batch_limit t)"
    using batch_loop_quick [OF assms] by blast
  then show ?thesis by (simp add: sendTransactions_def Let_def)
qed

subsection \<open>The number of passes\<close>

lemma pass_below_limit:
  assumes "always_generates cl" and "quick c io" and "limited c" and "t_config (tr s) = c"
    and "\<not> stop (tr s)" and "0 \<le> txCount (tr s)" and "txCount (tr s) < Count c"
  shows "\<exists>s'. loop_pass cl (SendTick io) s = Some s' \<and> pc s' = LoopTop \<and> t_config (tr s') = c \<and>
    \<not> stop (tr s') \<and> stopErr (tr s') = stopErr (tr s) \<and>
    txCount (tr s') = min (txCount (tr s) + Rate c) (Count c)"
proof -
  have c: "count_check (tr s) = tr s" using assms(4,7) by (simp add: count_check_def)
  have l: "batch_limit (tr s) = min (Rate c) (Count c - txCount (tr s))"
    using assms(3,4,6,7) batch_limit_limited [of "tr s"] by simp
  have "in_i64 (txCount (tr s) + max 0 (batch_limit (tr s)))"
    using assms(3,6,7) l by (auto simp: limited_def in_i64_def)
  with sendTransactions_quick [OF assms(1), of "tr s" io "world s"] assms l show ?thesis
    by (auto simp: loop_pass_def c mustStop_def i64_id limited_def)
qed

lemma pass_at_limit:
  assumes "always_generates cl" and "quick c io" and "limited c" and "t_config (tr s) = c"
    and "txCount (tr s) = Count c"
  shows "\<exists>s'. loop_pass cl (SendTick io) s = Some s' \<and> pc s' = Returned \<and>
    stopErr (tr s') = stopErr (tr s) \<and> txCount (tr s') = Count c"
proof -
  let ?t = "count_check (tr s)"
  have t: "?t = (tr s)\<lparr>stop := True\<rparr>" using assms(3-5) by (simp add: count_check_def setStop_def limited_def)
  have l: "batch_limit ?t = min (Rate c) 0"
    using assms(3-5) batch_limit_limited [of ?t] by (simp add: t limited_def)
  have "in_i64 (Count c)" using assms(3) by (auto simp: limited_def in_i64_def)
  with sendTransactions_quick [OF assms(1), of ?t io "world s"] assms l show ?thesis
    by (auto simp: loop_pass_def t mustStop_def i64_id limited_def t_close_def)
qed

lemma passes_below_limit:
  assumes "always_generates cl" and "list_all (quick c) ios" and "limited c" and "1 \<le> Rate c"
    and "t_config (tr s) = c" and "\<not> stop (tr s)" and "0 \<le> txCount (tr s)" and "pc s = LoopTop"
    and "ios \<noteq> [] \<longrightarrow> txCount (tr s) + (int (length ios) - 1) * Rate c < Count c"
    and "txCount (tr s) \<le> Count c"
  shows "\<exists>s'. send_passes cl (map SendTick ios) s = Some s' \<and> pc s' = LoopTop \<and> t_config (tr s') = c \<and>
    \<not> stop (tr s') \<and> stopErr (tr s') = stopErr (tr s) \<and>
    txCount (tr s') = min (txCount (tr s) + int (length ios) * Rate c) (Count c)"
  using assms(2,5-10)
proof (induction ios arbitrary: s)
  case Nil
  then show ?case by simp
next
  case (Cons io ios)
  have "0 \<le> int (length ios) * Rate c" using assms(4) by simp
  with Cons.prems(6) have "txCount (tr s) < Count c" by simp
  moreover have "quick c io" using Cons.prems(1) by simp
  ultimately obtain s1 where
    s1: "loop_pass cl (SendTick io) s = Some s1" "pc s1 = LoopTop" "t_config (tr s1) = c" "\<not> stop (tr s1)"
      "stopErr (tr s1) = stopErr (tr s)" "txCount (tr s1) = min (txCount (tr s) + Rate c) (Count c)"
    using pass_below_limit [OF assms(1) _ assms(3) Cons.prems(2,3,4), of io] by blast
  have eq: "int (length (io # ios)) * Rate c = Rate c + int (length ios) * Rate c"
    by (simp add: distrib_right)
  have more: "txCount (tr s1) + (int (length ios) - 1) * Rate c < Count c \<and>
      txCount (tr s1) = txCount (tr s) + Rate c" if ne: "ios \<noteq> []"
  proof -
    obtain j where "length ios = Suc j" using ne by (cases ios) auto
    then have "0 \<le> (int (length ios) - 1) * Rate c" using assms(4) by simp
    with Cons.prems(6) s1(6) show ?thesis by (auto simp: min_def algebra_simps)
  qed
  have "\<exists>s'. send_passes cl (map SendTick ios) s1 = Some s' \<and> pc s' = LoopTop \<and> t_config (tr s') = c \<and>
      \<not> stop (tr s') \<and> stopErr (tr s') = stopErr (tr s1) \<and>
      txCount (tr s') = min (txCount (tr s1) + int (length ios) * Rate c) (Count c)"
    using Cons.prems(1,4,7) s1 more assms(4) by (intro Cons.IH) auto
  with s1 more Cons.prems(5) show ?case
    unfolding eq by (cases "ios = []") (auto simp: add.assoc)
qed



end
