(* ===== verification/Whole_Links.thy ===== *)
theory Whole_Links
  imports Coord_System Worker_Client Simple_Socket
begin

section \<open>A coordinator and its workers, joined by their connections\<close>

text \<open>
  The whole of a distributed load test: the coordinator process of Coord_System, the worker
  processes of Worker_Client, and a connection from each worker that dialled to the remote worker
  that serves it.  A message written on one side is read on the other, encoded and decoded, in
  order; a read can fail at any time, a write that failed may have been sent or not.
\<close>

subsection \<open>Messages on the wire\<close>

text \<open>A message written on one side of a connection, as the other side reads it.\<close>

definition on_wire :: "workerMsg \<Rightarrow> go_error + workerMsg" where
  "on_wire m = ReadWorkerMsg (Inr (TextMessage, WriteWorkerMsg_data m))"

lemma on_wire_same:
  "in_i64 (W_TxCount m) \<Longrightarrow> in_i64 (W_TotalTxBytes m) \<Longrightarrow> pred_option config_ints (W_Config m) \<Longrightarrow>
   on_wire m = Inr m"
  by (simp add: on_wire_def ReadWorkerMsg_def WriteWorkerMsg_data_def workerMsg_roundtrip)

lemma zero_ints [simp]: "in_i64 0" by (simp add: in_i64_def)

definition plain_msg :: "workerMsg \<Rightarrow> bool" where
  "plain_msg m \<longleftrightarrow> in_i64 (W_TxCount m) \<and> in_i64 (W_TotalTxBytes m) \<and> W_Config m = None"

lemma on_wire_plain: "plain_msg m \<Longrightarrow> on_wire m = Inr m"
  by (simp add: plain_msg_def on_wire_same)

subsection \<open>The messages of a worker\<close>

text \<open>
  A worker says that it completed only at its end, after its group has ended without error, with
  the totals of the group.
\<close>

definition completion :: "'w worker \<Rightarrow> workerMsg \<Rightarrow> bool" where
  "completion w m \<longleftrightarrow> (\<exists>e. k_pc w = W_Ended e) \<and>
     (\<exists>r. k_run w = Some r \<and> ended_well (length (k_clients w)) r \<and>
        m = results_msg workerCompleted w (totalTxs (grp r)) (totalBytes (grp r)))"

definition said_well :: "'w worker \<Rightarrow> workerMsg \<Rightarrow> bool" where
  "said_well w m \<longleftrightarrow> plain_msg m \<and> (W_State m = workerCompleted \<longrightarrow> completion w m)"

lemma said_well_simps [simp]:
  "said_well w (zero_msg\<lparr>W_ID := x\<rparr>)"
  "said_well w (zero_msg\<lparr>W_ID := x, W_State := workerFailed, W_Error := e\<rparr>)"
  by (simp_all add: said_well_def plain_msg_def zero_msg_def worker_states)

lemma in_i64_go_sum [simp]: "in_i64 (go_sum xs)"
  by (simp add: go_sum_eq)

lemma said_well_results:
  "plain_msg (results_msg st w (totalTxs g) (totalBytes g))"
  "said_well w' (results_msg workerTesting w (totalTxs g) (totalBytes g))"
  by (simp_all add: said_well_def plain_msg_def results_msg_def zero_msg_def totalTxs_def totalBytes_def
      worker_states)

lemma results_msg_cong: "k_id w' = k_id w \<Longrightarrow> results_msg st w' = results_msg st w"
  by (simp add: results_msg_def fun_eq_iff)

lemma fail_end_says:
  "k_said (fail_end err res w) = k_said w @ [(zero_msg\<lparr>W_ID := k_id w, W_State := workerFailed, W_Error := err\<rparr>, res)]"
  "k_id (fail_end err res w) = k_id w"
  by (simp_all add: fail_end_def w_fail_def)

lemma worker_step_says:
  assumes "worker_step reg env w w'" and "worker_ok w"
  shows "\<exists>news. k_said w' = k_said w @ news \<and> k_id w' = k_id w \<and> list_all (\<lambda>m. said_well w' (fst m)) news"
  using assms(1)
proof (cases rule: worker_step.cases)
  case (connect ev)
  then show ?thesis by (simp add: w_connect_def split: connect_event.split)
next
  case (register res)
  then show ?thesis by (simp add: w_register_def)
next
  case (registered r res)
  then show ?thesis
    by (auto simp: w_registered_def fail_end_says split: sum.split option.split)
next
  case (poll r res)
  then show ?thesis by (auto simp: w_poll_def fail_end_says split: sum.split)
next
  case (add x res)
  then show ?thesis by (auto simp: w_add_def fail_end_says split: option.split)
next
  case (progress r r' nb res)
  from progress(4,5) have "nb = (totalTxs (grp r), totalBytes (grp r))"
    by (cases rule: group_step.cases) (auto simp: g_reportProgress_def split: if_splits)
  with progress show ?thesis
    by (auto simp: w_reportProgress_def Let_def said_well_results split: option.split)
next
  case (waited r res)
  then show ?thesis
    by (auto simp: w_waited_def fail_end_says removeInterrupt_def split: option.split)
next
  case (report r res res')
  let ?m = "results_msg workerCompleted w (totalTxs (grp r)) (totalBytes (grp r))"
  have "ended_well (length (k_clients w)) r"
    using report assms(2) by (simp add: worker_ok_def)
  with report have "k_id w' = k_id w" "(\<exists>e. k_pc w' = W_Ended e)" "k_run w' = Some r"
    "ended_well (length (k_clients w')) r"
    by (auto simp: w_reportFinalResults_def removeInterrupt_def fail_end_def w_fail_def Let_def
        split: option.split)
  moreover from this(1) have "results_msg workerCompleted w' = results_msg workerCompleted w"
    by (rule results_msg_cong)
  ultimately have "said_well w' ?m"
    using said_well_results(1) by (simp add: said_well_def completion_def)
  with report show ?thesis
    by (auto simp: w_reportFinalResults_def removeInterrupt_def fail_end_says Let_def split: option.split)
next
  case trap
  then show ?thesis by (simp add: triggerInterrupts_def)
qed (simp_all add: w_start_def setInterrupt_def)

text \<open>A worker that has ended does nothing more.\<close>

lemma worker_step_ended:
  assumes "worker_step reg env w w'" and "k_pc w = W_Ended e"
  shows "w' = w\<lparr>k_stop := True\<rparr>"
  using assms by (cases rule: worker_step.cases) (simp_all add: running_def)

definition worker_fine :: "'w worker \<Rightarrow> bool" where
  "worker_fine w \<longleftrightarrow> worker_ok w \<and> list_all (\<lambda>m. said_well w (fst m)) (k_said w)"

lemma worker_step_fine:
  assumes "worker_step reg env w w'" and "worker_fine w"
  shows "worker_fine w'"
proof -
  obtain news where n: "k_said w' = k_said w @ news" "list_all (\<lambda>m. said_well w' (fst m)) news"
    using worker_step_says [OF assms(1)] assms(2) by (auto simp: worker_fine_def)
  have "list_all (\<lambda>m. said_well w' (fst m)) (k_said w)"
  proof (cases "\<exists>e. k_pc w = W_Ended e")
    case True
    then have "w' = w\<lparr>k_stop := True\<rparr>" using worker_step_ended [OF assms(1)] by blast
    then have "said_well w' m = said_well w m" for m
      by (simp add: said_well_def completion_def results_msg_def)
    with assms(2) show ?thesis by (simp add: worker_fine_def)
  next
    case False
    then have "said_well w m \<Longrightarrow> said_well w' m" for m by (simp add: said_well_def completion_def)
    with assms(2) show ?thesis by (auto simp: worker_fine_def list_all_iff)
  qed
  with n assms worker_step_ok show ?thesis by (auto simp: worker_fine_def)
qed

lemma NewWorker_fine: "NewWorker ucd uuid wcfg = Inr w \<Longrightarrow> worker_fine w"
  using NewWorker_ok [of ucd uuid wcfg w]
  by (auto simp: worker_fine_def NewWorker_def Let_def split: if_splits)


subsection \<open>Connections\<close>

text \<open>
  A connection joins a worker to the remote worker of the same position: what the worker sent and
  the other end has not read yet, what that end has read, and how many of the remote worker's
  messages the worker has read.
\<close>

record link =
  l_worker :: nat
  to_coord :: "workerMsg list"
  got :: "workerMsg list"
  read_out :: nat

record 'w whole =
  sys :: system
  links :: "link list"
  wks :: "'w worker list"

definition whole_start :: "config \<Rightarrow> coordinator_config \<Rightarrow> 'w worker list \<Rightarrow> 'w whole" where
  "whole_start cfg ccfg ws = \<lparr>sys = system_start cfg ccfg, links = [], wks = ws\<rparr>"

text \<open>What a read at either end can give, and the connection after it.\<close>

definition worker_reads :: "remote_worker \<Rightarrow> link \<Rightarrow> go_error + workerMsg \<Rightarrow> link \<Rightarrow> bool" where
  "worker_reads rw l r l' \<longleftrightarrow> (\<exists>err. r = Inl err) \<and> l' = l \<or>
     read_out l < length (rw_out rw) \<and> r = on_wire (rw_out rw ! read_out l) \<and>
     l' = l\<lparr>read_out := Suc (read_out l)\<rparr>"

definition coord_reads :: "link \<Rightarrow> go_error + workerMsg \<Rightarrow> link \<Rightarrow> bool" where
  "coord_reads l r l' \<longleftrightarrow> (\<exists>err. r = Inl err) \<and> l' = l \<or>
     (\<exists>m rest. to_coord l = m # rest \<and> r = on_wire m \<and> l' = l\<lparr>to_coord := rest, got := got l @ [m]\<rparr>)"

text \<open>What is sent of the messages newly said: those whose write succeeded, and maybe others.\<close>

definition sent_of :: "(workerMsg \<times> go_error option) list \<Rightarrow> workerMsg list \<Rightarrow> bool" where
  "sent_of news qs \<longleftrightarrow> subseq qs (map fst news) \<and> subseq (map fst (filter (\<lambda>m. snd m = None) news)) qs"

definition says :: "nat \<Rightarrow> workerMsg list \<Rightarrow> link list \<Rightarrow> link list" where
  "says i qs = map (\<lambda>l. if l_worker l = i then l\<lparr>to_coord := to_coord l @ qs\<rparr> else l)"

text \<open>The worker \<open>i\<close> becomes \<open>w'\<close> and sends \<open>qs\<close>.\<close>

definition moves :: "nat \<Rightarrow> 'w worker \<Rightarrow> workerMsg list \<Rightarrow> 'w whole \<Rightarrow> 'w whole" where
  "moves i w' qs s = s\<lparr>wks := (wks s)[i := w'], links := says i qs (links s)\<rparr>"

abbreviation no_read :: "nat \<Rightarrow> go_error + workerMsg \<Rightarrow> bool" where
  "no_read k r \<equiv> False"

text \<open>
  The steps of the whole.  A worker that is not reading steps on its own, and so does the
  coordinator process; each read is of the connection.
\<close>

inductive whole_step :: "'w registry \<Rightarrow> (nat \<Rightarrow> group_env) \<Rightarrow> 'w whole \<Rightarrow> 'w whole \<Rightarrow> bool" for reg env where
  dial: "i < length (wks s) \<Longrightarrow> k_pc (wks s ! i) = W_Connecting \<Longrightarrow>
    whole_step reg env s (s\<lparr>sys := (sys s)\<lparr>rws := rws (sys s) @ [newRemoteWorker]\<rparr>,
      links := links s @ [\<lparr>l_worker = i, to_coord = [], got = [], read_out = 0\<rparr>],
      wks := (wks s)[i := w_connect Dialled (wks s ! i)]\<rparr>)"
| dial_fails: "i < length (wks s) \<Longrightarrow> k_pc (wks s ! i) = W_Connecting \<Longrightarrow> ev \<noteq> Dialled \<Longrightarrow>
    (ev = ConnectStopped \<longrightarrow> k_stop (wks s ! i)) \<Longrightarrow>
    whole_step reg env s (s\<lparr>wks := (wks s)[i := w_connect ev (wks s ! i)]\<rparr>)"
| worker: "i < length (wks s) \<Longrightarrow> worker_step reg (env i) (wks s ! i) w' \<Longrightarrow>
    k_pc (wks s ! i) \<notin> {W_Connecting, W_AwaitingReply, W_WaitingStart} \<Longrightarrow>
    sent_of (drop (length (k_said (wks s ! i))) (k_said w')) qs \<Longrightarrow>
    whole_step reg env s (moves i w' qs s)"
| trap: "i < length (wks s) \<Longrightarrow> running (k_pc (wks s ! i)) \<Longrightarrow> \<not> k_interrupted (wks s ! i) \<Longrightarrow>
    whole_step reg env s (s\<lparr>wks := (wks s)[i := triggerInterrupts (wks s ! i)]\<rparr>)"
| trapped: "i < length (wks s) \<Longrightarrow> k_interrupted (wks s ! i) \<Longrightarrow> \<not> k_stop (wks s ! i) \<Longrightarrow>
    whole_step reg env s (s\<lparr>wks := (wks s)[i := (wks s ! i)\<lparr>k_stop := True\<rparr>]\<rparr>)"
| reply: "k < length (links s) \<Longrightarrow> i = l_worker (links s ! k) \<Longrightarrow> k_pc (wks s ! i) = W_AwaitingReply \<Longrightarrow>
    worker_reads (rws (sys s) ! k) (links s ! k) r l \<Longrightarrow> w' = w_registered reg r res (wks s ! i) \<Longrightarrow>
    sent_of (drop (length (k_said (wks s ! i))) (k_said w')) qs \<Longrightarrow>
    whole_step reg env s (moves i w' qs (s\<lparr>links := (links s)[k := l]\<rparr>))"
| poll: "k < length (links s) \<Longrightarrow> i = l_worker (links s ! k) \<Longrightarrow> k_pc (wks s ! i) = W_WaitingStart \<Longrightarrow>
    worker_reads (rws (sys s) ! k) (links s ! k) r l \<Longrightarrow> w' = w_poll r res (wks s ! i) \<Longrightarrow>
    sent_of (drop (length (k_said (wks s ! i))) (k_said w')) qs \<Longrightarrow>
    whole_step reg env s (moves i w' qs (s\<lparr>links := (links s)[k := l]\<rparr>))"
| coordinator: "sys_step no_read (sys s) t \<Longrightarrow> length (rws t) = length (rws (sys s)) \<Longrightarrow>
    whole_step reg env s (s\<lparr>sys := t\<rparr>)"
| read_id: "k < length (links s) \<Longrightarrow> rw_pc (rws (sys s) ! k) = ReadingID \<Longrightarrow>
    coord_reads (links s ! k) r l \<Longrightarrow>
    whole_step reg env s (s\<lparr>sys := set_rw k (rw_readID r res (rws (sys s) ! k)) (sys s),
      links := (links s)[k := l]\<rparr>)"
| read_update: "k < length (links s) \<Longrightarrow> rw_pc (rws (sys s) ! k) = Updating \<Longrightarrow>
    coord_reads (links s ! k) r l \<Longrightarrow>
    whole_step reg env s (s\<lparr>sys := set_rw k (rw_update r (rws (sys s) ! k)) (sys s),
      links := (links s)[k := l]\<rparr>)"

subsection \<open>Each part of the whole steps as it does alone\<close>

lemma moves_fields [simp]:
  "sys (moves i w qs s) = sys s" "wks (moves i w qs s) = (wks s)[i := w]"
  "links (moves i w qs s) = says i qs (links s)"
  by (simp_all add: moves_def)

lemma says_fields [simp]:
  "length (says i qs ls) = length ls" "map l_worker (says i qs ls) = map l_worker ls"
  by (simp_all add: says_def)

lemma whole_step_sys:
  assumes "whole_step reg env s t" and "length (links s) = length (rws (sys s))"
  shows "sys t = sys s \<or> sys_step any_read (sys s) (sys t)"
  using assms(1)
proof (cases rule: whole_step.cases)
  case (dial i)
  then show ?thesis using sys_step.connect by simp
next
  case (coordinator t')
  then have "sys_step any_read (sys s) t'" by (auto elim: sys_step_mono)
  with coordinator show ?thesis by simp
next
  case (read_id k r l res)
  then have "sys_step any_read (sys s) (set_rw k (rw_readID r res (rws (sys s) ! k)) (sys s))"
    using assms(2) by (intro sys_step.local rw_local.read_id) simp_all
  with read_id show ?thesis by simp
next
  case (read_update k r l)
  then have "sys_step any_read (sys s) (set_rw k (rw_update r (rws (sys s) ! k)) (sys s))"
    using assms(2) by (intro sys_step.local rw_local.update) simp_all
  with read_update show ?thesis by simp
qed simp_all

lemma whole_step_worker:
  assumes "whole_step reg env s t" and "i < length (wks s)"
  shows "wks t ! i = wks s ! i \<or> worker_step reg (env i) (wks s ! i) (wks t ! i)"
  using assms(1)
proof (cases rule: whole_step.cases)
  case (dial j)
  then show ?thesis using worker_step.connect [of "wks s ! j" Dialled] by (cases "i = j") simp_all
next
  case (dial_fails j ev)
  then show ?thesis using worker_step.connect [of "wks s ! j" ev] by (cases "i = j") simp_all
next
  case (worker j w' qs)
  then show ?thesis by (cases "i = j") simp_all
next
  case (trap j)
  then show ?thesis using worker_step.trap [of "wks s ! j"] by (cases "i = j") simp_all
next
  case (trapped j)
  then show ?thesis using worker_step.stopped [of "wks s ! j"] by (cases "i = j") simp_all
next
  case (reply k j r l w' res qs)
  then show ?thesis using worker_step.registered [of "wks s ! j"] assms(2) by (cases "i = j") simp_all
next
  case (poll k j r l w' res qs)
  then show ?thesis using worker_step.poll [of "wks s ! j"] assms(2) by (cases "i = j") simp_all
qed simp_all

lemma whole_step_length: "whole_step reg env s t \<Longrightarrow> length (wks t) = length (wks s)"
  by (erule whole_step.cases) simp_all


subsection \<open>Steps of the coordinator that read nothing\<close>

text \<open>
  What such a step does to a remote worker: its id stays, nothing new is to be forwarded, and only
  a remote worker that passed a completion on becomes done.
\<close>

definition calm :: "remote_worker \<Rightarrow> remote_worker \<Rightarrow> bool" where
  "calm rw rw' \<longleftrightarrow> rw_id rw' = rw_id rw \<and> (\<forall>m. rw_pc rw' = Forwarding m \<longrightarrow> rw_pc rw = Forwarding m) \<and>
     (pc_done (rw_pc rw') \<longrightarrow> pc_done (rw_pc rw) \<or>
        (\<exists>m. rw_pc rw = Forwarding m \<and> W_State m = workerCompleted))"

lemma calm_same [simp]: "rw_id rw' = rw_id rw \<Longrightarrow> rw_pc rw' = rw_pc rw \<Longrightarrow> calm rw rw'"
  by (simp add: calm_def)

lemma rw_local_calm: "rw_local (\<lambda>_. False) cfg rw rw' \<Longrightarrow> calm rw rw'"
  by (erule rw_local.cases) (auto simp: calm_def pc_done_def rw_registered_def rw_accept_def
      rw_start_ctrl_def rw_update_ctrl_def rw_stopped_def Let_def
      split: option.split prod.split if_splits)

definition all_calm :: "system \<Rightarrow> system \<Rightarrow> bool" where
  "all_calm s t \<longleftrightarrow> length (rws s) \<le> length (rws t) \<and> (\<forall>k < length (rws s). calm (rws s ! k) (rws t ! k))"

lemma rws_fields [simp]:
  "rws (s\<lparr>coord := c\<rparr>) = rws s" "rws (s\<lparr>completed := n\<rparr>) = rws s" "rws (s\<lparr>cpc := p\<rparr>) = rws s"
  by simp_all

interpretation calm_rel: remote_relation no_read calm
  by unfold_locales (auto simp: still_def rw_local_calm, auto simp: calm_def pc_done_def rw_forwarded_def)

lemma sys_step_calm: "sys_step no_read s t \<Longrightarrow> all_calm s t"
  using calm_rel.step [of s t] by (auto simp: all_calm_def)

subsection \<open>What a connection keeps\<close>

text \<open>
  What was read and what is still to be read was said by the worker, in that order; the remote
  worker goes by the worker's id, forwards what it read, and is done only after it read a
  completion.
\<close>

definition link_fine :: "link \<Rightarrow> 'w worker \<Rightarrow> remote_worker \<Rightarrow> bool" where
  "link_fine l w rw \<longleftrightarrow> subseq (got l @ to_coord l) (map fst (k_said w)) \<and> rw_id rw \<in> {[], k_id w} \<and>
     (\<forall>m. rw_pc rw = Forwarding m \<longrightarrow> m \<in> set (got l)) \<and>
     (pc_done (rw_pc rw) \<longrightarrow> (\<exists>m \<in> set (got l). W_State m = workerCompleted))"

lemma link_fine_calm: "link_fine l w rw \<Longrightarrow> calm rw rw' \<Longrightarrow> link_fine l w rw'"
  by (auto simp: link_fine_def calm_def)

lemma link_fine_new: "link_fine \<lparr>l_worker = i, to_coord = [], got = [], read_out = 0\<rparr> w newRemoteWorker"
  by (simp add: link_fine_def newRemoteWorker_def pc_done_def)

lemma link_fine_said:
  assumes "link_fine l w rw" and "k_said w' = k_said w @ news" and "k_id w' = k_id w" and "sent_of news qs"
  shows "link_fine (l\<lparr>to_coord := to_coord l @ qs\<rparr>) w' rw" and "link_fine l w' rw"
proof -
  have "subseq (got l @ to_coord l) (map fst (k_said w))" using assms(1) by (simp add: link_fine_def)
  moreover have "subseq qs (map fst news)" using assms(4) by (simp add: sent_of_def)
  ultimately have "subseq ((got l @ to_coord l) @ qs) (map fst (k_said w) @ map fst news)"
    by (rule list_emb_append_mono)
  with assms show "link_fine (l\<lparr>to_coord := to_coord l @ qs\<rparr>) w' rw"
    by (simp add: link_fine_def)
  from assms show "link_fine l w' rw"
    using list_emb_append2 [of "(=)" "got l @ to_coord l"]
    by (auto simp: link_fine_def intro: subseq_rev_drop_many)
qed

text \<open>Reading from the connection.\<close>

lemma subseq_in: "subseq xs ys \<Longrightarrow> x \<in> set xs \<Longrightarrow> x \<in> set ys"
  by (auto elim: list_emb_set)

lemma link_heard:
  assumes "link_fine l w rw" and "worker_fine w" and "coord_reads l r l'"
  shows "subseq (got l' @ to_coord l') (map fst (k_said w))"
    and "r = Inr m \<Longrightarrow> m \<in> set (got l') \<and> W_ID m = k_id w"
    and "set (got l) \<subseteq> set (got l')"
proof -
  have sub: "subseq (got l @ to_coord l) (map fst (k_said w))" using assms(1) by (simp add: link_fine_def)
  with assms(3) show "subseq (got l' @ to_coord l') (map fst (k_said w))" "set (got l) \<subseteq> set (got l')"
    by (auto simp: coord_reads_def)
  assume r: "r = Inr m"
  with assms(3) obtain m0 rest where m0: "to_coord l = m0 # rest" "Inr m = on_wire m0" "got l' = got l @ [m0]"
    by (auto simp: coord_reads_def)
  then have "m0 \<in> fst ` set (k_said w)" using sub by (force dest: subseq_in)
  with assms(2) have "said_well w m0" "W_ID m0 = k_id w"
    by (auto simp: worker_fine_def worker_ok_def list_all_iff)
  moreover from this(1) have "on_wire m0 = Inr m0" by (simp add: said_well_def on_wire_plain)
  ultimately show "m \<in> set (got l') \<and> W_ID m = k_id w" using m0 by simp
qed

lemma link_fine_read_id:
  assumes "link_fine l w rw" and "worker_fine w" and "coord_reads l r l'" and "rw_pc rw = ReadingID"
  shows "link_fine l' w (rw_readID r res rw)"
  using link_heard [OF assms(1-3)] assms(1,4)
  by (cases r) (auto simp: link_fine_def rw_readID_def pc_done_def)

lemma link_fine_read_update:
  assumes "link_fine l w rw" and "worker_fine w" and "coord_reads l r l'" and "rw_pc rw = Updating"
  shows "link_fine l' w (rw_update r rw)"
  using link_heard [OF assms(1-3)] assms(1,4)
  by (cases r) (auto simp: link_fine_def rw_update_def pc_done_def)


subsection \<open>The invariant of the whole\<close>

definition whole_ok :: "'w whole \<Rightarrow> bool" where
  "whole_ok s \<longleftrightarrow> length (links s) = length (rws (sys s)) \<and> distinct (map l_worker (links s)) \<and>
     list_all worker_fine (wks s) \<and>
     (\<forall>l \<in> set (links s). l_worker l < length (wks s) \<and> k_pc (wks s ! l_worker l) \<noteq> W_Connecting) \<and>
     (\<forall>k < length (links s).
        link_fine (links s ! k) (wks s ! l_worker (links s ! k)) (rws (sys s) ! k))"

lemma worker_step_dialled: "worker_step reg env w w' \<Longrightarrow> k_pc w' = W_Connecting \<Longrightarrow> k_pc w = W_Connecting"
  by (erule worker_step.cases)
    (auto simp: w_register_def w_registered_def w_poll_def w_add_def w_start_def w_reportProgress_def
      w_waited_def w_reportFinalResults_def fail_end_def triggerInterrupts_def Let_def
      split: option.splits sum.splits if_splits prod.splits)

lemma says_nothing [simp]: "says i [] ls = ls"
  by (induction ls) (simp_all add: says_def)

lemma nth_says: "k < length ls \<Longrightarrow> says i qs ls ! k =
    (if l_worker (ls ! k) = i then (ls ! k)\<lparr>to_coord := to_coord (ls ! k) @ qs\<rparr> else ls ! k)"
  by (simp add: says_def)

lemma in_says: "l \<in> set (says i qs ls) \<Longrightarrow> \<exists>l' \<in> set ls. l_worker l' = l_worker l"
  by (auto simp: says_def split: if_splits)

lemma whole_ok_moves:
  assumes "whole_ok s" and "i < length (wks s)" and step: "worker_step reg env (wks s ! i) w'"
    and sent: "sent_of (drop (length (k_said (wks s ! i))) (k_said w')) qs"
  shows "whole_ok (moves i w' qs s)"
proof -
  let ?w = "wks s ! i"
  have fine: "worker_fine ?w" using assms(1,2) by (simp add: whole_ok_def list_all_length)
  then obtain news where n: "k_said w' = k_said ?w @ news" "k_id w' = k_id ?w"
    using worker_step_says [OF step] by (auto simp: worker_fine_def)
  with sent have s: "sent_of news qs" by simp
  have "link_fine (says i qs (links s) ! k) ((wks s)[i := w'] ! l_worker (links s ! k)) (rws (sys s) ! k)"
    if k: "k < length (links s)" for k
  proof -
    have "link_fine (links s ! k) (wks s ! l_worker (links s ! k)) (rws (sys s) ! k)"
      using assms(1) k by (simp add: whole_ok_def)
    with link_fine_said(1) [OF _ n s, of "links s ! k"] assms(2) k show ?thesis
      by (auto simp: nth_says)
  qed
  moreover have "list_all worker_fine ((wks s)[i := w'])"
    using assms(1) worker_step_fine [OF step fine]
    by (auto simp: whole_ok_def list_all_iff dest!: subsetD [OF set_update_subset_insert])
  moreover have "l_worker l < length (wks s) \<and> k_pc ((wks s)[i := w'] ! l_worker l) \<noteq> W_Connecting"
    if "l \<in> set (says i qs (links s))" for l
  proof -
    from in_says [OF that] obtain l' where "l' \<in> set (links s)" "l_worker l' = l_worker l" by blast
    with assms(1) have "l_worker l < length (wks s)" "k_pc (wks s ! l_worker l) \<noteq> W_Connecting"
      by (auto simp: whole_ok_def)
    with worker_step_dialled [OF step] show ?thesis by (cases "l_worker l = i") auto
  qed
  ultimately show ?thesis
    using assms(1) by (simp add: whole_ok_def nth_says if_distrib [of l_worker] cong: if_cong)
qed

lemma whole_ok_silent:
  assumes "whole_ok s" and "i < length (wks s)" and "worker_step reg env (wks s ! i) w'"
    and "k_said w' = k_said (wks s ! i)"
  shows "whole_ok (s\<lparr>wks := (wks s)[i := w']\<rparr>)"
proof -
  have "whole_ok (moves i w' [] s)"
    by (rule whole_ok_moves [OF assms(1-3)]) (simp add: assms(4) sent_of_def)
  then show ?thesis by (simp add: moves_def)
qed

text \<open>Reading at the worker's end leaves what the invariant says of the connection.\<close>

lemma whole_ok_link:
  assumes "whole_ok s" and "k < length (links s)" and "l_worker l = l_worker (links s ! k)"
    and "link_fine l (wks s ! l_worker l) rw"
  shows "whole_ok (s\<lparr>sys := set_rw k rw (sys s), links := (links s)[k := l]\<rparr>)"
proof -
  have "map l_worker ((links s)[k := l]) = map l_worker (links s)"
    using assms(2,3) by (simp add: map_update list_update_same_conv)
  moreover have "\<exists>l' \<in> set (links s). l_worker l' = l_worker x" if "x \<in> set ((links s)[k := l])" for x
    using subsetD [OF set_update_subset_insert that] assms(2,3) nth_mem [OF assms(2)] by auto
  moreover have "link_fine ((links s)[k := l] ! j) (wks s ! l_worker ((links s)[k := l] ! j))
      ((rws (sys s))[k := rw] ! j)" if "j < length (links s)" for j
    using assms that by (cases "j = k") (simp_all add: whole_ok_def)
  ultimately show ?thesis using assms(1) by (fastforce simp: whole_ok_def)
qed

lemma worker_reads_link:
  assumes "worker_reads rw l r l'"
  shows "l_worker l' = l_worker l" and "link_fine l w rw' \<Longrightarrow> link_fine l' w rw'"
  using assms by (auto simp: worker_reads_def link_fine_def)

lemma coord_reads_link: "coord_reads l r l' \<Longrightarrow> l_worker l' = l_worker l"
  by (auto simp: coord_reads_def)

lemma whole_ok_read_out:
  assumes "whole_ok s" and "k < length (links s)" and "worker_reads (rws (sys s) ! k) (links s ! k) r l"
  shows "whole_ok (s\<lparr>links := (links s)[k := l]\<rparr>)"
proof -
  have "link_fine (links s ! k) (wks s ! l_worker (links s ! k)) (rws (sys s) ! k)"
    using assms by (simp add: whole_ok_def)
  with worker_reads_link [OF assms(3)] have "whole_ok (s\<lparr>sys := set_rw k (rws (sys s) ! k) (sys s), links := (links s)[k := l]\<rparr>)"
    by (intro whole_ok_link assms(1,2)) simp_all
  moreover have "set_rw k (rws (sys s) ! k) (sys s) = sys s"
    by (simp add: set_rw_def)
  ultimately show ?thesis by simp
qed

lemma whole_step_ok:
  assumes "whole_step reg env s t" and "whole_ok s"
  shows "whole_ok t"
  using assms(1)
proof (cases rule: whole_step.cases)
  case (dial i)
  let ?w = "w_connect Dialled (wks s ! i)"
  have "worker_step reg env' (wks s ! i) ?w" for env'
    by (rule worker_step.connect) (simp_all add: dial)
  then have "whole_ok (s\<lparr>wks := (wks s)[i := ?w]\<rparr>)"
    by (rule whole_ok_silent [OF assms(2) dial(2)]) (simp add: w_connect_def)
  moreover have "i \<notin> l_worker ` set (links s)" using assms(2) dial(3) by (auto simp: whole_ok_def)
  moreover have "k_pc ?w \<noteq> W_Connecting" by (simp add: w_connect_def)
  ultimately show ?thesis
    using dial(2) link_fine_new
    by (auto simp: dial(1) whole_ok_def nth_append less_Suc_eq)
next
  case (dial_fails i ev)
  then have "worker_step reg env' (wks s ! i) (w_connect ev (wks s ! i))" for env'
    by (intro worker_step.connect)
  then show ?thesis unfolding dial_fails(1)
    by (rule whole_ok_silent [OF assms(2) dial_fails(2)]) (simp add: w_connect_def split: connect_event.split)
next
  case (worker i w' qs)
  then show ?thesis using whole_ok_moves [OF assms(2)] by simp
next
  case (trap i)
  have "worker_step reg env' (wks s ! i) (triggerInterrupts (wks s ! i))" for env'
    using trap by (intro worker_step.trap)
  then show ?thesis unfolding trap(1)
    by (rule whole_ok_silent [OF assms(2) trap(2)]) (simp add: triggerInterrupts_def)
next
  case (trapped i)
  have "worker_step reg env' (wks s ! i) ((wks s ! i)\<lparr>k_stop := True\<rparr>)" for env'
    using trapped by (intro worker_step.stopped)
  then show ?thesis unfolding trapped(1)
    by (rule whole_ok_silent [OF assms(2) trapped(2)]) simp
next
  case (reply k i r l w' res qs)
  have "i < length (wks s)" using assms(2) reply(2,3) by (auto simp: whole_ok_def)
  moreover have "worker_step reg (env i) (wks s ! i) w'"
    unfolding reply(6) by (rule worker_step.registered) (rule reply(4))
  ultimately show ?thesis
    unfolding reply(1) using whole_ok_read_out [OF assms(2) reply(2,5)] reply(7)
    by (intro whole_ok_moves) simp_all
next
  case (poll k i r l w' res qs)
  have "i < length (wks s)" using assms(2) poll(2,3) by (auto simp: whole_ok_def)
  moreover have "worker_step reg (env i) (wks s ! i) w'"
    unfolding poll(6) by (rule worker_step.poll) (rule poll(4))
  ultimately show ?thesis
    unfolding poll(1) using whole_ok_read_out [OF assms(2) poll(2,5)] poll(7)
    by (intro whole_ok_moves) simp_all
next
  case (coordinator t')
  have "link_fine (links s ! k) (wks s ! l_worker (links s ! k)) (rws t' ! k)" if k: "k < length (links s)" for k
  proof (rule link_fine_calm)
    show "link_fine (links s ! k) (wks s ! l_worker (links s ! k)) (rws (sys s) ! k)"
      using assms(2) k by (simp add: whole_ok_def)
    have "k < length (rws (sys s))" using assms(2) k by (simp add: whole_ok_def)
    then show "calm (rws (sys s) ! k) (rws t' ! k)"
      using sys_step_calm [OF coordinator(2)] by (simp add: all_calm_def)
  qed
  with coordinator assms(2) show ?thesis by (simp add: whole_ok_def)
next
  case (read_id k r l res)
  let ?w = "wks s ! l_worker (links s ! k)"
  have "link_fine (links s ! k) ?w (rws (sys s) ! k)" "worker_fine ?w"
    using assms(2) read_id(2) by (auto simp: whole_ok_def list_all_length)
  then have "link_fine l ?w (rw_readID r res (rws (sys s) ! k))"
    using read_id by (intro link_fine_read_id)
  then show ?thesis
    unfolding read_id(1) using coord_reads_link [OF read_id(4)] by (intro whole_ok_link assms(2) read_id(2)) simp_all
next
  case (read_update k r l)
  let ?w = "wks s ! l_worker (links s ! k)"
  have "link_fine (links s ! k) ?w (rws (sys s) ! k)" "worker_fine ?w"
    using assms(2) read_update(2) by (auto simp: whole_ok_def list_all_length)
  then have "link_fine l ?w (rw_update r (rws (sys s) ! k))"
    using read_update by (intro link_fine_read_update)
  then show ?thesis
    unfolding read_update(1) using coord_reads_link [OF read_update(4)]
    by (intro whole_ok_link assms(2) read_update(2)) simp_all
qed

interpretation whole_inv: kept_by_relation "whole_step reg env" whole_ok for reg env
  by unfold_locales (rule whole_step_ok)

text \<open>New workers.\<close>

definition fresh_worker :: "'w worker \<Rightarrow> bool" where
  "fresh_worker w \<longleftrightarrow> (\<exists>ucd uuid wcfg. NewWorker ucd uuid wcfg = Inr w)"

lemma whole_start_ok: "list_all fresh_worker ws \<Longrightarrow> whole_ok (whole_start cfg ccfg ws)"
  by (auto simp: whole_ok_def whole_start_def system_start_def fresh_worker_def list_all_iff intro: NewWorker_fine)

end
