(* ===== verification/Whole_Run.thy ===== *)
theory Whole_Run
  imports Whole_Links Transactor_Limit
begin

section \<open>A run of a whole load test\<close>

text \<open>
  One coordinator, one worker and one transactor, from the start to the success of the coordinator,
  with every transaction of the limit sent: what shows that the theorems about the whole are not
  empty.
\<close>

subsection \<open>A worker that is past its start\<close>

definition busy :: "worker_pc \<Rightarrow> bool" where
  "busy p \<longleftrightarrow> p \<notin> {W_Connecting, W_Registering, W_AwaitingReply, W_WaitingStart}"

lemma worker_step_busy: "worker_step reg env w w' \<Longrightarrow> busy (k_pc w) \<Longrightarrow> busy (k_pc w')"
  by (erule worker_step.cases)
    (auto simp: busy_def w_add_def w_start_def w_reportProgress_def w_waited_def w_reportFinalResults_def
      fail_end_def triggerInterrupts_def Let_def split: option.splits prod.splits)

text \<open>It runs in the whole as it does alone, and all its messages are sent.\<close>

lemma whole_runs_worker:
  assumes "(worker_step reg (env 0))\<^sup>*\<^sup>* w w'" and "busy (k_pc w)" and "worker_fine w"
    and s: "wks s = [w]" "links s = [l]" "l_worker l = 0"
  shows "\<exists>news. k_said w' = k_said w @ news \<and> worker_fine w' \<and> busy (k_pc w') \<and>
    (whole_step reg env)\<^sup>*\<^sup>* s (s\<lparr>wks := [w'], links := [l\<lparr>to_coord := to_coord l @ map fst news\<rparr>]\<rparr>)"
  using assms(1)
proof (induction rule: rtranclp_induct)
  case base
  have "s\<lparr>wks := [w], links := [l]\<rparr> = s" using s(1,2) by (cases s) simp
  then show ?case using assms(2,3) by (intro exI [of _ "[]"]) simp
next
  case (step y z)
  then obtain news where IH: "k_said y = k_said w @ news" "worker_fine y" "busy (k_pc y)"
    "(whole_step reg env)\<^sup>*\<^sup>* s (s\<lparr>wks := [y], links := [l\<lparr>to_coord := to_coord l @ map fst news\<rparr>]\<rparr>)"
    by blast
  let ?y = "s\<lparr>wks := [y], links := [l\<lparr>to_coord := to_coord l @ map fst news\<rparr>]\<rparr>"
  obtain more where more: "k_said z = k_said y @ more"
    using worker_step_says [OF step.hyps(2)] IH(2) by (auto simp: worker_fine_def)
  have "whole_step reg env ?y (moves 0 z (map fst more) ?y)"
  proof (rule whole_step.worker)
    show "worker_step reg (env 0) (wks ?y ! 0) z" using step.hyps(2) by simp
    show "k_pc (wks ?y ! 0) \<notin> {W_Connecting, W_AwaitingReply, W_WaitingStart}"
      using IH(3) by (auto simp: busy_def)
    have "subseq (map fst (filter (\<lambda>m. snd m = None) more)) (map fst more)"
      by (intro subseq_map subseq_filter_left)
    then show "sent_of (drop (length (k_said (wks ?y ! 0))) (k_said z)) (map fst more)"
      by (simp add: sent_of_def more)
  qed simp
  also have "moves 0 z (map fst more) ?y =
      s\<lparr>wks := [z], links := [l\<lparr>to_coord := to_coord l @ map fst (news @ more)\<rparr>]\<rparr>"
    using s(3) by (simp add: moves_def says_def)
  finally show ?case
    using IH more worker_step_busy [OF step.hyps(2)] worker_step_fine [OF step.hyps(2)]
    by (intro exI [of _ "news @ more"]) (auto intro: rtranclp.rtrancl_into_rtrancl)
qed

text \<open>The coordinator process runs in the whole as it does alone, while it reads nothing.\<close>

lemma whole_runs_coordinator:
  assumes "(sys_step no_read)\<^sup>*\<^sup>* S T" and "sys s = S" and "length (rws T) = length (rws S)"
  shows "(whole_step reg env)\<^sup>*\<^sup>* s (s\<lparr>sys := T\<rparr>)"
proof -
  have grows: "length (rws A) \<le> length (rws B)" if "(sys_step no_read)\<^sup>*\<^sup>* A B" for A B
    using that
  proof (induction rule: rtranclp_induct)
    case (step B C)
    then have "length (rws B) \<le> length (rws C)" using sys_step_calm by (simp add: all_calm_def)
    with step.IH show ?case by simp
  qed simp
  from assms(1,3) show ?thesis
  proof (induction rule: rtranclp_induct)
    case base
    have "s = s\<lparr>sys := S\<rparr>" using assms(2) by (cases s) simp
    then show ?case by (metis rtranclp.rtrancl_refl)
  next
    case (step B C)
    have "length (rws B) \<le> length (rws C)" "length (rws S) \<le> length (rws B)"
      using grows step.hyps by (blast intro: r_into_rtranclp)+
    with step.prems have len: "length (rws B) = length (rws S)" "length (rws C) = length (rws B)" by simp_all
    have "whole_step reg env (s\<lparr>sys := B\<rparr>) ((s\<lparr>sys := B\<rparr>)\<lparr>sys := C\<rparr>)"
      by (rule whole_step.coordinator) (simp_all add: step.hyps(2) len)
    then show ?case using step.IH [OF len(1)] by (simp add: rtranclp.rtrancl_into_rtrancl)
  qed
qed

subsection \<open>The coordinator takes the messages of its one worker\<close>

definition draining :: "workerMsg list \<Rightarrow> 'w whole \<Rightarrow> bool" where
  "draining ms s \<longleftrightarrow> (\<exists>l rw. links s = [l] \<and> to_coord l = ms \<and> rws (sys s) = [rw] \<and> rw_pc rw = Updating) \<and>
     cpc (sys s) = C_Testing \<and> q_update (sys s) = [] \<and> completed (sys s) = 0 \<and>
     ghas (workers (coord (sys s))) ''w'' \<and> expectedWorkers (coord (sys s)) = 1"

lemma drain_forward:
  assumes "draining (m # ms) s" and "plain_msg m" and "W_State m \<noteq> workerFailed"
  shows "\<exists>l rw. (whole_step reg env)\<^sup>*\<^sup>* s (s\<lparr>links := [l], sys := (sys s)\<lparr>rws := [rw], q_update := [m]\<rparr>\<rparr>) \<and>
    to_coord l = ms \<and> rw_pc rw = (if W_State m = workerCompleted then Ending None else Updating)"
proof -
  obtain l rw where s: "links s = [l]" "to_coord l = m # ms" "rws (sys s) = [rw]" "rw_pc rw = Updating"
    "q_update (sys s) = []" "expectedWorkers (coord (sys s)) = 1"
    using assms(1) by (auto simp: draining_def)
  let ?l = "l\<lparr>to_coord := ms, got := got l @ [m]\<rparr>"
  let ?rw = "rw\<lparr>rw_txCount := W_TxCount m, rw_pc := Forwarding m\<rparr>"
  let ?s1 = "s\<lparr>sys := set_rw 0 ?rw (sys s), links := (links s)[0 := ?l]\<rparr>"
  have r: "rw_update (Inr m) rw = ?rw" using assms(3) by (simp add: rw_update_def)
  have "whole_step reg env s (s\<lparr>sys := set_rw 0 (rw_update (Inr m) (rws (sys s) ! 0)) (sys s),
      links := (links s)[0 := ?l]\<rparr>)"
  proof (rule whole_step.read_update)
    show "coord_reads (links s ! 0) (Inr m) ?l"
      using s on_wire_plain [OF assms(2)] by (simp add: coord_reads_def)
  qed (use s in simp_all)
  then have 1: "whole_step reg env s ?s1" using s by (simp add: r)
  let ?S2 = "set_rw 0 (rw_forwarded m (rws (sys ?s1) ! 0)) ((sys ?s1)\<lparr>q_update := q_update (sys ?s1) @ [m]\<rparr>)"
  have "sys_step no_read (sys ?s1) ?S2"
    by (rule sys_step.forward) (use s in \<open>simp_all add: room_def\<close>)
  then have 2: "whole_step reg env ?s1 (?s1\<lparr>sys := ?S2\<rparr>)"
    by (rule whole_step.coordinator) simp
  have eq: "?s1\<lparr>sys := ?S2\<rparr> = s\<lparr>links := [?l], sys := (sys s)\<lparr>rws := [rw_forwarded m ?rw], q_update := [m]\<rparr>\<rparr>"
    using s by (simp add: set_rw_def)
  have "(whole_step reg env)\<^sup>*\<^sup>* s (?s1\<lparr>sys := ?S2\<rparr>)"
    using r_into_rtranclp [of "whole_step reg env", OF 1] 2 by (rule rtranclp.rtrancl_into_rtrancl)
  then have "(whole_step reg env)\<^sup>*\<^sup>* s
      (s\<lparr>links := [?l], sys := (sys s)\<lparr>rws := [rw_forwarded m ?rw], q_update := [m]\<rparr>\<rparr>)"
    unfolding eq .
  then show ?thesis by (intro exI [of _ ?l] exI [of _ "rw_forwarded m ?rw"]) (simp add: rw_forwarded_def)
qed

lemma drain_one:
  assumes "draining (m # ms) s" and "plain_msg m" and "W_ID m = ''w''" and "W_State m = workerTesting"
  shows "\<exists>t. (whole_step reg env)\<^sup>*\<^sup>* s t \<and> draining ms t \<and> wks t = wks s"
proof -
  obtain l rw where d: "(whole_step reg env)\<^sup>*\<^sup>* s (s\<lparr>links := [l], sys := (sys s)\<lparr>rws := [rw], q_update := [m]\<rparr>\<rparr>)" "to_coord l = ms" "rw_pc rw = Updating"
    using drain_forward [OF assms(1,2), of reg env] assms(4) by (auto simp: worker_states)
  let ?s1 = "s\<lparr>links := [l], sys := (sys s)\<lparr>rws := [rw], q_update := [m]\<rparr>\<rparr>"
  let ?T = "do_test (WorkerUpdate m (0, 0, 0)) ((sys ?s1)\<lparr>q_update := []\<rparr>)"
  have T: "?T = (sys ?s1)\<lparr>q_update := [], coord := track_update m (coord (sys s))\<rparr>"
    using assms by (simp add: do_test_def test_step_def handle_update_def draining_def Let_def)
  have "sys_step no_read (sys ?s1) ?T"
    by (rule sys_step.test_update) (use assms(1) in \<open>simp_all add: draining_def\<close>)
  then have "whole_step reg env ?s1 (?s1\<lparr>sys := ?T\<rparr>)"
    by (rule whole_step.coordinator) (subst T, simp)
  moreover have "draining ms (?s1\<lparr>sys := ?T\<rparr>)"
    unfolding T using assms(1) d(2,3) by (simp add: draining_def)
  ultimately show ?thesis using d(1)
    by (intro exI [of _ "?s1\<lparr>sys := ?T\<rparr>"]) (simp add: rtranclp.rtrancl_into_rtrancl)
qed

lemma drain_last:
  assumes "draining [m] s" and "plain_msg m" and "W_ID m = ''w''" and "W_State m = workerCompleted"
  shows "\<exists>t. (whole_step reg env)\<^sup>*\<^sup>* s t \<and> cpc (sys t) = C_Returned None \<and> wks t = wks s"
proof -
  obtain l rw where d: "(whole_step reg env)\<^sup>*\<^sup>* s (s\<lparr>links := [l], sys := (sys s)\<lparr>rws := [rw], q_update := [m]\<rparr>\<rparr>)"
    using drain_forward [OF assms(1,2), of reg env] assms(4) by (auto simp: worker_states)
  let ?s1 = "s\<lparr>links := [l], sys := (sys s)\<lparr>rws := [rw], q_update := [m]\<rparr>\<rparr>"
  let ?T = "do_test (WorkerUpdate m (0, 0, 0)) ((sys ?s1)\<lparr>q_update := []\<rparr>)"
  have T: "cpc ?T = C_Returned None" "length (rws ?T) = 1"
    using assms by (simp_all add: do_test_def test_step_def handle_update_def draining_def worker_states Let_def)
  have "sys_step no_read (sys ?s1) ?T"
    by (rule sys_step.test_update) (use assms(1) in \<open>simp_all add: draining_def\<close>)
  then have "whole_step reg env ?s1 (?s1\<lparr>sys := ?T\<rparr>)"
    by (rule whole_step.coordinator) (simp only: T(2), simp)
  with d T(1) show ?thesis
    by (intro exI [of _ "?s1\<lparr>sys := ?T\<rparr>"]) (simp add: rtranclp.rtrancl_into_rtrancl)
qed

lemma drain_all:
  assumes "draining (ms @ [m]) s" and "list_all (\<lambda>m. plain_msg m \<and> W_ID m = ''w'') (ms @ [m])"
    and "list_all (\<lambda>m. W_State m = workerTesting) ms" and "W_State m = workerCompleted"
  shows "\<exists>t. (whole_step reg env)\<^sup>*\<^sup>* s t \<and> cpc (sys t) = C_Returned None \<and> wks t = wks s"
  using assms(1-3)
proof (induction ms arbitrary: s)
  case Nil
  then show ?case using drain_last [of m s reg env] assms(4) by simp
next
  case (Cons x xs)
  then obtain t where t: "(whole_step reg env)\<^sup>*\<^sup>* s t" "draining (xs @ [m]) t" "wks t = wks s"
    using drain_one [of x "xs @ [m]" s reg env] by auto
  with Cons.IH [of t] Cons.prems(2,3) show ?case by (auto intro: rtranclp_trans)
qed


subsection \<open>A group of one that sends its limit\<close>

definition fast_io :: batch_io where
  "fast_io = (slow_io solo_cfg)\<lparr>batch_elapsed := \<lambda>_. 0\<rparr>"

lemma solo_run_sent:
  "\<exists>r. (group_step [constant_client ''tx''])\<^sup>*\<^sup>* (solo_start i cb) r \<and> wait_done r \<and> length (members r) = 1 \<and>
     txCount (tr (members r ! 0)) = 10 \<and> g_Wait r = None"
proof -
  let ?cl = "constant_client ''tx'' :: unit client" and ?s0 = "solo_start i cb"
  let ?m = "members ?s0 ! 0"
  have m: "t_config (tr ?m) = solo_cfg" "\<not> stop (tr ?m)" "stopErr (tr ?m) = None" "txCount (tr ?m) = 0"
    and s0: "sent_err ?s0 = []" "tracked ?s0 = []" "errc ?s0 = []"
    by (simp_all add: g_Start_def solo_group_def NewTransactorGroup_def sendLoop_start_def
        SetProgressCallback_def g_SetProgressCallback_def fresh_transactor_def)
  have cfg: "limited solo_cfg" "Rate solo_cfg = 5" "Count solo_cfg = 10"
    by (simp_all add: limited_def solo_cfg_def flag_defaults_def)
  have "list_all (quick solo_cfg) [fast_io, fast_io]"
    by (simp add: quick_def fast_io_def slow_io_def solo_cfg_def flag_defaults_def seconds_duration_pos)
  moreover have "always_generates ?cl" by (simp add: always_generates_def constant_client_def)
  ultimately obtain m1 where m1: "send_passes ?cl (map SendTick [fast_io, fast_io]) ?m = Some m1"
      "pc m1 = LoopTop" "stopErr (tr m1) = None" "txCount (tr m1) = 10"
    using passes_below_limit [of ?cl solo_cfg "[fast_io, fast_io]" ?m] m cfg solo_top [of i cb] by auto
  obtain g where g: "(group_step [?cl])\<^sup>*\<^sup>* ?s0 (?s0\<lparr>members := (members ?s0)[0 := m1], grp := g\<rparr>)"
    using member_run [of "[?cl]" 0 ?m m1 ?s0] send_passes_steps [OF m1(1)] solo_length [of i cb] by auto
  let ?s1 = "?s0\<lparr>members := (members ?s0)[0 := m1], grp := g\<rparr>"
  obtain r where "(group_step [?cl])\<^sup>*\<^sup>* ?s1 r" "wait_done r" "length (members r) = 1"
      "txCount (tr (members r ! 0)) = 10" "g_Wait r = None"
    using one_member_run [of ?s1 "[?cl]"] m1 s0 solo_length [of i cb] by auto
  with g show ?thesis by (meson rtranclp_trans)
qed


subsection \<open>The run\<close>

abbreviation demo_step :: "unit whole \<Rightarrow> unit whole \<Rightarrow> bool" where
  "demo_step \<equiv> whole_step demo_registry (\<lambda>_. demo_env 1)"

definition hello_msg :: workerMsg where
  "hello_msg = zero_msg\<lparr>W_ID := ''w''\<rparr>"

definition demo_whole :: "system \<Rightarrow> workerMsg list \<Rightarrow> workerMsg list \<Rightarrow> nat \<Rightarrow> unit worker \<Rightarrow> unit whole" where
  "demo_whole S q g n w = \<lparr>sys = S, links = [\<lparr>l_worker = 0, to_coord = q, got = g, read_out = n\<rparr>], wks = [w]\<rparr>"

lemma demo_whole_fields [simp]:
  "sys (demo_whole S q g n w) = S" "wks (demo_whole S q g n w) = [w]"
  "links (demo_whole S q g n w) = [\<lparr>l_worker = 0, to_coord = q, got = g, read_out = n\<rparr>]"
  "(demo_whole S q g n w)\<lparr>sys := S'\<rparr> = demo_whole S' q g n w"
  by (simp_all add: demo_whole_def)

lemma demo_step_to: "demo_step\<^sup>*\<^sup>* a s \<Longrightarrow> demo_step s t \<Longrightarrow> t = t' \<Longrightarrow> demo_step\<^sup>*\<^sup>* a t'"
  by (simp add: rtranclp.rtrancl_into_rtrancl)

lemma hello_plain: "plain_msg hello_msg"
  by (simp add: hello_msg_def plain_msg_def zero_msg_def)

text \<open>The worker dials and registers; the coordinator's end reads its id and asks for it.\<close>

lemma demo_asked:
  "demo_step\<^sup>*\<^sup>* (whole_start solo_cfg one_worker [demo_worker])
     (demo_whole (asked_one solo_cfg) [] [hello_msg] 0 (w_register None (w_connect Dialled demo_worker)))"
proof -
  let ?w1 = "w_connect Dialled demo_worker" and ?S0 = "start_one solo_cfg"
  let ?w2 = "w_register None ?w1" and ?rw = "newRemoteWorker\<lparr>rw_id := ''w'', rw_pc := Registering\<rparr>"
  let ?S1 = "?S0\<lparr>rws := [newRemoteWorker]\<rparr>" and ?S2 = "?S0\<lparr>rws := [?rw]\<rparr>"
  have said: "k_said ?w1 = []" "k_said ?w2 = [(hello_msg, None)]" "k_pc ?w1 = W_Registering"
    by (simp_all add: w_connect_def w_register_def hello_msg_def demo_worker_def)
  have 1: "demo_step\<^sup>*\<^sup>* (whole_start solo_cfg one_worker [demo_worker]) (demo_whole ?S1 [] [] 0 ?w1)"
    by (rule demo_step_to [OF rtranclp.rtrancl_refl whole_step.dial [where i = 0]])
      (simp_all add: whole_start_def demo_worker_def demo_whole_def start_one_def, simp_all add: system_start_def)
  have 2: "demo_step\<^sup>*\<^sup>* (whole_start solo_cfg one_worker [demo_worker]) (demo_whole ?S1 [hello_msg] [] 0 ?w2)"
    by (rule demo_step_to [OF 1 whole_step.worker [where i = 0 and w' = ?w2 and qs = "[hello_msg]"]])
      (simp_all add: said sent_of_def worker_step.register, simp add: demo_whole_def moves_def says_def)
  have r: "rw_readID (Inr hello_msg) None newRemoteWorker = ?rw"
    by (simp add: rw_readID_def hello_msg_def)
  have 3: "demo_step\<^sup>*\<^sup>* (whole_start solo_cfg one_worker [demo_worker]) (demo_whole ?S2 [] [hello_msg] 0 ?w2)"
    by (rule demo_step_to [OF 2 whole_step.read_id [where k = 0 and r = "Inr hello_msg" and res = None
          and l = "\<lparr>l_worker = 0, to_coord = [], got = [hello_msg], read_out = 0\<rparr>"]])
      (simp_all add: coord_reads_def on_wire_plain [OF hello_plain] r,
        simp_all add: newRemoteWorker_def demo_whole_def set_rw_def)
  have "sys_step no_read ?S2 (asked_one solo_cfg)"
  proof -
    have "sys_step no_read ?S2 (set_rw 0 ((rws ?S2 ! 0)\<lparr>rw_pc := AwaitingReply\<rparr>)
        (?S2\<lparr>q_register := q_register ?S2 @ [0]\<rparr>))"
      by (rule sys_step.ask_register) (simp_all add: room_def)
    moreover have "set_rw 0 ((rws ?S2 ! 0)\<lparr>rw_pc := AwaitingReply\<rparr>) (?S2\<lparr>q_register := q_register ?S2 @ [0]\<rparr>)
        = asked_one solo_cfg"
      by (rule system.equality) (simp_all add: asked_one_def asking_def set_rw_def start_one_def system_start_def)
    ultimately show ?thesis by metis
  qed
  then have "demo_step (demo_whole ?S2 [] [hello_msg] 0 ?w2)
      ((demo_whole ?S2 [] [hello_msg] 0 ?w2)\<lparr>sys := asked_one solo_cfg\<rparr>)"
    by (intro whole_step.coordinator) (simp_all add: asked_one_def)
  then show ?thesis by (intro demo_step_to [OF 3]) simp_all
qed

text \<open>The coordinator starts the test, and the worker reads its acceptance and its start.\<close>

lemma demo_started:
  "demo_step\<^sup>*\<^sup>* (whole_start solo_cfg one_worker [demo_worker])
     (demo_whole (testing_one solo_cfg) [] [hello_msg] 2 demo_adding)"
proof -
  let ?w2 = "w_register None (w_connect Dialled demo_worker)" and ?a = "whole_start solo_cfg one_worker [demo_worker]"
  let ?T = "testing_one solo_cfg"
  let ?acc = "(state_msg ''w'' workerAccepted [])\<lparr>W_Config := Some solo_cfg\<rparr>"
  let ?go = "state_msg ''w'' workerTesting []"
  let ?w3 = "?w2\<lparr>k_cfg := solo_cfg, k_pc := W_WaitingStart\<rparr>"
  have out: "rw_out (testing_rw solo_cfg) = [?acc, ?go]" by (simp add: testing_rw_def accepted_rw_def)
  have ints: "config_ints solo_cfg" by (simp add: config_ints_def solo_cfg_def flag_defaults_def in_i64_def)
  then have wire: "on_wire ?acc = Inr ?acc" "on_wire ?go = Inr ?go"
    by (intro on_wire_same; simp add: state_msg_def zero_msg_def)+
  have "Config_Validate demo_registry solo_cfg = None"
    by (simp add: Config_Validate_def demo_factory_def solo_cfg_def flag_defaults_def
        validBroadcastTxMethods_def validEndpointSelectMethods_def SelectSuppliedEndpoints_def)
  then have w3: "w_registered demo_registry (Inr ?acc) None ?w2 = ?w3"
    by (simp add: w_registered_def w_register_def w_connect_def w_say_def demo_worker_def state_msg_def)
  have w4: "w_poll (Inr ?go) None ?w3 = demo_adding"
    by (simp add: w_poll_def w_register_def w_connect_def w_say_def demo_adding_def demo_worker_def)
  have "demo_step\<^sup>*\<^sup>* (demo_whole (asked_one solo_cfg) [] [hello_msg] 0 ?w2)
      ((demo_whole (asked_one solo_cfg) [] [hello_msg] 0 ?w2)\<lparr>sys := ?T\<rparr>)"
    by (rule whole_runs_coordinator [OF run_started]) (simp_all, simp add: asked_one_def)
  then have 5: "demo_step\<^sup>*\<^sup>* ?a (demo_whole ?T [] [hello_msg] 0 ?w2)"
    unfolding demo_whole_fields by (rule rtranclp_trans [OF demo_asked])
  have 6: "demo_step\<^sup>*\<^sup>* ?a (demo_whole ?T [] [hello_msg] 1 ?w3)"
    by (rule demo_step_to [OF 5 whole_step.reply [where k = 0 and i = 0 and r = "Inr ?acc" and res = None and qs = "[]"
          and w' = ?w3 and l = "\<lparr>l_worker = 0, to_coord = [], got = [hello_msg], read_out = 1\<rparr>"]])
      (simp_all add: worker_reads_def out wire w3 sent_of_def,
        simp_all add: w_register_def demo_whole_def moves_def)
  show ?thesis
    by (rule demo_step_to [OF 6 whole_step.poll [where k = 0 and i = 0 and r = "Inr ?go" and res = None and qs = "[]"
          and w' = demo_adding and l = "\<lparr>l_worker = 0, to_coord = [], got = [hello_msg], read_out = 2\<rparr>"]])
      (simp_all add: worker_reads_def out wire w4 sent_of_def,
        simp_all add: demo_adding_def w_register_def w_connect_def w_say_def demo_worker_def demo_whole_def moves_def)
qed

text \<open>The worker runs its load test: what it says from its start on is its progress and its completion.\<close>

lemma demo_talk:
  assumes "worker_fine w" and "k_pc w = W_Ended None" and "k_said w = (hello_msg, r) # news"
  shows "\<exists>ms m. map fst news = ms @ [m] \<and> list_all (\<lambda>m. plain_msg m \<and> W_ID m = ''w'') (ms @ [m]) \<and>
    list_all (\<lambda>m. W_State m = workerTesting) ms \<and> W_State m = workerCompleted"
proof -
  obtain n where "talk w = spoke n @ [workerCompleted]" using assms(1,2) by (auto simp: worker_fine_def worker_ok_def)
  then have t: "map (\<lambda>m. W_State (fst m)) news = replicate n workerTesting @ [workerCompleted]"
    by (simp add: talk_def spoke_def assms(3))
  then obtain us u where n: "news = us @ [u]" by (cases news rule: rev_exhaust) auto
  with t have "map (\<lambda>m. W_State (fst m)) us = replicate n workerTesting" "W_State (fst u) = workerCompleted"
    by simp_all
  moreover from this(1) have "\<forall>x \<in> set us. W_State (fst x) = workerTesting"
    by (metis (no_types, lifting) in_set_replicate list.set_map image_eqI)
  moreover have "k_id w = ''w''" using assms(1) by (simp add: worker_fine_def worker_ok_def assms(3) hello_msg_def)
  ultimately show ?thesis
    using assms(1) n
    by (intro exI [of _ "map fst us"] exI [of _ "fst u"])
      (auto simp: worker_fine_def worker_ok_def assms(3) list_all_iff said_well_def)
qed

lemma worker_runs_fine: "(worker_step reg env)\<^sup>*\<^sup>* w w' \<Longrightarrow> worker_fine w \<Longrightarrow> worker_fine w'"
  by (induction rule: rtranclp_induct) (auto intro: worker_step_fine)

lemma demo_success_whole:
  "\<exists>s r. demo_step\<^sup>*\<^sup>* (whole_start solo_cfg one_worker [demo_worker]) s \<and> cpc (sys s) = C_Returned None \<and>
     (\<exists>w. wks s = [w] \<and> k_run w = Some r) \<and> length (members r) = 1 \<and> txCount (tr (members r ! 0)) = 10"
proof -
  obtain r where r: "(group_step [constant_client ''tx''])\<^sup>*\<^sup>* (solo_start workerUpdateInterval True) r"
    "wait_done r" "g_Wait r = None" and sent: "length (members r) = 1" "txCount (tr (members r ! 0)) = 10"
    using solo_run_sent by blast
  obtain w where w: "(worker_step demo_registry (demo_env 1))\<^sup>*\<^sup>* demo_adding w" "k_pc w = W_Ended None" "k_run w = Some r"
    using demo_finishes_with [OF _ _ r, of demo_adding] by (auto simp: demo_adding_def)
  have fine: "worker_fine demo_adding"
    by (rule worker_runs_fine [OF demo_to_adding NewWorker_fine [OF demo_worker_new]])
  have busy: "busy (k_pc demo_adding)" by (simp add: busy_def demo_adding_def)
  let ?s = "demo_whole (testing_one solo_cfg) [] [hello_msg] 2 demo_adding"
  obtain news where news: "k_said w = k_said demo_adding @ news" "worker_fine w"
    and t: "demo_step\<^sup>*\<^sup>* ?s (?s\<lparr>wks := [w], links := [\<lparr>l_worker = 0, to_coord = map fst news, got = [hello_msg], read_out = 2\<rparr>]\<rparr>)"
      (is "demo_step\<^sup>*\<^sup>* ?s ?t")
    using whole_runs_worker [of demo_registry "\<lambda>_. demo_env 1" demo_adding w ?s] w(1) fine busy by auto
  have "k_said w = (hello_msg, None) # news" using news(1) by (simp add: demo_adding_def hello_msg_def)
  then obtain ms m where m: "map fst news = ms @ [m]" "list_all (\<lambda>m. plain_msg m \<and> W_ID m = ''w'') (ms @ [m])"
    "list_all (\<lambda>m. W_State m = workerTesting) ms" "W_State m = workerCompleted"
    using demo_talk [OF news(2) w(2)] by blast
  have "draining (ms @ [m]) ?t"
    by (simp add: draining_def m(1) testing_one_def testing_rw_def accepted_rw_def start_simps ghas_def enter_testing_def)
  then obtain z where "demo_step\<^sup>*\<^sup>* ?t z" "cpc (sys z) = C_Returned None" "wks z = wks ?t"
    using drain_all [OF _ m(2-4)] by blast
  with demo_started t w(3) sent show ?thesis by (intro exI [of _ z] exI [of _ r]) (auto intro: rtranclp_trans)
qed

end
