(* ===== verification/Whole_System.thy ===== *)
theory Whole_System
  imports Whole_Run
begin

section \<open>The success of a whole load test\<close>

text \<open>
  What the coordinator counted against what the workers did.  The account is kept for the
  coordinator process with two lists: the id of the worker behind each connection, and the messages
  read from each connection.
\<close>

definition recorded :: "coordinator \<Rightarrow> workerMsg \<Rightarrow> bool" where
  "recorded c m \<longleftrightarrow>
     (0 < W_TxCount m \<longrightarrow> gget (totalTxsPerWorker c) (W_ID m) = Some (W_TxCount m)) \<and>
     (0 < W_TotalTxBytes m \<longrightarrow> gget (totalBytesPerWorker c) (W_ID m) = Some (W_TotalTxBytes m))"

text \<open>
  A connection is settled when its completion was passed on, none of its messages is still in the
  update channel, and the counts of its completion are in the coordinator's statistics.
\<close>

definition settled :: "string list \<Rightarrow> workerMsg list list \<Rightarrow> system \<Rightarrow> nat \<Rightarrow> bool" where
  "settled ids gots s k \<longleftrightarrow> pc_done (pcs s ! k) \<and> (\<forall>m \<in> set (q_update s). W_ID m \<noteq> ids ! k) \<and>
     (\<forall>m \<in> set (gots ! k). W_State m = workerCompleted \<longrightarrow> recorded (coord s) m)"

definition links_ok :: "string list \<Rightarrow> workerMsg list list \<Rightarrow> system \<Rightarrow> bool" where
  "links_ok ids gots s \<longleftrightarrow> length ids = length (pcs s) \<and> length gots = length (pcs s) \<and> distinct ids \<and>
     (\<forall>k < length (pcs s). (\<forall>m \<in> set (gots ! k). W_ID m = ids ! k) \<and>
        (\<forall>m. pcs s ! k = Forwarding m \<longrightarrow> m \<in> set (gots ! k)) \<and>
        (\<forall>m \<in> set (gots ! k). \<forall>m' \<in> set (gots ! k).
           W_State m = workerCompleted \<longrightarrow> W_State m' = workerCompleted \<longrightarrow> m = m'))"

text \<open>
  The update channel holds what was read from the connections, and after a completion nothing more
  of the same worker.
\<close>

definition queued_ok :: "string list \<Rightarrow> workerMsg list list \<Rightarrow> system \<Rightarrow> bool" where
  "queued_ok ids gots s \<longleftrightarrow>
     (\<forall>m \<in> set (q_update s). \<exists>k < length (pcs s). m \<in> set (gots ! k)) \<and>
     (\<forall>xs m ys. q_update s = xs @ m # ys \<longrightarrow> W_State m = workerCompleted \<longrightarrow>
        (\<forall>m' \<in> set ys. W_ID m' \<noteq> W_ID m) \<and>
        (\<exists>k < length (pcs s). ids ! k = W_ID m \<and> pc_done (pcs s ! k)))"

definition no_counts :: "string set \<Rightarrow> coordinator \<Rightarrow> bool" where
  "no_counts U c \<longleftrightarrow> (\<forall>u \<in> U. gget (totalTxsPerWorker c) u \<in> {None, Some 0} \<and>
     gget (totalBytesPerWorker c) u \<in> {None, Some 0})"

text \<open>
  While it tests: the ids registered at the start are \<open>R\<close>, nobody else has a count, and no more
  connections were counted as completed than are settled.
\<close>

definition tallied :: "string set \<Rightarrow> string list \<Rightarrow> workerMsg list list \<Rightarrow> system \<Rightarrow> bool" where
  "tallied R ids gots s \<longleftrightarrow> finite R \<and> int (card R) = expectedWorkers (coord s) \<and>
     (\<forall>u. ghas (workers (coord s)) u \<longrightarrow> u \<in> R) \<and>
     (\<forall>u \<in> R. ghas (totalTxsPerWorker (coord s)) u \<and> ghas (totalBytesPerWorker (coord s)) u) \<and>
     no_counts (- R) (coord s) \<and>
     completed s \<le> int (card {k. k < length ids \<and> settled ids gots s k \<and> ids ! k \<in> R})"

definition final_counts :: "coordinator \<Rightarrow> bool" where
  "final_counts c \<longleftrightarrow> c_totalTxs c = go_sum (gvals (totalTxsPerWorker c)) \<and>
     c_totalBytes c = go_sum (gvals (totalBytesPerWorker c))"

definition account :: "string list \<Rightarrow> workerMsg list list \<Rightarrow> system \<Rightarrow> bool" where
  "account ids gots s \<longleftrightarrow> queued_ok ids gots s \<and>
     (case cpc s of
        C_Testing \<Rightarrow> (\<exists>R. tallied R ids gots s)
      | C_Returned None \<Rightarrow> (\<exists>R. tallied R ids gots s) \<and> expectedWorkers (coord s) \<le> completed s \<and>
          final_counts (coord s)
      | C_Returned (Some _) \<Rightarrow> True
      | _ \<Rightarrow> no_counts UNIV (coord s))"

subsection \<open>Keeping the account\<close>

lemma settled_keep:
  assumes "settled ids gots s k" and "pc_done (pcs s ! k) \<Longrightarrow> pc_done (pcs t ! k)"
    and "\<And>m. m \<in> set (q_update t) \<Longrightarrow> W_ID m \<noteq> ids ! k \<or> m \<in> set (q_update s)"
    and "\<And>m. m \<in> set (gots ! k) \<Longrightarrow> recorded (coord s) m \<Longrightarrow> recorded (coord t) m"
  shows "settled ids gots t k"
  using assms by (auto simp: settled_def)

lemma tallied_keep:
  assumes "tallied R ids gots s" and "completed t = completed s"
    and "expectedWorkers (coord t) = expectedWorkers (coord s)"
    and "\<And>u. ghas (workers (coord t)) u \<Longrightarrow> ghas (workers (coord s)) u"
    and "totalTxsPerWorker (coord t) = totalTxsPerWorker (coord s)"
    and "totalBytesPerWorker (coord t) = totalBytesPerWorker (coord s)"
    and "\<And>k. k < length ids \<Longrightarrow> settled ids gots s k \<Longrightarrow> settled ids gots t k"
  shows "tallied R ids gots t"
proof -
  have "card {k. k < length ids \<and> settled ids gots s k \<and> ids ! k \<in> R} \<le>
      card {k. k < length ids \<and> settled ids gots t k \<and> ids ! k \<in> R}"
    using assms(7) by (intro card_mono) auto
  with assms(1-6) show ?thesis by (auto simp: tallied_def no_counts_def)
qed

lemma account_transfer:
  assumes "account ids gots s" and "queued_ok ids gots t" and "cpc t = cpc s" and "coord t = coord s"
    and "completed t = completed s" and "\<And>R. tallied R ids gots s \<Longrightarrow> tallied R ids gots t"
  shows "account ids gots t"
proof (cases "cpc s")
  case C_Testing
  with assms show ?thesis by (auto simp: account_def)
next
  case (C_Returned res)
  with assms show ?thesis by (cases res) (auto simp: account_def)
qed (use assms(1-4) in \<open>simp_all add: account_def\<close>)

text \<open>A step that leaves channel, counts and the coordinator's program point alone.\<close>

lemma account_keep:
  assumes "account ids gots s" and "q_update t = q_update s" and "coord t = coord s" and "cpc t = cpc s"
    and "completed t = completed s" and "length (pcs t) = length (pcs s)"
    and "\<And>k. pc_done (pcs s ! k) \<Longrightarrow> pc_done (pcs t ! k)"
  shows "account ids gots t"
proof -
  have keep: "settled ids gots s k \<Longrightarrow> settled ids gots t k" for k
    using assms by (auto simp: settled_def)
  have "tallied R ids gots s \<Longrightarrow> tallied R ids gots t" for R
    by (erule tallied_keep) (simp_all add: assms keep)
  moreover have "queued_ok ids gots t"
    using assms(1) unfolding account_def queued_ok_def assms(2,6) by (meson assms(7))
  ultimately show ?thesis using assms by (intro account_transfer [OF assms(1)])
qed

lemma queued_ok_tail:
  assumes "queued_ok ids gots s" and "q_update s = q_update t \<or> (\<exists>m. q_update s = m # q_update t)"
    and "pcs t = pcs s"
  shows "queued_ok ids gots t"
proof -
  have "\<exists>zs. q_update s = zs @ q_update t" using assms(2) by (auto intro: exI [of _ "[_]"])
  then obtain zs where zs: "q_update s = zs @ q_update t" by blast
  have "(\<forall>m' \<in> set ys. W_ID m' \<noteq> W_ID m) \<and> (\<exists>k < length (pcs s). ids ! k = W_ID m \<and> pc_done (pcs s ! k))"
    if "q_update t = xs @ m # ys" "W_State m = workerCompleted" for xs m ys
  proof -
    have "q_update s = (zs @ xs) @ m # ys" using zs that(1) by simp
    with assms(1) that(2) show ?thesis unfolding queued_ok_def by blast
  qed
  then show ?thesis using assms(1,3) zs by (auto simp: queued_ok_def)
qed

text \<open>A message passed on to the update channel.\<close>

lemma account_forward:
  assumes "account ids gots s" and ok: "links_ok ids gots s" and k: "k < length (pcs s)"
    and pc: "pcs s ! k = Forwarding m"
    and t: "q_update t = q_update s @ [m]" "coord t = coord s" "cpc t = cpc s" "completed t = completed s"
    and p: "pcs t = (pcs s)[k := p']" and fin: "W_State m = workerCompleted \<Longrightarrow> pc_done p'"
  shows "account ids gots t"
proof -
  have m: "m \<in> set (gots ! k)" "W_ID m = ids ! k" using ok k pc by (auto simp: links_ok_def)
  have inj: "ids ! j = ids ! k \<Longrightarrow> j < length (pcs s) \<Longrightarrow> j = k" for j
    using ok k by (simp add: links_ok_def nth_eq_iff_index_eq)
  have nd: "\<not> pc_done (pcs s ! k)" using pc by (simp add: pc_done_def)
  have q: "queued_ok ids gots s" using assms(1) by (simp add: account_def)
  have split: "(\<forall>m' \<in> set ys. W_ID m' \<noteq> W_ID c) \<and> (\<exists>j < length (pcs t). ids ! j = W_ID c \<and> pc_done (pcs t ! j))"
    if c: "q_update s @ [m] = xs @ c # ys" "W_State c = workerCompleted" for xs c ys
  proof (cases ys rule: rev_cases)
    case Nil
    with c m k p fin show ?thesis by (auto intro!: exI [of _ k])
  next
    case (snoc zs z)
    with c(1) have z: "q_update s = xs @ c # zs" "z = m" by simp_all
    with q c(2) obtain j where j: "j < length (pcs s)" "ids ! j = W_ID c" "pc_done (pcs s ! j)"
      and zs: "\<forall>m' \<in> set zs. W_ID m' \<noteq> W_ID c" unfolding queued_ok_def by blast
    have "j \<noteq> k" using j(3) nd by auto
    with j p have "\<exists>j < length (pcs t). ids ! j = W_ID c \<and> pc_done (pcs t ! j)"
      by (intro exI [of _ j]) simp
    moreover have "W_ID m \<noteq> W_ID c" using inj [of j] j m \<open>j \<noteq> k\<close> by auto
    ultimately show ?thesis using zs z(2) snoc by simp
  qed
  have keep: "settled ids gots t j" if "settled ids gots s j" "j < length ids" for j
  proof -
    have "j \<noteq> k" using that nd by (auto simp: settled_def)
    with that(2) ok have "ids ! k \<noteq> ids ! j" using inj [of j] by (auto simp: links_ok_def)
    with that(1) \<open>j \<noteq> k\<close> show ?thesis unfolding settled_def t p by (simp add: m(2))
  qed
  have "tallied R ids gots s \<Longrightarrow> tallied R ids gots t" for R
    by (erule tallied_keep) (simp_all add: t keep)
  moreover have "queued_ok ids gots t"
    using q m(1) k split unfolding queued_ok_def t p by (auto simp: p)
  ultimately show ?thesis using t by (intro account_transfer [OF assms(1)])
qed


subsection \<open>The steps of the coordinator\<close>

lemma wait_step_no_counts:
  "no_counts U c \<Longrightarrow> no_counts U (fst (wait_step ev c))"
  by (cases ev) (auto simp: no_counts_def wait_step_def registerRemoteWorker_def unregisterRemoteWorker_def
      gomap_simps Let_def)

lemma account_wait:
  assumes "account ids gots s" and "cpc s = C_Waiting"
  shows "account ids gots (do_wait ev order s)"
proof -
  obtain c resp nxt where 1: "wait_step ev (coord s) = (c, resp, nxt)" by (rule prod_cases3)
  have "no_counts UNIV c"
    using assms wait_step_no_counts [of UNIV "coord s" ev] 1 by (simp add: account_def)
  moreover have "queued_ok ids gots (do_wait ev order s)"
    using assms(1) by (auto simp: account_def intro: queued_ok_tail)
  ultimately show ?thesis
    using assms(2) by (simp add: account_def do_wait_def 1 Let_def split: wait_next.split)
qed

lemma account_all_started:
  assumes "account ids gots s" and "cpc s = C_Starting []" and "start_ok ccfg s"
    and t: "t = s\<lparr>cpc := C_Testing, coord := enter_testing now (coord s), completed := 0\<rparr>"
  shows "account ids gots t"
proof -
  let ?R = "set (gkeys (workers (coord s)))"
  have reg: "registry_ok (coord s)" "int (length (workers (coord s))) = expectedWorkers (coord s)"
    using assms(2,3) by (auto simp: start_ok_def)
  have keys: "u \<in> ?R \<longleftrightarrow> ghas (workers (coord s)) u" for u
    by (simp add: ghas_def map_of_eq_None_iff)
  have "card ?R = length (workers (coord s))"
    using reg(1) distinct_card [of "gkeys (workers (coord s))"] by (simp add: registry_ok_def gwf_def)
  moreover have "no_counts UNIV (coord s)" using assms(1,2) by (simp add: account_def)
  ultimately have "tallied ?R ids gots t"
    using reg keys by (simp add: tallied_def t enter_testing_def registry_ok_def no_counts_def)
  moreover have "queued_ok ids gots t"
    using assms(1) by (auto simp: account_def t intro: queued_ok_tail)
  ultimately show ?thesis by (auto simp: account_def t)
qed

text \<open>A pass of the update loop that is not about an update.\<close>

lemma account_no_update:
  assumes "account ids gots s" and "cpc s = C_Testing"
    and ev: "case ev of WorkerUpdate m now \<Rightarrow> False | _ \<Rightarrow> True"
  shows "account ids gots (do_test ev s)"
proof -
  obtain R where R: "tallied R ids gots s" using assms(1,2) by (auto simp: account_def)
  obtain c n r where 1: "test_step ev (coord s, completed s) = ((c, n), r)" by (metis prod.exhaust)
  have q: "queued_ok ids gots (do_test ev s)"
    using assms(1) by (auto simp: account_def intro: queued_ok_tail)
  show ?thesis
  proof (cases r)
    case None
    have f: "totalTxsPerWorker c = totalTxsPerWorker (coord s)" "totalBytesPerWorker c = totalBytesPerWorker (coord s)"
      "coordCfg c = coordCfg (coord s)" "n = completed s" "ghas (workers c) u \<Longrightarrow> ghas (workers (coord s)) u" for u
      using 1 ev by (cases ev; auto simp: test_step_def unregisterRemoteWorker_def ghas_def delete_conv'
          split: option.splits if_splits)+
    have d: "do_test ev s = s\<lparr>coord := c, completed := n\<rparr>" by (simp add: do_test_def 1 None)
    have keep: "settled ids gots s k \<Longrightarrow> settled ids gots (do_test ev s) k" for k
      by (simp add: d settled_def recorded_def f)
    have "tallied R ids gots (do_test ev s)"
      by (rule tallied_keep [OF R]) (use keep f in \<open>simp_all add: d\<close>)
    with q assms(2) show ?thesis by (auto simp: account_def d)
  next
    case (Some res)
    then obtain err where "res = Some err"
      using 1 ev by (cases ev) (auto simp: test_step_def split: option.splits)
    with Some q show ?thesis by (simp add: account_def do_test_def 1)
  qed
qed

text \<open>A pass with an update: the message leaves the channel and may settle its connection.\<close>

lemma recorded_track:
  "recorded (track_update m c) m"
  "W_ID m' \<noteq> W_ID m \<Longrightarrow> recorded (track_update m c) m' = recorded c m'"
  by (auto simp: recorded_def track_update_counts)

lemma handle_update_result:
  assumes "ghas (workers c) (W_ID m)" and "handle_update m now (c, n) = ((c', n'), r)"
  shows "workers c' = workers c" "coordCfg c' = coordCfg c" "recorded c' = recorded (track_update m c)"
    "totalTxsPerWorker c' = totalTxsPerWorker (track_update m c)"
    "totalBytesPerWorker c' = totalBytesPerWorker (track_update m c)"
    "n' = (if W_State m = workerCompleted then n + 1 else n)"
    "r = Some None \<Longrightarrow> expectedWorkers c \<le> n' \<and> final_counts c'"
  using assms by (auto simp: handle_update_def Let_def recorded_def final_counts_def fun_eq_iff worker_states
      split: if_splits)


lemma settled_update:
  assumes ok: "links_ok ids gots s" and q: "q_update s = m # q" and t: "q_update t = q" "pcs t = pcs s"
    and rec: "recorded (coord t) = recorded (track_update m (coord s))" and j: "j < length ids"
  shows "settled ids gots s j \<Longrightarrow> settled ids gots t j"
    and "queued_ok ids gots s \<Longrightarrow> W_State m = workerCompleted \<Longrightarrow> ids ! j = W_ID m \<Longrightarrow> m \<in> set (gots ! j) \<Longrightarrow>
      settled ids gots t j"
proof -
  have id: "W_ID m' = ids ! j" if "m' \<in> set (gots ! j)" for m'
    using ok j that by (simp add: links_ok_def)
  assume "settled ids gots s j"
  moreover from this have "W_ID m \<noteq> ids ! j" by (simp add: settled_def q)
  ultimately show "settled ids gots t j"
    using id recorded_track(2) by (auto simp: settled_def q t rec)
next
  assume qo: "queued_ok ids gots s" and m: "W_State m = workerCompleted" "ids ! j = W_ID m" "m \<in> set (gots ! j)"
  from qo have "q_update s = [] @ m # q \<Longrightarrow> (\<forall>m' \<in> set q. W_ID m' \<noteq> W_ID m) \<and>
      (\<exists>k < length (pcs s). ids ! k = W_ID m \<and> pc_done (pcs s ! k))"
    using m(1) unfolding queued_ok_def by blast
  with q obtain k where k: "k < length (pcs s)" "ids ! k = W_ID m" "pc_done (pcs s ! k)"
    and qs: "\<forall>m' \<in> set q. W_ID m' \<noteq> W_ID m" by auto
  have "ids ! k = ids ! j" using k(2) m(2) by simp
  with ok j k(1) have "k = j" by (simp add: links_ok_def nth_eq_iff_index_eq)
  moreover have "m' = m" if "m' \<in> set (gots ! j)" "W_State m' = workerCompleted" for m'
    using ok j m that unfolding links_ok_def by metis
  ultimately show "settled ids gots t j"
    using k qs m(2) recorded_track(1) [of m "coord s"] by (auto simp: settled_def t rec)
qed

lemma tallied_update:
  assumes tal: "tallied R ids gots s" and ok: "links_ok ids gots s" and qo: "queued_ok ids gots s"
    and q: "q_update s = m # q" and reg: "ghas (workers (coord s)) (W_ID m)"
    and t: "q_update t = q" "pcs t = pcs s" "workers (coord t) = workers (coord s)"
      "coordCfg (coord t) = coordCfg (coord s)" "recorded (coord t) = recorded (track_update m (coord s))"
      "totalTxsPerWorker (coord t) = totalTxsPerWorker (track_update m (coord s))"
      "totalBytesPerWorker (coord t) = totalBytesPerWorker (track_update m (coord s))"
      "completed t = (if W_State m = workerCompleted then completed s + 1 else completed s)"
  shows "tallied R ids gots t"
proof -
  let ?S = "\<lambda>s. {k. k < length ids \<and> settled ids gots s k \<and> ids ! k \<in> R}"
  note keep = settled_update [OF ok q t(1,2,5)]
  have m: "W_ID m \<in> R" using tal reg by (simp add: tallied_def)
  have sub: "?S s \<subseteq> ?S t" using keep(1) by auto
  have "completed t \<le> int (card (?S t))"
  proof (cases "W_State m = workerCompleted")
    case True
    obtain k where k: "k < length (pcs s)" "m \<in> set (gots ! k)" using qo q by (auto simp: queued_ok_def)
    with ok have k': "k < length ids" "ids ! k = W_ID m" by (simp_all add: links_ok_def)
    have "k \<notin> ?S s" using k'(2) by (simp add: settled_def q)
    moreover have "k \<in> ?S t" using keep(2) [OF k'(1) qo True k'(2) k(2)] k' m by simp
    ultimately have "?S s \<subset> ?S t" using sub by blast
    then have "card (?S s) < card (?S t)" by (intro psubset_card_mono) auto
    with True t(8) tal show ?thesis by (simp add: tallied_def)
  next
    case False
    have "card (?S s) \<le> card (?S t)" using sub by (intro card_mono) auto
    with False t(8) tal show ?thesis by (simp add: tallied_def)
  qed
  moreover have "no_counts (- R) (coord t)"
    using tal m unfolding tallied_def no_counts_def t(6,7) track_update_counts by auto
  moreover have "\<forall>u \<in> R. ghas (totalTxsPerWorker (coord t)) u \<and> ghas (totalBytesPerWorker (coord t)) u"
    using tal unfolding tallied_def ghas_def t(6,7) track_update_counts by auto
  ultimately show ?thesis using tal unfolding tallied_def t(3,4) by blast
qed

lemma account_update:
  assumes "account ids gots s" and "cpc s = C_Testing" and ok: "links_ok ids gots s"
    and q: "q_update s = m # q"
  shows "account ids gots (do_test (WorkerUpdate m now) (s\<lparr>q_update := q\<rparr>))" (is "account _ _ ?t")
proof -
  obtain R where R: "tallied R ids gots s" using assms(1,2) by (auto simp: account_def)
  have qo: "queued_ok ids gots s" using assms(1) by (simp add: account_def)
  then have qt: "queued_ok ids gots ?t" by (rule queued_ok_tail) (simp_all add: q)
  obtain c n r where 1: "handle_update m now (coord s, completed s) = ((c, n), r)" by (metis prod.exhaust)
  show ?thesis
  proof (cases "ghas (workers (coord s)) (W_ID m)")
    case False
    with 1 have t: "?t = s\<lparr>q_update := q\<rparr>"
      by (simp add: do_test_def test_step_def handle_update_def)
    have "settled ids gots s k \<Longrightarrow> settled ids gots ?t k" for k
      by (simp add: t settled_def q)
    then have "tallied R ids gots ?t" by (intro tallied_keep [OF R]) (simp_all add: t)
    with qt assms(2) show ?thesis by (auto simp: account_def t)
  next
    case True
    note h = handle_update_result [OF True 1]
    let ?f = "\<lambda>c'. (if r = None then c else c')"
    have t: "coord ?t = (case r of None \<Rightarrow> c | Some res \<Rightarrow>
        (leave_testing c)\<lparr>stateMetric := if res = None then coordCompleted else coordFailed\<rparr>)"
      "cpc ?t = (case r of None \<Rightarrow> C_Testing | Some res \<Rightarrow> C_Returned res)"
      "completed ?t = n"
      using assms(2) by (simp_all add: do_test_def test_step_def 1 finish_def Let_def split: option.split)
    have f: "workers (coord ?t) = workers c" "coordCfg (coord ?t) = coordCfg c"
      "totalTxsPerWorker (coord ?t) = totalTxsPerWorker c" "totalBytesPerWorker (coord ?t) = totalBytesPerWorker c"
      "recorded (coord ?t) = recorded c" "final_counts (coord ?t) = final_counts c"
      unfolding t by (auto simp: leave_testing_def recorded_def final_counts_def split: option.split)
    have "tallied R ids gots ?t"
      by (rule tallied_update [OF R ok qo q True]) (use f h t in simp_all)
    with qt h(7) f h(2) t show ?thesis
      by (cases r rule: option.exhaust; cases "the r") (auto simp: account_def)
  qed
qed

text \<open>Together: a step of the coordinator process that reads nothing keeps the account.\<close>

lemma account_fields [simp]:
  "account ids gots (s\<lparr>q_register := a\<rparr>) = account ids gots s"
  "account ids gots (s\<lparr>q_unregister := b\<rparr>) = account ids gots s"
  by (rule iffI; erule account_keep; simp)+

lemma pcs_at:
  "k < length (rws s) \<Longrightarrow> pcs s ! k = rw_pc (rws s ! k)" "length (pcs s) = length (rws s)"
  by (simp_all add: pcs_def)

lemma account_returned: "account ids gots s \<Longrightarrow> account ids gots (finish (Some err) s)"
  by (auto simp: account_def intro: queued_ok_tail)

lemma account_sys_step:
  assumes "sys_step no_read s t" and "length (rws t) = length (rws s)"
    and "account ids gots s" and ok: "links_ok ids gots s" and start: "start_ok ccfg s"
  shows "account ids gots t"
  using assms(1)
proof (cases rule: sys_step.cases)
  case connect
  with assms(2) show ?thesis by simp
next
  case (local k rw')
  with rw_local_not_done [OF local(3)] have "pc_done (pcs s ! j) \<Longrightarrow> pc_done (pcs t ! j)" for j
    by (cases "j = k") (simp_all add: pcs_at)
  with local show ?thesis by (intro account_keep [OF assms(3)]) simp_all
next
  case (ask_register k)
  then have "pc_done (pcs s ! j) \<Longrightarrow> pc_done (pcs t ! j)" for j
    by (cases "j = k") (simp_all add: pcs_at pc_done_def)
  with ask_register show ?thesis
    using account_keep [OF assms(3), of "t\<lparr>q_register := q_register s\<rparr>"] by simp
next
  case (forward k m)
  then show ?thesis
    by (intro account_forward [OF assms(3) ok, where k = k and m = m
          and p' = "rw_pc (rw_forwarded m (rws s ! k))"])
      (simp_all add: pcs_at, simp_all add: pcs_def rw_forwarded_def pc_done_def)
next
  case (unregister k e)
  then have "pc_done (pcs s ! j) \<Longrightarrow> pc_done (pcs t ! j)" for j
    by (cases "j = k") (simp_all add: pcs_at pc_done_def)
  with unregister show ?thesis
    using account_keep [OF assms(3), of "t\<lparr>q_unregister := q_unregister s\<rparr>"] by simp
next
  case (take_register k q order)
  then show ?thesis using account_wait [of ids gots "s\<lparr>q_register := q\<rparr>"] assms(3) by simp
next
  case (take_unregister w e q order)
  then show ?thesis using account_wait [of ids gots "s\<lparr>q_unregister := q\<rparr>"] assms(3) by simp
next
  case (wait_ends ev order)
  then show ?thesis using account_wait assms(3) by simp
next
  case (tell_start w k ws)
  then have "pcs t = pcs s" by (simp add: pcs_at(1) [symmetric])
  with tell_start assms(3) queued_ok_tail [of ids gots s t] show ?thesis by (simp add: account_def)
next
  case (start_answer k ws)
  then have "pcs t = pcs s" by (simp add: pcs_at(1) [symmetric])
  with start_answer assms(3) queued_ok_tail [of ids gots s t] show ?thesis by (simp add: account_def)
next
  case (all_started now)
  then show ?thesis using account_all_started [OF assms(3) _ start] by simp
next
  case (test_update m q now)
  then show ?thesis using account_update [OF assms(3) _ ok] by simp
next
  case (test_unregister w e q)
  then show ?thesis using account_no_update [of ids gots "s\<lparr>q_unregister := q\<rparr>"] assms(3) by simp
next
  case (test_timer now)
  then show ?thesis using account_no_update assms(3) by simp
next
  case (test_ends ev)
  then show ?thesis using account_no_update [OF assms(3), of ev] by auto
qed (use account_returned [OF assms(3)] in simp_all)


subsection \<open>The account of the whole\<close>

definition ids_of :: "'w whole \<Rightarrow> string list" where
  "ids_of s = map (\<lambda>l. k_id (wks s ! l_worker l)) (links s)"

lemma ids_of_workers: "ids_of s = map (\<lambda>i. k_id (wks s ! i)) (map l_worker (links s))"
  by (simp add: ids_of_def)

definition gots_of :: "'w whole \<Rightarrow> workerMsg list list" where
  "gots_of s = map got (links s)"

definition system_ok :: "coordinator_config \<Rightarrow> 'w whole \<Rightarrow> bool" where
  "system_ok ccfg s \<longleftrightarrow> whole_ok s \<and> start_ok ccfg (sys s) \<and> distinct (map k_id (wks s)) \<and>
     account (ids_of s) (gots_of s) (sys s)"

text \<open>What was read from a connection was said by its worker, which completes once.\<close>

lemma got_said:
  assumes "whole_ok s" and "k < length (links s)" and "m \<in> set (got (links s ! k))"
  shows "W_ID m = k_id (wks s ! l_worker (links s ! k))"
    and "W_State m = workerCompleted \<Longrightarrow> completion (wks s ! l_worker (links s ! k)) m"
proof -
  let ?w = "wks s ! l_worker (links s ! k)"
  have "l_worker (links s ! k) < length (wks s)" using assms(1,2) by (auto simp: whole_ok_def)
  then have "worker_fine ?w" using assms(1) by (simp add: whole_ok_def list_all_length)
  moreover have "m \<in> set (map fst (k_said ?w))"
  proof (rule subseq_in)
    show "subseq (got (links s ! k) @ to_coord (links s ! k)) (map fst (k_said ?w))"
      using assms(1,2) by (simp add: whole_ok_def link_fine_def)
  qed (use assms(3) in simp)
  ultimately show "W_ID m = k_id ?w" "W_State m = workerCompleted \<Longrightarrow> completion ?w m"
    by (auto simp: worker_fine_def worker_ok_def list_all_iff said_well_def)
qed

lemma completion_unique: "completion w m \<Longrightarrow> completion w m' \<Longrightarrow> m = m'"
  by (auto simp: completion_def)

lemma links_ok_of:
  assumes "whole_ok s" and "distinct (map k_id (wks s))"
  shows "links_ok (ids_of s) (gots_of s) (sys s)"
proof -
  have "inj_on (\<lambda>i. k_id (wks s ! i)) {..<length (wks s)}"
    using assms(2) by (auto simp: inj_on_def distinct_conv_nth)
  moreover have "set (map l_worker (links s)) \<subseteq> {..<length (wks s)}"
    using assms(1) by (auto simp: whole_ok_def)
  ultimately have "inj_on (\<lambda>i. k_id (wks s ! i)) (set (map l_worker (links s)))"
    by (rule inj_on_subset)
  moreover have "distinct (map l_worker (links s))" using assms(1) by (simp add: whole_ok_def)
  ultimately have "distinct (map (\<lambda>i. k_id (wks s ! i)) (map l_worker (links s)))"
    by (simp add: distinct_map comp_inj_on)
  then have "distinct (ids_of s)" by (simp add: ids_of_def comp_def)
  moreover have "length (links s) = length (pcs (sys s))" using assms(1) by (simp add: whole_ok_def pcs_at)
  moreover have "m \<in> set (got (links s ! k))" if "k < length (links s)" "pcs (sys s) ! k = Forwarding m" for k m
    using assms(1) that by (simp add: whole_ok_def link_fine_def pcs_at)
  ultimately show ?thesis
    using got_said [OF assms(1)] completion_unique
    by (simp add: links_ok_def ids_of_def gots_of_def) blast
qed

text \<open>A new connection, and a message read, change nothing that was accounted for.\<close>

lemma account_extend:
  assumes "account ids gots s"
    and t: "q_update t = q_update s" "coord t = coord s" "cpc t = cpc s" "completed t = completed s"
    and len: "length ids = length (pcs s)" "length ids' = length (pcs t)" "length ids \<le> length ids'"
    and more: "\<And>k. k < length ids \<Longrightarrow> ids' ! k = ids ! k \<and> set (gots ! k) \<subseteq> set (gots' ! k)"
    and keep: "\<And>k. k < length ids \<Longrightarrow> pc_done (pcs s ! k) \<Longrightarrow> pc_done (pcs t ! k) \<and> gots' ! k = gots ! k"
  shows "account ids' gots' t"
proof -
  have set: "settled ids' gots' t k" if "settled ids gots s k" "k < length ids" for k
    using that more [OF that(2)] keep [OF that(2)] by (simp add: settled_def t)
  have "tallied R ids' gots' t" if R: "tallied R ids gots s" for R
  proof -
    have "card {k. k < length ids \<and> settled ids gots s k \<and> ids ! k \<in> R} \<le>
        card {k. k < length ids' \<and> settled ids' gots' t k \<and> ids' ! k \<in> R}"
      using set len(3) more by (intro card_mono) auto
    with R show ?thesis by (simp add: tallied_def t)
  qed
  moreover have "queued_ok ids' gots' t"
  proof -
    have q: "queued_ok ids gots s" using assms(1) by (simp add: account_def)
    have at: "k < length (pcs t) \<and> set (gots ! k) \<subseteq> set (gots' ! k) \<and> ids' ! k = ids ! k \<and>
        (pc_done (pcs s ! k) \<longrightarrow> pc_done (pcs t ! k))" if "k < length (pcs s)" for k
      using that more [of k] keep [of k] len by simp
    have "\<exists>k < length (pcs t). m \<in> set (gots' ! k)" if m: "m \<in> set (q_update s)" for m
    proof -
      obtain k where "k < length (pcs s)" "m \<in> set (gots ! k)" using q m by (auto simp: queued_ok_def)
      with at [of k] show ?thesis by blast
    qed
    moreover have "(\<forall>m' \<in> set ys. W_ID m' \<noteq> W_ID m) \<and> (\<exists>k < length (pcs t). ids' ! k = W_ID m \<and> pc_done (pcs t ! k))"
      if m: "q_update s = xs @ m # ys" "W_State m = workerCompleted" for xs m ys
    proof -
      obtain k where "k < length (pcs s)" "ids ! k = W_ID m" "pc_done (pcs s ! k)"
        and "\<forall>m' \<in> set ys. W_ID m' \<noteq> W_ID m"
        using q m unfolding queued_ok_def by blast
      with at [of k] show ?thesis by (intro conjI exI [of _ k]) simp_all
    qed
    ultimately show ?thesis unfolding queued_ok_def t(1) by simp
  qed
  ultimately show ?thesis
    using assms(1) t by (cases "cpc s") (auto simp: account_def split: option.splits)
qed

lemma whole_step_ids:
  assumes "whole_step reg env s t" and "whole_ok s"
  shows "map k_id (wks t) = map k_id (wks s)"
proof (rule nth_equalityI)
  show "length (map k_id (wks t)) = length (map k_id (wks s))"
    using whole_step_length [OF assms(1)] by simp
  fix i
  assume "i < length (map k_id (wks t))"
  then have i: "i < length (wks s)" "i < length (wks t)" using whole_step_length [OF assms(1)] by simp_all
  have "worker_ok (wks s ! i)" using assms(2) i by (simp add: whole_ok_def list_all_length worker_fine_def)
  then have "k_id (wks t ! i) = k_id (wks s ! i)"
    using whole_step_worker [OF assms(1) i(1)] worker_step_says by fastforce
  with i show "map k_id (wks t) ! i = map k_id (wks s) ! i" by simp
qed

lemma links_moves:
  "map l_worker (says i qs ls) = map l_worker ls" "map got (says i qs ls) = map got ls"
  by (simp_all add: says_def)

text \<open>A step that leaves the coordinator process and what it read alone.\<close>

lemma system_ok_same:
  assumes "system_ok ccfg s" and "whole_ok t" and "sys t = sys s"
    and "map k_id (wks t) = map k_id (wks s)" and "map l_worker (links t) = map l_worker (links s)"
    and "map got (links t) = map got (links s)"
  shows "system_ok ccfg t"
proof -
  have ids: "k_id (wks t ! i) = k_id (wks s ! i)" if "i < length (wks s)" for i
    using that assms(4) by (metis length_map nth_map)
  have "ids_of t = map (\<lambda>i. k_id (wks t ! i)) (map l_worker (links s))"
    unfolding ids_of_workers assms(5) by (rule refl)
  also have "\<dots> = ids_of s"
    unfolding ids_of_workers using assms(1) ids by (auto simp: system_ok_def whole_ok_def)
  finally have "ids_of t = ids_of s" .
  with assms show ?thesis by (simp add: system_ok_def gots_of_def)
qed


lemma ids_of_at:
  assumes "map k_id (wks t) = map k_id (wks s)" and "whole_ok s" and "k < length (links s)"
    and "k < length (links t)" and "l_worker (links t ! k) = l_worker (links s ! k)"
  shows "ids_of t ! k = ids_of s ! k"
proof -
  have "l_worker (links s ! k) < length (wks s)" using assms(2,3) by (auto simp: whole_ok_def)
  then have "k_id (wks t ! l_worker (links s ! k)) = k_id (wks s ! l_worker (links s ! k))"
    using assms(1) by (metis length_map nth_map)
  with assms(3-5) show ?thesis by (simp add: ids_of_def)
qed

text \<open>A message read changes the state of a connection that is not done.\<close>

lemma account_read:
  assumes "system_ok ccfg s" and "whole_ok t" and "map k_id (wks t) = map k_id (wks s)"
    and t: "sys t = set_rw k rw (sys s)" "links t = (links s)[k := l]"
    and k: "k < length (links s)" and l: "coord_reads (links s ! k) r l"
    and pc: "\<not> pc_done (rw_pc (rws (sys s) ! k))"
  shows "account (ids_of t) (gots_of t) (sys t)"
proof (rule account_extend)
  have ok: "whole_ok s" using assms(1) by (simp add: system_ok_def)
  have n: "length (links s) = length (rws (sys s))" using ok by (simp add: whole_ok_def)
  show "account (ids_of s) (gots_of s) (sys s)" using assms(1) by (simp add: system_ok_def)
  show "length (ids_of s) = length (pcs (sys s))" "length (ids_of t) = length (pcs (sys t))"
    "length (ids_of s) \<le> length (ids_of t)"
    using n t by (simp_all add: ids_of_def pcs_at)
  fix j
  assume j: "j < length (ids_of s)"
  have "l_worker (links t ! j) = l_worker (links s ! j)"
    using coord_reads_link [OF l] k t(2) by (cases "j = k") simp_all
  then have "ids_of t ! j = ids_of s ! j"
    using ids_of_at [OF assms(3) ok, of j] j t(2) by (simp add: ids_of_def)
  moreover have "set (gots_of s ! j) \<subseteq> set (gots_of t ! j)"
    using l j k t(2) by (cases "j = k") (auto simp: ids_of_def gots_of_def coord_reads_def)
  ultimately show "ids_of t ! j = ids_of s ! j \<and> set (gots_of s ! j) \<subseteq> set (gots_of t ! j)" ..
  assume "pc_done (pcs (sys s) ! j)"
  moreover from this have "j \<noteq> k" using pc k n by (auto simp: pcs_at)
  ultimately show "pc_done (pcs (sys t) ! j) \<and> gots_of t ! j = gots_of s ! j"
    using j t by (simp add: gots_of_def ids_of_def)
qed (simp_all add: t)

lemma whole_step_system_ok:
  assumes "whole_step reg env s t" and "system_ok ccfg s"
  shows "system_ok ccfg t"
proof -
  have ok: "whole_ok s" and n: "length (links s) = length (rws (sys s))"
    using assms(2) by (simp_all add: system_ok_def whole_ok_def)
  have okt: "whole_ok t" using assms(1) ok by (rule whole_step_ok)
  have ids: "map k_id (wks t) = map k_id (wks s)" using assms(1) ok by (rule whole_step_ids)
  have "start_ok ccfg (sys t)"
    using whole_step_sys [OF assms(1) n] assms(2) sys_step_start_ok by (auto simp: system_ok_def)
  then have rest: "account (ids_of t) (gots_of t) (sys t) \<Longrightarrow> ?thesis"
    using okt ids assms(2) by (simp add: system_ok_def)
  note same = system_ok_same [OF assms(2) okt _ ids]
  from assms(1) show ?thesis
  proof (cases rule: whole_step.cases)
    case (dial i)
    have "account (ids_of t) (gots_of t) (sys t)"
    proof (rule account_extend)
      show "account (ids_of s) (gots_of s) (sys s)" using assms(2) by (simp add: system_ok_def)
      show "length (ids_of s) = length (pcs (sys s))" "length (ids_of t) = length (pcs (sys t))"
        "length (ids_of s) \<le> length (ids_of t)"
        using n by (simp_all add: dial(1) ids_of_def pcs_at)
      fix j
      assume j: "j < length (ids_of s)"
      then have "ids_of t ! j = ids_of s ! j"
        using ids_of_at [OF ids ok, of j] by (simp add: dial(1) ids_of_def nth_append)
      then show "ids_of t ! j = ids_of s ! j \<and> set (gots_of s ! j) \<subseteq> set (gots_of t ! j)"
        using j by (simp add: dial(1) gots_of_def ids_of_def nth_append)
      assume "pc_done (pcs (sys s) ! j)"
      then show "pc_done (pcs (sys t) ! j) \<and> gots_of t ! j = gots_of s ! j"
        using j n by (simp add: dial(1) gots_of_def ids_of_def nth_append pcs_at)
    qed (simp_all add: dial(1))
    then show ?thesis by (rule rest)
  next
    case (reply k i r l w' res qs)
    have "map got ((links s)[k := l]) = map got (links s)"
      "map l_worker ((links s)[k := l]) = map l_worker (links s)"
      using reply(2,5) by (auto simp: worker_reads_def map_update list_update_same_conv)
    then show ?thesis by (intro same) (simp_all add: reply(1) links_moves)
  next
    case (poll k i r l w' res qs)
    have "map got ((links s)[k := l]) = map got (links s)"
      "map l_worker ((links s)[k := l]) = map l_worker (links s)"
      using poll(2,5) by (auto simp: worker_reads_def map_update list_update_same_conv)
    then show ?thesis by (intro same) (simp_all add: poll(1) links_moves)
  next
    case (coordinator t')
    have "account (ids_of s) (gots_of s) (sys s)" "distinct (map k_id (wks s))" "start_ok ccfg (sys s)"
      using assms(2) by (simp_all add: system_ok_def)
    then have "account (ids_of s) (gots_of s) t'"
      using account_sys_step [OF coordinator(2,3)] links_ok_of [OF ok] by blast
    then show ?thesis by (intro rest) (simp add: coordinator(1) ids_of_def gots_of_def)
  next
    case (read_id k r l res)
    show ?thesis
      by (intro rest account_read [OF assms(2) okt ids _ _ read_id(2,4)])
        (simp_all add: read_id pc_done_def)
  next
    case (read_update k r l)
    show ?thesis
      by (intro rest account_read [OF assms(2) okt ids _ _ read_update(2,4)])
        (simp_all add: read_update pc_done_def)
  qed (intro same; simp add: links_moves)+
qed

interpretation system_inv: kept_by_relation "whole_step reg env" "system_ok ccfg" for reg env ccfg
  by unfold_locales (rule whole_step_system_ok)

lemma system_ok_start:
  assumes "1 \<le> ExpectWorkers ccfg" and "list_all fresh_worker ws" and "distinct (map k_id ws)"
  shows "system_ok ccfg (whole_start cfg ccfg ws)"
proof -
  have "account [] [] (system_start cfg ccfg)"
    by (simp add: account_def queued_ok_def system_start_def no_counts_def enter_waiting_def NewCoordinator_def)
  then show ?thesis
    using assms whole_start_ok [OF assms(2), of cfg ccfg] system_start_ok [OF assms(1), of cfg]
    by (simp add: system_ok_def ids_of_def gots_of_def whole_start_def)
qed


subsection \<open>The configuration of a load test\<close>

text \<open>
  The only configuration a worker is ever sent is the coordinator's, and a worker past its
  registration has exactly that one.
\<close>

definition outs_fine :: "config \<Rightarrow> remote_worker \<Rightarrow> bool" where
  "outs_fine cfg rw \<longleftrightarrow> list_all (\<lambda>m. in_i64 (W_TxCount m) \<and> in_i64 (W_TotalTxBytes m) \<and>
     W_Config m \<in> {None, Some cfg}) (rw_out rw)"

lemma outs_fine_write:
  "outs_fine cfg rw \<Longrightarrow> outs_fine cfg (rw_write res (state_msg w st err) rw)"
  "outs_fine cfg rw \<Longrightarrow> outs_fine cfg (rw_write res ((state_msg w st err)\<lparr>W_Config := Some cfg\<rparr>) rw)"
  by (simp_all add: outs_fine_def rw_write_def state_msg_def zero_msg_def split: option.split)

lemma outs_fine_fields [simp]:
  "outs_fine cfg (rw_pc_update f rw) = outs_fine cfg rw" "outs_fine cfg (rw_id_update g rw) = outs_fine cfg rw"
  "outs_fine cfg (rw_resp_update h rw) = outs_fine cfg rw" "outs_fine cfg (rw_metric_update i rw) = outs_fine cfg rw"
  "outs_fine cfg (rw_txCount_update j rw) = outs_fine cfg rw" "outs_fine cfg (stateCtrl_update k rw) = outs_fine cfg rw"
  "outs_fine cfg (rw_reply_update l rw) = outs_fine cfg rw" "outs_fine cfg (rw_state_update m rw) = outs_fine cfg rw"
  "outs_fine cfg (rw_stop_update n rw) = outs_fine cfg rw" "outs_fine cfg newRemoteWorker"
  by (simp_all add: outs_fine_def newRemoteWorker_def)

lemma rw_local_outs: "rw_local reads cfg rw rw' \<Longrightarrow> outs_fine cfg rw \<Longrightarrow> outs_fine cfg rw'"
  by (erule rw_local.cases) (auto simp: rw_readID_def rw_registered_def rw_accept_def rw_start_ctrl_def
      rw_update_ctrl_def rw_update_def rw_stopped_def outs_fine_write Let_def
      split: sum.split option.split prod.split rw_pc.split)

definition outs_ok :: "config \<Rightarrow> system \<Rightarrow> bool" where
  "outs_ok cfg s \<longleftrightarrow> c_cfg (coord s) = cfg \<and> (\<forall>rw \<in> set (rws s). outs_fine cfg rw)"

lemma outs_ok_set: "outs_ok cfg s \<Longrightarrow> outs_fine cfg rw \<Longrightarrow> outs_ok cfg (set_rw k rw s)"
  using set_update_all [of "rws s" "outs_fine cfg" rw k] by (simp add: outs_ok_def)

lemma outs_ok_fields [simp]:
  "outs_ok cfg (s\<lparr>q_register := a\<rparr>) = outs_ok cfg s" "outs_ok cfg (s\<lparr>q_unregister := b\<rparr>) = outs_ok cfg s"
  "outs_ok cfg (s\<lparr>q_update := c\<rparr>) = outs_ok cfg s" "outs_ok cfg (s\<lparr>cpc := p\<rparr>) = outs_ok cfg s"
  "outs_ok cfg (s\<lparr>completed := n\<rparr>) = outs_ok cfg s"
  by (simp_all add: outs_ok_def)

lemma outs_fine_stop: "outs_fine cfg (stop_rw res c k rw) = outs_fine cfg rw"
  by (simp add: stop_rw_def rw_Stop_def rw_Fail_def rw_send_ctrl_def split: option.split)

lemma outs_ok_finish:
  assumes "outs_ok cfg s"
  shows "outs_ok cfg (finish res s)"
proof -
  have "outs_fine cfg (rws (finish res s) ! i)" if "i < length (rws s)" for i
    using that assms by (simp add: rws_finish outs_fine_stop outs_ok_def)
  then have "\<forall>rw \<in> set (rws (finish res s)). outs_fine cfg rw" by (auto simp: in_set_conv_nth)
  with assms show ?thesis by (simp add: outs_ok_def finish_def)
qed

lemma outs_ok_wait:
  assumes "outs_ok cfg s"
  shows "outs_ok cfg (do_wait ev order s)"
proof -
  obtain c resp nxt where 1: "wait_step ev (coord s) = (c, resp, nxt)" by (rule prod_cases3)
  then have "c_cfg c = c_cfg (coord s)"
    by (cases ev) (auto simp: wait_step_def registerRemoteWorker_def unregisterRemoteWorker_def Let_def
        split: if_splits prod.splits)
  then have "outs_ok cfg (answer_reg ev resp (s\<lparr>coord := c\<rparr>))"
    using assms rws_answer_reg [of "s\<lparr>coord := c\<rparr>" "outs_fine cfg" ev resp] by (simp add: outs_ok_def)
  then show ?thesis by (simp add: do_wait_def 1 outs_ok_finish Let_def split: wait_next.split)
qed

lemma outs_ok_test:
  assumes "outs_ok cfg s"
  shows "outs_ok cfg (do_test ev s)"
proof -
  obtain c n r where 1: "test_step ev (coord s, completed s) = ((c, n), r)" by (metis prod.exhaust)
  then have "c_cfg c = c_cfg (coord s)"
    by (cases ev) (auto simp: test_step_def handle_update_def unregisterRemoteWorker_def Let_def
        split: if_splits option.splits)
  then have "outs_ok cfg (s\<lparr>coord := c, completed := n\<rparr>)"
    "outs_ok cfg (s\<lparr>completed := n, coord := leave_testing c\<rparr>)"
    using assms by (simp_all add: outs_ok_def leave_testing_def)
  then show ?thesis by (simp add: do_test_def 1 outs_ok_finish Let_def split: option.split)
qed

lemma sys_step_outs:
  assumes "sys_step reads s t" and "outs_ok cfg s"
  shows "outs_ok cfg t"
proof -
  have at: "outs_fine cfg (rws s ! k)" if "k < length (rws s)" for k
    using assms(2) that by (simp add: outs_ok_def)
  from assms(1) show ?thesis
  proof (cases rule: sys_step.cases)
    case connect
    with assms(2) show ?thesis by (simp add: outs_ok_def)
  next
    case (local k rw')
    with assms(2) at rw_local_outs [of _ cfg] show ?thesis
      by (auto intro!: outs_ok_set simp: outs_ok_def [of _ s])
  next
    case (forward k m)
    with assms(2) at show ?thesis by (auto intro!: outs_ok_set simp: rw_forwarded_def)
  next
    case (tell_start w k ws)
    with assms(2) at show ?thesis by (auto intro!: outs_ok_set simp: rw_send_ctrl_def)
  next
    case (start_answer k ws)
    with assms(2) at show ?thesis by (auto intro!: outs_ok_set simp: rw_set_state_eq)
  next
    case (all_started now)
    with assms(2) show ?thesis by (simp add: outs_ok_def enter_testing_def)
  qed (use assms(2) at in \<open>auto intro!: outs_ok_set outs_ok_wait outs_ok_test outs_ok_finish\<close>)
qed

lemma outs_on_wire:
  assumes "outs_fine cfg rw" and "config_ints cfg" and "m \<in> set (rw_out rw)" and "on_wire m = Inr m'"
  shows "W_Config m' \<in> {None, Some cfg}"
proof -
  have m: "in_i64 (W_TxCount m)" "in_i64 (W_TotalTxBytes m)" "W_Config m \<in> {None, Some cfg}"
    using assms(1,3) by (auto simp: outs_fine_def list_all_iff)
  with assms(2) have "on_wire m = Inr m" by (intro on_wire_same) auto
  with m(3) assms(4) show ?thesis by simp
qed

definition configured :: "config \<Rightarrow> 'w worker \<Rightarrow> bool" where
  "configured cfg w \<longleftrightarrow> k_cfg w = cfg \<or> k_run w = None \<and>
     (k_pc w \<in> {W_Connecting, W_Registering, W_AwaitingReply} \<or> (\<exists>e. k_pc w = W_Ended (Some e)))"

text \<open>Only the answer to its registration configures a worker.\<close>

lemma worker_step_cfg:
  assumes "worker_step reg env w w'" and "k_pc w \<noteq> W_AwaitingReply \<or> k_pc w' = k_pc w"
  shows "k_cfg w' = k_cfg w \<and> (k_pc w \<in> {W_Connecting, W_Registering, W_AwaitingReply} \<or>
      (\<exists>e. k_pc w = W_Ended (Some e)) \<longrightarrow> k_run w = None \<longrightarrow> k_run w' = None \<and>
      (k_pc w' \<in> {W_Connecting, W_Registering, W_AwaitingReply} \<or> (\<exists>e. k_pc w' = W_Ended (Some e))))"
  using assms(1)
proof (cases rule: worker_step.cases)
  case (registered r res)
  with assms(2) show ?thesis
    by (auto simp: w_registered_def fail_end_def split: sum.splits option.splits if_splits)
next
  case (progress r r' nb res)
  then show ?thesis by (simp add: w_reportProgress_def w_say_def w_cancel_group_def Let_def
      split: option.split prod.split)
qed (auto simp: w_connect_def w_register_def w_poll_def w_add_def w_start_def setInterrupt_def
    w_waited_def w_reportFinalResults_def fail_end_def w_fail_def w_say_def removeInterrupt_def
    triggerInterrupts_def w_cancel_group_def running_def Let_def
    split: connect_event.splits option.splits sum.splits if_splits)

lemma configured_step:
  "worker_step reg env w w' \<Longrightarrow> k_pc w \<noteq> W_AwaitingReply \<or> k_pc w' = k_pc w \<Longrightarrow> configured cfg w \<Longrightarrow> configured cfg w'"
  using worker_step_cfg [of reg env w w'] by (auto simp: configured_def)


lemma configured_reply:
  assumes "configured cfg w" and "k_pc w = W_AwaitingReply" and "config_ints cfg" and "outs_fine cfg rw"
    and "worker_reads rw l r l'"
  shows "configured cfg (w_registered reg r res w)"
proof -
  have "W_Config m \<in> {None, Some cfg}" if r: "r = Inr m" for m
  proof -
    have "read_out l < length (rw_out rw)" "on_wire (rw_out rw ! read_out l) = Inr m"
      using assms(5) r by (auto simp: worker_reads_def)
    then show ?thesis using outs_on_wire [OF assms(4,3) nth_mem] by simp
  qed
  with assms(1,2) show ?thesis
    by (auto simp: configured_def w_registered_def fail_end_def w_fail_def w_say_def
        split: sum.split option.split if_splits)
qed

definition config_ok :: "config \<Rightarrow> 'w whole \<Rightarrow> bool" where
  "config_ok cfg s \<longleftrightarrow> whole_ok s \<and> config_ints cfg \<and> outs_ok cfg (sys s) \<and> list_all (configured cfg) (wks s)"

lemma whole_step_config_ok:
  assumes "whole_step reg env s t" and "config_ok cfg s"
  shows "config_ok cfg t"
proof -
  have ok: "whole_ok s" and n: "length (links s) = length (rws (sys s))"
    using assms(2) by (simp_all add: config_ok_def whole_ok_def)
  have "outs_ok cfg (sys t)"
    using whole_step_sys [OF assms(1) n] assms(2) sys_step_outs by (auto simp: config_ok_def)
  moreover have "configured cfg (wks t ! i)" if i: "i < length (wks s)" for i
  proof -
    have c: "configured cfg (wks s ! i)" using assms(2) i by (simp add: config_ok_def list_all_length)
    show ?thesis
    proof (cases "k_pc (wks s ! i) = W_AwaitingReply \<and> k_pc (wks t ! i) \<noteq> W_AwaitingReply")
      case False
      with whole_step_worker [OF assms(1) i] c show ?thesis
        by (elim disjE) (auto intro: configured_step)
    next
      case True
      from assms(1) show ?thesis
      proof (cases rule: whole_step.cases)
        case (reply k j r l w' res qs)
        have "outs_fine cfg (rws (sys s) ! k)"
          using assms(2) reply(2) n by (simp add: config_ok_def outs_ok_def)
        moreover have "config_ints cfg" using assms(2) by (simp add: config_ok_def)
        ultimately have "configured cfg (w_registered reg r res (wks s ! i))"
          using configured_reply [OF c] True reply(5) by blast
        with reply c i show ?thesis by (cases "i = j") simp_all
      next
        case (worker j w' qs)
        with True c i show ?thesis by (cases "i = j") simp_all
      next
        case (trap j)
        with True show ?thesis by (cases "i = j") (auto simp: triggerInterrupts_def w_cancel_group_def)
      next
        case (trapped j)
        with True i show ?thesis by (cases "i = j") simp_all
      next
        case (dial j)
        with True c i show ?thesis by (cases "i = j") simp_all
      next
        case (dial_fails j ev)
        with True c i show ?thesis by (cases "i = j") simp_all
      next
        case (poll k j r l w' res qs)
        with True c i show ?thesis by (cases "i = j") simp_all
      qed (use c in simp_all)
    qed
  qed
  ultimately show ?thesis
    using assms(2) whole_step_ok [OF assms(1) ok] whole_step_length [OF assms(1)]
    by (simp add: config_ok_def list_all_length)
qed

interpretation config_inv: kept_by_relation "whole_step reg env" "config_ok cfg" for reg env cfg
  by unfold_locales (rule whole_step_config_ok)

lemma config_ok_start:
  assumes "list_all fresh_worker ws" and "config_ints cfg"
  shows "config_ok cfg (whole_start cfg ccfg ws)"
proof -
  have "configured cfg w" if "fresh_worker w" for w :: "'a worker"
    using that by (auto simp: fresh_worker_def NewWorker_def configured_def Let_def split: if_splits)
  then show ?thesis
    using assms whole_start_ok [OF assms(1), of cfg ccfg]
    by (simp add: config_ok_def whole_start_def outs_ok_def system_start_def enter_waiting_def
        NewCoordinator_def list_all_iff)
qed

subsection \<open>Success\<close>

text \<open>A worker has run a load test to its end, and what its transactors then counted.\<close>

definition tested :: "config \<Rightarrow> 'w worker \<Rightarrow> bool" where
  "tested cfg w \<longleftrightarrow> k_cfg w = cfg \<and>
     (case k_run w of
        None \<Rightarrow> False
      | Some r \<Rightarrow> list_all (\<lambda>m. pc m = Returned) (members r) \<and> g_Wait r = None)"

definition worker_txs :: "'w worker \<Rightarrow> int" where
  "worker_txs w = (case k_run w of None \<Rightarrow> 0 | Some r \<Rightarrow> go_sum (map (\<lambda>m. txCount (tr m)) (members r)))"

definition worker_bytes :: "'w worker \<Rightarrow> int" where
  "worker_bytes w = (case k_run w of None \<Rightarrow> 0 | Some r \<Rightarrow> go_sum (map (\<lambda>m. txBytes (tr m)) (members r)))"

lemma completion_tested:
  assumes "completion w m" and "configured cfg w"
  shows "tested cfg w" and "W_TxCount m = worker_txs w" and "W_TotalTxBytes m = worker_bytes w"
    and "W_State m = workerCompleted"
proof -
  obtain r where r: "k_run w = Some r" "ended_well (length (k_clients w)) r"
    "m = results_msg workerCompleted w (totalTxs (grp r)) (totalBytes (grp r))"
    using assms(1) by (auto simp: completion_def)
  then have g: "group_ok (length (k_clients w)) r" "wait_done r" "g_Wait r = None"
    by (simp_all add: ended_well_def)
  show "tested cfg w"
    using assms(2) r(1) wait_totals(3) [OF g(1,2)] g(3) by (auto simp: tested_def configured_def)
  show "W_TxCount m = worker_txs w" "W_TotalTxBytes m = worker_bytes w" "W_State m = workerCompleted"
    using r wait_totals(1,2) [OF g(1,2)] by (simp_all add: worker_txs_def worker_bytes_def results_msg_def)
qed

text \<open>Summing a map whose entries outside a set are zero.\<close>

lemma sum_gvals: "gwf m \<Longrightarrow> sum_list (gvals m) = (\<Sum>u \<in> set (gkeys m). the (gget m u))"
proof (induction m)
  case (Cons p m)
  obtain u v where p: "p = (u, v)" by (cases p)
  with Cons.prems have "gwf m" "u \<notin> set (gkeys m)" by (auto simp: gwf_def)
  moreover have "(\<Sum>x \<in> set (gkeys m). the (gget (p # m) x)) = (\<Sum>x \<in> set (gkeys m). the (gget m x))"
    using calculation(2) by (intro sum.cong) (auto simp: p)
  ultimately show ?case using Cons.IH by (simp add: p)
qed simp

lemma sum_gvals_on:
  assumes "gwf m" and "finite R" and "\<And>u. u \<in> R \<Longrightarrow> gget m u = Some (f u)"
    and "\<And>u. u \<notin> R \<Longrightarrow> gget m u \<in> {None, Some 0}"
  shows "sum_list (gvals m) = sum f R"
proof -
  have "R \<subseteq> set (gkeys m)" using assms(3) by (force simp: map_of_eq_Some_iff dest: map_of_SomeD)
  then have "(\<Sum>u \<in> set (gkeys m). the (gget m u)) = (\<Sum>u \<in> R. the (gget m u))"
  proof (intro sum.mono_neutral_right ballI)
    fix u
    assume u: "u \<in> set (gkeys m) - R"
    then have "gget m u \<noteq> None" by (simp add: map_of_eq_None_iff)
    with u assms(4) [of u] show "the (gget m u) = 0" by auto
  qed (use \<open>R \<subseteq> _\<close> in simp_all)
  also have "\<dots> = sum f R" using assms(3) by (intro sum.cong) simp_all
  finally show ?thesis using sum_gvals [OF assms(1)] by simp
qed


text \<open>The connections behind a success are all settled, and stand for the ids of the start.\<close>

lemma settled_ids:
  assumes "links_ok ids gots s" and "tallied R ids gots s" and "expectedWorkers (coord s) \<le> completed s"
  defines "K \<equiv> {k. k < length ids \<and> settled ids gots s k \<and> ids ! k \<in> R}"
  shows "inj_on ((!) ids) K" and "(!) ids ` K = R" and "finite K"
proof -
  show inj: "inj_on ((!) ids) K"
    using assms(1) by (auto simp: K_def inj_on_def links_ok_def nth_eq_iff_index_eq)
  show "finite K" by (simp add: K_def)
  have R: "finite R" "int (card R) = expectedWorkers (coord s)" "completed s \<le> int (card K)"
    using assms(2) by (simp_all add: tallied_def K_def)
  have "card R \<le> card ((!) ids ` K)" using R(2,3) assms(3) card_image [OF inj] by simp
  moreover have "(!) ids ` K \<subseteq> R" by (auto simp: K_def)
  ultimately show "(!) ids ` K = R" using R(1) by (intro card_seteq)
qed

text \<open>C1: the success of a whole distributed load test.  In every schedule of a coordinator process and of
  any workers with different ids, over connections on which reads and writes can fail: when the
  coordinator returns without error, exactly the expected number of workers have each run the load
  test with exactly the coordinator's configuration to its end, all their transactors returned and
  none of the collected results an error; and when each of them sent something, the totals that the
  coordinator reports are exactly the sums of what all their transactors counted.\<close>

theorem whole_success:
  assumes "1 \<le> ExpectWorkers ccfg" and "list_all fresh_worker ws" and "distinct (map k_id ws)"
    and "config_ints cfg" and run: "(whole_step reg env)\<^sup>*\<^sup>* (whole_start cfg ccfg ws) s"
    and "cpc (sys s) = C_Returned None"
  shows "\<exists>I. I \<subseteq> {..<length (wks s)} \<and> int (card I) = ExpectWorkers ccfg \<and>
    (\<forall>i \<in> I. tested cfg (wks s ! i)) \<and>
    ((\<forall>i \<in> I. 0 < worker_txs (wks s ! i)) \<longrightarrow>
       c_totalTxs (coord (sys s)) = i64 (\<Sum>i \<in> I. worker_txs (wks s ! i))) \<and>
    ((\<forall>i \<in> I. 0 < worker_bytes (wks s ! i)) \<longrightarrow>
       c_totalBytes (coord (sys s)) = i64 (\<Sum>i \<in> I. worker_bytes (wks s ! i)))"
proof -
  have sok: "system_ok ccfg s" using run system_ok_start [OF assms(1-3)] by (rule system_inv.run_keeps)
  have cok: "config_ok cfg s" using run config_ok_start [OF assms(2,4)] by (rule config_inv.run_keeps)
  have ok: "whole_ok s" and reg: "registry_ok (coord (sys s))" and ccfg: "coordCfg (coord (sys s)) = ccfg"
    using sok by (simp_all add: system_ok_def start_ok_def)
  let ?ids = "ids_of s" and ?S = "sys s"
  let ?c = "coord ?S" and ?w = "\<lambda>k. wks s ! l_worker (links s ! k)"
  obtain R where R: "tallied R ?ids (gots_of s) ?S" "expectedWorkers ?c \<le> completed ?S" "final_counts ?c"
    using sok assms(6) by (auto simp: system_ok_def account_def)
  have lok: "links_ok ?ids (gots_of s) ?S" using sok by (intro links_ok_of) (simp_all add: system_ok_def)
  define K where "K = {k. k < length ?ids \<and> settled ?ids (gots_of s) ?S k \<and> ?ids ! k \<in> R}"
  note K = settled_ids [OF lok R(1,2), folded K_def]
  define I where "I = (\<lambda>k. l_worker (links s ! k)) ` K"
  have inj: "inj_on (\<lambda>k. l_worker (links s ! k)) K"
  proof (rule inj_onI)
    fix x y
    assume a: "x \<in> K" "y \<in> K" "l_worker (links s ! x) = l_worker (links s ! y)"
    then have "x < length (links s)" "y < length (links s)" by (simp_all add: K_def ids_of_def)
    moreover have "distinct (map l_worker (links s))" using ok by (simp add: whole_ok_def)
    ultimately show "x = y" using a(3) nth_eq_iff_index_eq [of "map l_worker (links s)" x y] by simp
  qed
  have at: "l_worker (links s ! k) < length (wks s) \<and> tested cfg (?w k) \<and>
      (0 < worker_txs (?w k) \<longrightarrow> gget (totalTxsPerWorker ?c) (?ids ! k) = Some (worker_txs (?w k))) \<and>
      (0 < worker_bytes (?w k) \<longrightarrow> gget (totalBytesPerWorker ?c) (?ids ! k) = Some (worker_bytes (?w k)))"
    if k: "k \<in> K" for k
  proof -
    have n: "k < length (links s)" "pc_done (rw_pc (rws ?S ! k))"
      using k ok by (auto simp: K_def ids_of_def settled_def whole_ok_def pcs_at)
    then have i: "l_worker (links s ! k) < length (wks s)" using ok by (auto simp: whole_ok_def)
    then have cfg: "configured cfg (?w k)" using cok by (simp add: config_ok_def list_all_length)
    obtain m where m: "m \<in> set (got (links s ! k))" "W_State m = workerCompleted"
      using n ok by (auto simp: whole_ok_def link_fine_def)
    note c = completion_tested [OF got_said(2) [OF ok n(1) m] cfg]
    have "recorded ?c m" using k m n(1) by (simp add: K_def settled_def gots_of_def)
    moreover have "W_ID m = ?ids ! k" using got_said(1) [OF ok n(1) m(1)] n(1) by (simp add: ids_of_def)
    ultimately show ?thesis using c i n(1) by (simp add: recorded_def ids_of_def)
  qed
  have total: "go_sum (gvals M) = i64 (\<Sum>i \<in> I. f (wks s ! i))"
    if M: "gwf M" "\<And>u. u \<notin> R \<Longrightarrow> gget M u \<in> {None, Some 0}"
      and f: "\<And>k. k \<in> K \<Longrightarrow> gget M (?ids ! k) = Some (f (?w k))" for M and f :: "'a worker \<Rightarrow> int"
  proof -
    have "sum_list (gvals M) = (\<Sum>u \<in> R. the (gget M u))"
      using M K(2,3) f by (intro sum_gvals_on) auto
    also have "\<dots> = (\<Sum>k \<in> K. f (?w k))"
      using f by (simp add: K(2) [symmetric] sum.reindex [OF K(1)])
    also have "\<dots> = (\<Sum>i \<in> I. f (wks s ! i))" by (simp add: I_def sum.reindex [OF inj])
    finally show ?thesis by (simp add: go_sum_eq)
  qed
  have zero: "u \<notin> R \<Longrightarrow> gget (totalTxsPerWorker ?c) u \<in> {None, Some 0}"
    "u \<notin> R \<Longrightarrow> gget (totalBytesPerWorker ?c) u \<in> {None, Some 0}" for u
    using R(1) by (auto simp: tallied_def no_counts_def)
  have "int (card I) = ExpectWorkers ccfg"
    using card_image [OF inj] card_image [OF K(1)] K(2) R(1) ccfg by (simp add: I_def tallied_def)
  moreover have "c_totalTxs ?c = i64 (\<Sum>i \<in> I. worker_txs (wks s ! i))"
    if pos: "\<forall>i \<in> I. 0 < worker_txs (wks s ! i)"
  proof -
    have "go_sum (gvals (totalTxsPerWorker ?c)) = i64 (\<Sum>i \<in> I. worker_txs (wks s ! i))"
      using reg pos at zero(1) by (intro total) (auto simp: registry_ok_def I_def)
    with R(3) show ?thesis by (simp add: final_counts_def)
  qed
  moreover have "c_totalBytes ?c = i64 (\<Sum>i \<in> I. worker_bytes (wks s ! i))"
    if pos: "\<forall>i \<in> I. 0 < worker_bytes (wks s ! i)"
  proof -
    have "go_sum (gvals (totalBytesPerWorker ?c)) = i64 (\<Sum>i \<in> I. worker_bytes (wks s ! i))"
      using reg pos at zero(2) by (intro total) (auto simp: registry_ok_def I_def)
    with R(3) show ?thesis by (simp add: final_counts_def)
  qed
  moreover have "I \<subseteq> {..<length (wks s)} \<and> (\<forall>i \<in> I. tested cfg (wks s ! i))"
    using at by (auto simp: I_def)
  ultimately show ?thesis by (intro exI [of _ I]) blast
qed

text \<open>One worker with one transactor that sends its limit of 10.\<close>

theorem whole_success_witness:
  "\<exists>s. (whole_step demo_registry (\<lambda>_. demo_env 1))\<^sup>*\<^sup>* (whole_start solo_cfg one_worker [demo_worker]) s \<and>
     cpc (sys s) = C_Returned None \<and> length (wks s) = 1 \<and> tested solo_cfg (wks s ! 0) \<and>
     worker_txs (wks s ! 0) = 10 \<and> c_totalTxs (coord (sys s)) = 10"
proof -
  obtain s r w where s: "(whole_step demo_registry (\<lambda>_. demo_env 1))\<^sup>*\<^sup>* (whole_start solo_cfg one_worker [demo_worker]) s"
    "cpc (sys s) = C_Returned None" "wks s = [w]" "k_run w = Some r" "length (members r) = 1"
    "txCount (tr (members r ! 0)) = 10"
    using demo_success_whole by blast
  have "members r = [members r ! 0]" using s(5) by (cases "members r") auto
  then have "map (\<lambda>m. txCount (tr m)) (members r) = [10]" using s(6) by (metis list.simps(8,9))
  then have txs: "worker_txs w = 10" by (simp add: worker_txs_def s(4) go_sum_eq i64_def)
  have "1 \<le> ExpectWorkers one_worker" "list_all fresh_worker [demo_worker]" "distinct (map k_id [demo_worker])"
    using demo_worker_new by (auto simp: fresh_worker_def)
  moreover have "config_ints solo_cfg" by (simp add: config_ints_def solo_cfg_def flag_defaults_def in_i64_def)
  ultimately obtain I where I: "I \<subseteq> {..<length (wks s)}" "int (card I) = ExpectWorkers one_worker"
    "\<forall>i \<in> I. tested solo_cfg (wks s ! i)"
    "(\<forall>i \<in> I. 0 < worker_txs (wks s ! i)) \<longrightarrow>
      c_totalTxs (coord (sys s)) = i64 (\<Sum>i \<in> I. worker_txs (wks s ! i))"
    using whole_success [OF _ _ _ _ s(1,2)] by metis
  have "I \<subseteq> {0}" "card I = 1" using I(1,2) by (auto simp: s(3))
  then have "I = {0}" by (auto simp: card_1_singleton_iff)
  with I s txs show ?thesis by (intro exI [of _ s]) (simp add: i64_def)
qed

end
