(* ===== verification/Signal_Trap.thy ===== *)
theory Signal_Trap
  imports Go_Prelude
begin

section \<open>Interrupt traps (cli.go)\<close>

text \<open>
  \<open>trapInterrupts\<close> makes a channel for signals with one place, and a goroutine that waits for a
  signal or for the trap to be cancelled, whichever it sees first.  The caller's \<open>onKill\<close> is called
  when the goroutine fires; the callers close \<open>cancelTrap\<close> when their work is done.
\<close>

datatype trap_pc = Armed | Fired | Disarmed

record trap =
  sigc :: nat
  cancelTrap :: bool
  trap_pc :: trap_pc

definition trapInterrupts :: trap where
  "trapInterrupts = \<lparr>sigc = 0, cancelTrap = False, trap_pc = Armed\<rparr>"

text \<open>The runtime delivers a signal to every channel that has a place for it and drops it otherwise.\<close>

definition notify :: "trap \<Rightarrow> trap" where
  "notify t = t\<lparr>sigc := 1\<rparr>"

definition closeTrap :: "trap \<Rightarrow> trap" where
  "closeTrap t = t\<lparr>cancelTrap := True\<rparr>"

definition can_fire :: "trap \<Rightarrow> bool" where
  "can_fire t \<longleftrightarrow> trap_pc t = Armed \<and> sigc t = 1"

definition fire :: "trap \<Rightarrow> trap" where
  "fire t = t\<lparr>sigc := 0, trap_pc := Fired\<rparr>"

definition can_disarm :: "trap \<Rightarrow> bool" where
  "can_disarm t \<longleftrightarrow> trap_pc t = Armed \<and> cancelTrap t"

definition disarm :: "trap \<Rightarrow> trap" where
  "disarm t = t\<lparr>trap_pc := Disarmed\<rparr>"

text \<open>The goroutine and its surroundings; the label says whether \<open>onKill\<close> is called.\<close>

inductive trap_step :: "bool \<Rightarrow> trap \<Rightarrow> trap \<Rightarrow> bool" where
  signal: "trap_step False t (notify t)"
| close_trap: "trap_step False t (closeTrap t)"
| fires: "can_fire t \<Longrightarrow> trap_step True t (fire t)"
| disarms: "can_disarm t \<Longrightarrow> trap_step False t (disarm t)"

inductive trap_run :: "bool list \<Rightarrow> trap \<Rightarrow> trap \<Rightarrow> bool" where
  none: "trap_run [] t t"
| more: "trap_step k t t' \<Longrightarrow> trap_run ks t' t'' \<Longrightarrow> trap_run (k # ks) t t''"

inductive_cases trap_step_elim: "trap_step k t t'"

lemmas trap_defs = notify_def closeTrap_def can_fire_def fire_def can_disarm_def disarm_def

lemma trap_over: "trap_run ks t t' \<Longrightarrow> trap_pc t \<noteq> Armed \<Longrightarrow> True \<notin> set ks \<and> trap_pc t' = trap_pc t"
proof (induction rule: trap_run.induct)
  case (more k t t' ks t'')
  from more.hyps(1) more.prems have "\<not> k \<and> trap_pc t' = trap_pc t"
    by (auto elim: trap_step_elim simp: trap_defs)
  with more show ?case by simp
qed simp

lemma trap_fired_once:
  "trap_run ks t t' \<Longrightarrow> trap_pc t = Armed \<Longrightarrow>
   (trap_pc t' = Fired \<longleftrightarrow> True \<in> set ks) \<and> length (filter (\<lambda>k. k) ks) = of_bool (trap_pc t' = Fired)"
proof (induction rule: trap_run.induct)
  case (more k t t' ks t'')
  show ?case
  proof (cases "trap_pc t' = Armed")
    case True
    with more.hyps(1) more.prems have "\<not> k" by (auto elim: trap_step_elim simp: trap_defs)
    with more True show ?thesis by simp
  next
    case False
    with trap_over [OF more.hyps(2)] have "True \<notin> set ks" "trap_pc t'' = trap_pc t'" by simp_all
    moreover from False more.hyps(1) more.prems have "trap_pc t' = (if k then Fired else Disarmed)"
      by (auto elim: trap_step_elim simp: trap_defs)
    moreover from \<open>True \<notin> set ks\<close> have "filter (\<lambda>k. k) ks = []" by (metis filter_False)
    ultimately show ?thesis by simp
  qed
qed simp

text \<open>However many signals come, in any order with the closing, \<open>onKill\<close> is called at most once, and
  it is called exactly if the trap ends as fired; after its end a signal does nothing at all.\<close>

lemma trap_kills_once:
  assumes "trap_run ks trapInterrupts t"
  shows "length (filter (\<lambda>k. k) ks) \<le> 1" and "trap_pc t = Fired \<longleftrightarrow> True \<in> set ks"
    and "trap_run ks' t t' \<Longrightarrow> trap_pc t \<noteq> Armed \<Longrightarrow> True \<notin> set ks'"
  using trap_fired_once [OF assms] trap_over [of ks' t t'] by (simp_all add: trapInterrupts_def)

text \<open>Closing the trap does not settle the race with a signal that has already arrived.\<close>

lemma trap_fires_after_close:
  "trap_run [False, False, True] trapInterrupts (fire (closeTrap (notify trapInterrupts)))"
proof -
  have "trap_step True (closeTrap (notify trapInterrupts)) (fire (closeTrap (notify trapInterrupts)))"
    by (rule trap_step.fires) (simp add: trap_defs trapInterrupts_def)
  then show ?thesis
    by (rule trap_run.more [OF trap_step.signal trap_run.more [OF trap_step.close_trap trap_run.more [OF _ trap_run.none]]])
qed

end
