(* ===== verification/Coord_Process.thy ===== *)
theory Coord_Process
  imports Coord_System Load_Transactor Signal_Trap
begin

section \<open>The process of a coordinator: metrics, interrupts and shutdown\<close>

text \<open>
  Around the goroutines of Coord_System, a coordinator process has a metrics registry, an interrupt
  trap, a web server and the graceful shutdown that is deferred to the end of \<open>Coordinator.Run\<close>.
  Coord_System lets the stop channel and the server's end be seen at any time and creates no
  metrics; here they are tied to what causes them.  The registry belongs to the Prometheus library:
  \<open>newGauge name r\<close> is the registry with one gauge more, or a panic (\<open>None\<close>); what is used of it is
  stated by \<open>registry_contract\<close>.
\<close>

subsection \<open>Metrics\<close>

text \<open>
  \<open>promauto\<close> panics when the registration fails, which it does for a name that is not a valid metric
  name and for a name that is already registered.
\<close>

definition registry_contract ::
  "('r \<Rightarrow> string set) \<Rightarrow> (string \<Rightarrow> bool) \<Rightarrow> (string \<Rightarrow> 'r \<Rightarrow> 'r option) \<Rightarrow> bool" where
  "registry_contract names valid newGauge \<longleftrightarrow>
     (\<forall>n r. newGauge n r = None \<longleftrightarrow> \<not> valid n \<or> n \<in> names r) \<and>
     (\<forall>n r r'. newGauge n r = Some r' \<longrightarrow> names r' = insert n (names r))"

fun newGauges :: "(string \<Rightarrow> 'r \<Rightarrow> 'r option) \<Rightarrow> string list \<Rightarrow> 'r \<Rightarrow> 'r option" where
  "newGauges newGauge [] r = Some r"
| "newGauges newGauge (n # ns) r =
     (case newGauge n r of None \<Rightarrow> None | Some r' \<Rightarrow> newGauges newGauge ns r')"

definition coordinator_gauges :: "string list" where
  "coordinator_gauges =
     [''tmloadtest_coordinator_state'', ''tmloadtest_coordinator_total_txs'',
      ''tmloadtest_coordinator_total_bytes'', ''tmloadtest_coordinator_tx_rate'',
      ''tmloadtest_coordinator_tx_data_rate'', ''tmloadtest_coordinator_overall_tx_rate'',
      ''tmloadtest_coordinator_workers_completed'', ''tmloadtest_coordinator_test_underway'']"

definition worker_gauges :: "string \<Rightarrow> string list" where
  "worker_gauges w =
     [''tmloadtest_worker_'' @ w @ ''_state'', ''tmloadtest_worker_'' @ w @ ''_total_txs'']"

definition createMetrics ::
  "(string \<Rightarrow> 'r \<Rightarrow> 'r option) \<Rightarrow> remote_worker \<Rightarrow> 'r \<Rightarrow> (remote_worker \<times> 'r) option" where
  "createMetrics newGauge rw r =
     map_option (Pair (rw\<lparr>rw_metric := Some (workerStateMetricValues workerAccepted)\<rparr>))
       (newGauges newGauge (worker_gauges (rw_id rw)) r)"

subsection \<open>The process\<close>

text \<open>
  What \<open>Run\<close> is at: its loops, then its deferred calls: the trap is closed, the post-shutdown wait
  follows unless the run was cancelled, then the server is shut down and its end awaited.  \<open>p_spent\<close>
  is the time these calls have taken.
\<close>

datatype phase = Looping | ShuttingDown | PostWait | ClosingServer | AwaitServer | Exited

record 'r coord_process =
  p_sys :: system
  p_metrics :: 'r
  p_trap :: trap
  p_waitTrap :: trap
  p_cancelled :: bool
  p_stop :: bool
  p_svrStopped :: bool
  p_phase :: phase
  p_spent :: duration

text \<open>
  \<open>NewCoordinator\<close> with its metrics, up to the start of the loops of \<open>Run\<close>; the ticker of the
  connect timeout panics when its interval is not positive.
\<close>

definition process_start ::
  "(string \<Rightarrow> 'r \<Rightarrow> 'r option) \<Rightarrow> 'r \<Rightarrow> config \<Rightarrow> coordinator_config \<Rightarrow> 'r coord_process option" where
  "process_start newGauge r cfg ccfg =
     map_option (\<lambda>r'. \<lparr>p_sys = system_start cfg ccfg, p_metrics = r', p_trap = trapInterrupts,
        p_waitTrap = trapInterrupts, p_cancelled = False, p_stop = False, p_svrStopped = False,
        p_phase = Looping, p_spent = 0\<rparr>)
       (if 0 < seconds_duration (WorkerConnectTimeout ccfg) then newGauges newGauge coordinator_gauges r else None)"

text \<open>A request to the server: a connection that cannot be upgraded is dropped.\<close>

definition newWebSocketHandler :: "go_error option \<Rightarrow> system \<Rightarrow> system" where
  "newWebSocketHandler upgrade s =
     (case upgrade of Some _ \<Rightarrow> s | None \<Rightarrow> s\<lparr>rws := rws s @ [newRemoteWorker]\<rparr>)"

text \<open>The flag of a cancelled run; \<open>setCancelled\<close> does not look at its argument.\<close>

definition setCancelled :: "bool \<Rightarrow> 'r coord_process \<Rightarrow> 'r coord_process" where
  "setCancelled cancelled p = p\<lparr>p_cancelled := True\<rparr>"

abbreviation wasCancelled :: "'r coord_process \<Rightarrow> bool" where
  "wasCancelled p \<equiv> p_cancelled p"

text \<open>The server's goroutine at its end, for whatever reason \<open>ListenAndServe\<close> returned.\<close>

definition runServer_ends :: "'r coord_process \<Rightarrow> 'r coord_process" where
  "runServer_ends p = p\<lparr>p_svrStopped := True\<rparr>"

text \<open>The \<open>onKill\<close> of the trap.\<close>

definition cancel_run :: "'r coord_process \<Rightarrow> 'r coord_process" where
  "cancel_run p =
     (setCancelled True p)\<lparr>p_stop := True,
       p_sys := (p_sys p)\<lparr>coord := (coord (p_sys p))\<lparr>stateMetric := coordFailed\<rparr>\<rparr>\<rparr>"

lemmas cancel_run_eq = cancel_run_def [unfolded setCancelled_def]

definition shutdown_wait :: "'r coord_process \<Rightarrow> duration" where
  "shutdown_wait p = seconds_duration (ShutdownWait (coordCfg (coord (p_sys p))))"

definition waits :: "'r coord_process \<Rightarrow> bool" where
  "waits p \<longleftrightarrow> \<not> wasCancelled p \<and> 0 < ShutdownWait (coordCfg (coord (p_sys p)))"

definition coordShutdownTimeout :: duration where
  "coordShutdownTimeout = 10 * second"

definition spend :: "duration \<Rightarrow> 'r coord_process \<Rightarrow> 'r coord_process" where
  "spend d p = p\<lparr>p_spent := p_spent p + d\<rparr>"

text \<open>
  The loops of \<open>Run\<close> see the stop channel and the server's end only when they are closed.  A pass that
  takes an update from its channel ends the test with the worker's own error, whatever its text.
\<close>

definition loop_end_seen :: "'r coord_process \<Rightarrow> system \<Rightarrow> bool" where
  "loop_end_seen p s' \<longleftrightarrow>
     (case (cpc (p_sys p), cpc s') of
        (C_Waiting, C_Returned (Some e)) \<Rightarrow>
          (e = ''wait routine cancelled'' \<longrightarrow> p_stop p) \<and> (e = ''web server stopped unexpectedly'' \<longrightarrow> p_svrStopped p)
      | (C_Testing, C_Returned (Some e)) \<Rightarrow>
          q_update s' \<noteq> q_update (p_sys p) \<or>
          (e = ''load testing cancelled'' \<longrightarrow> p_stop p) \<and> (e = ''web server stopped unexpectedly'' \<longrightarrow> p_svrStopped p)
      | _ \<Rightarrow> True)"

text \<open>A remote worker is told that it was accepted, which is where its metrics are created.\<close>

definition accepts :: "system \<Rightarrow> system \<Rightarrow> bool" where
  "accepts s s' \<longleftrightarrow>
     (\<exists>k < length (rws s). rw_pc (rws s ! k) = Accepting \<and> rw_pc (rws s' ! k) = WaitingStart)"

inductive process_step ::
  "(nat \<Rightarrow> go_error + workerMsg \<Rightarrow> bool) \<Rightarrow> (string \<Rightarrow> 'r \<Rightarrow> 'r option) \<Rightarrow>
   'r coord_process option \<Rightarrow> 'r coord_process option \<Rightarrow> bool" for reads newGauge where
  system: "sys_step reads (p_sys p) s' \<Longrightarrow> loop_end_seen p s' \<Longrightarrow> \<not> accepts (p_sys p) s' \<Longrightarrow>
    length (rws s') = length (rws (p_sys p)) \<Longrightarrow>
    process_step reads newGauge (Some p) (Some (p\<lparr>p_sys := s'\<rparr>))"
| request: "\<not> p_svrStopped p \<Longrightarrow>
    process_step reads newGauge (Some p) (Some (p\<lparr>p_sys := newWebSocketHandler upgrade (p_sys p)\<rparr>))"
| accept: "k < length (rws (p_sys p)) \<Longrightarrow> rw_pc (rws (p_sys p) ! k) = Accepting \<Longrightarrow>
    createMetrics newGauge (rw_accept (c_cfg (coord (p_sys p))) None None (rws (p_sys p) ! k)) (p_metrics p) = Some (rw', r') \<Longrightarrow>
    process_step reads newGauge (Some p) (Some (p\<lparr>p_sys := set_rw k rw' (p_sys p), p_metrics := r'\<rparr>))"
| panic: "k < length (rws (p_sys p)) \<Longrightarrow> rw_pc (rws (p_sys p) ! k) = Accepting \<Longrightarrow>
    createMetrics newGauge (rw_accept (c_cfg (coord (p_sys p))) None None (rws (p_sys p) ! k)) (p_metrics p) = None \<Longrightarrow>
    process_step reads newGauge (Some p) None"
| signal: "process_step reads newGauge (Some p)
    (Some (p\<lparr>p_trap := notify (p_trap p), p_waitTrap := if p_phase p = PostWait then notify (p_waitTrap p) else p_waitTrap p\<rparr>))"
| kill: "can_fire (p_trap p) \<Longrightarrow>
    process_step reads newGauge (Some p) (Some (cancel_run (p\<lparr>p_trap := fire (p_trap p)\<rparr>)))"
| disarm: "can_disarm (p_trap p) \<Longrightarrow> process_step reads newGauge (Some p) (Some (p\<lparr>p_trap := disarm (p_trap p)\<rparr>))"
| return: "p_phase p = Looping \<Longrightarrow> cpc (p_sys p) = C_Returned res \<Longrightarrow>
    process_step reads newGauge (Some p) (Some (p\<lparr>p_trap := closeTrap (p_trap p), p_phase := ShuttingDown\<rparr>))"
| wait: "p_phase p = ShuttingDown \<Longrightarrow> waits p \<Longrightarrow>
    process_step reads newGauge (Some p) (Some (p\<lparr>p_waitTrap := trapInterrupts, p_phase := PostWait\<rparr>))"
| no_wait: "p_phase p = ShuttingDown \<Longrightarrow> \<not> waits p \<Longrightarrow>
    process_step reads newGauge (Some p) (Some (p\<lparr>p_phase := ClosingServer\<rparr>))"
| wait_over: "p_phase p = PostWait \<Longrightarrow>
    process_step reads newGauge (Some p) (Some (spend (max 0 (shutdown_wait p))
      (p\<lparr>p_waitTrap := closeTrap (p_waitTrap p), p_phase := ClosingServer\<rparr>)))"
| wait_killed: "p_phase p = PostWait \<Longrightarrow> can_fire (p_waitTrap p) \<Longrightarrow> 0 \<le> d \<Longrightarrow> d \<le> max 0 (shutdown_wait p) \<Longrightarrow>
    process_step reads newGauge (Some p) (Some (spend d (p\<lparr>p_waitTrap := fire (p_waitTrap p), p_phase := ClosingServer\<rparr>)))"
| server_shut: "p_phase p = ClosingServer \<Longrightarrow> 0 \<le> d \<Longrightarrow> d \<le> 5 * second \<Longrightarrow>
    process_step reads newGauge (Some p) (Some (spend d (p\<lparr>p_phase := AwaitServer\<rparr>)))"
| server_stops: "process_step reads newGauge (Some p) (Some (runServer_ends p))"
| exit: "p_phase p = AwaitServer \<Longrightarrow> p_svrStopped p \<Longrightarrow> 0 \<le> d \<Longrightarrow> d \<le> coordShutdownTimeout \<Longrightarrow>
    process_step reads newGauge (Some p) (Some (spend d (p\<lparr>p_phase := Exited\<rparr>)))"
| exit_timeout: "p_phase p = AwaitServer \<Longrightarrow>
    process_step reads newGauge (Some p) (Some (spend coordShutdownTimeout (p\<lparr>p_phase := Exited\<rparr>)))"

subsection \<open>The process and the system inside\<close>

text \<open>Every step of the process is one of the system, or leaves it alone up to the state gauge.\<close>

definition same_but_gauge :: "system \<Rightarrow> system \<Rightarrow> bool" where
  "same_but_gauge s s' \<longleftrightarrow> (\<exists>m. s' = s\<lparr>coord := (coord s)\<lparr>stateMetric := m\<rparr>\<rparr>)"

lemma same_but_gauge_refl [simp]: "same_but_gauge s s"
  by (auto simp: same_but_gauge_def intro: exI [of _ "stateMetric (coord s)"])

lemma runServer_ends_fields [simp]:
  "p_sys (runServer_ends p) = p_sys p" "p_metrics (runServer_ends p) = p_metrics p" "p_trap (runServer_ends p) = p_trap p"
  "p_cancelled (runServer_ends p) = p_cancelled p" "p_phase (runServer_ends p) = p_phase p"
  "p_spent (runServer_ends p) = p_spent p" "p_stop (runServer_ends p) = p_stop p"
  by (simp_all add: runServer_ends_def)

lemma createMetrics_rw:
  "createMetrics g (rw_accept cfg None None rw) r = Some (rw', r') \<Longrightarrow> rw' = rw_accept cfg None None rw"
  by (auto simp: createMetrics_def rw_accept_def rw_write_def)

lemma process_step_sys:
  assumes "process_step reads g (Some p) (Some q)"
  shows "sys_step reads (p_sys p) (p_sys q) \<or> same_but_gauge (p_sys p) (p_sys q)"
  using assms
proof (cases rule: process_step.cases)
  case (accept k rw' r')
  then show ?thesis
    using sys_step.local [OF accept(2) rw_local.accept [OF accept(3)]] createMetrics_rw [OF accept(4)] by simp
next
  case (request upgrade)
  then show ?thesis by (cases upgrade) (simp_all add: newWebSocketHandler_def sys_step.connect)
next
  case kill
  then show ?thesis by (auto simp: cancel_run_eq same_but_gauge_def)
qed (simp_all add: spend_def)

lemma process_step_from_panic: "\<not> process_step reads g None q"
  by (auto elim: process_step.cases)

text \<open>So what every step of the system keeps, and the state gauge does not matter to, a process keeps.\<close>

lemma process_keeps:
  assumes "(process_step reads g)\<^sup>*\<^sup>* (Some p) (Some q)" and "P (p_sys p)"
    and "\<And>s t. sys_step reads s t \<Longrightarrow> P s \<Longrightarrow> P t"
    and "\<And>s m. P s \<Longrightarrow> P (s\<lparr>coord := (coord s)\<lparr>stateMetric := m\<rparr>\<rparr>)"
  shows "P (p_sys q)"
proof -
  have "\<forall>q. x = Some q \<longrightarrow> P (p_sys q)" if "(process_step reads g)\<^sup>*\<^sup>* (Some p) x" for x
    using that
  proof (induction rule: rtranclp_induct)
    case (step y z)
    then obtain q where y: "y = Some q" "P (p_sys q)" using process_step_from_panic by (cases y) blast+
    have "P (p_sys q')" if "z = Some q'" for q'
      using process_step_sys [of reads g q q'] step.hyps(2) y assms(3,4) that
      by (auto simp: same_but_gauge_def)
    then show ?case by blast
  qed (use assms(2) in simp)
  with assms(1) show ?thesis by blast
qed

subsection \<open>What is in the registry\<close>

definition accepted :: "remote_worker \<Rightarrow> bool" where
  "accepted rw \<longleftrightarrow> workerAccepted \<in> set (told rw)"

definition acceptances :: "system \<Rightarrow> nat set" where
  "acceptances s = {k. k < length (rws s) \<and> accepted (rws s ! k)}"

text \<open>Only an acceptance makes a remote worker accepted, and its id is fixed from then on.\<close>

definition accept_kept :: "remote_worker \<Rightarrow> remote_worker \<Rightarrow> bool" where
  "accept_kept rw rw' \<longleftrightarrow> (told_ok rw \<longrightarrow>
     (accepted rw \<longrightarrow> accepted rw' \<and> rw_id rw' = rw_id rw) \<and>
     (accepted rw' \<longrightarrow> accepted rw \<or> rw_pc rw = Accepting \<and> rw_pc rw' = WaitingStart))"

lemma rw_local_accept_kept:
  assumes "rw_local reads cfg rw rw'"
  shows "accept_kept rw rw'"
  using assms
  by (cases rule: rw_local.cases)
    (auto simp: accept_kept_def accepted_def told_ok_def worker_states rw_readID_def rw_registered_def rw_accept_def
      rw_start_ctrl_def rw_update_ctrl_def rw_update_def rw_stopped_def Let_def
      split: sum.splits option.splits prod.splits if_splits rw_pc.splits)

interpretation accept_rel: remote_relation reads accept_kept for reads
  by unfold_locales
    (auto simp: rw_local_accept_kept, auto simp: accept_kept_def accepted_def still_def rw_forwarded_def)

lemma newGauges_fails:
  assumes "registry_contract names valid g"
  shows "newGauges g ns r = None \<longleftrightarrow> \<not> (distinct ns \<and> list_all valid ns \<and> set ns \<inter> names r = {})"
proof (induction ns arbitrary: r)
  case (Cons n ns)
  show ?case
  proof (cases "g n r")
    case None
    then have "\<not> valid n \<or> n \<in> names r" using assms unfolding registry_contract_def by metis
    then show ?thesis by (auto simp: None)
  next
    case (Some r')
    then have "valid n" "n \<notin> names r" "names r' = insert n (names r)"
      using assms by (metis option.distinct(1) registry_contract_def)+
    then show ?thesis by (auto simp: Some Cons.IH)
  qed
qed simp

lemma newGauges_names:
  assumes "registry_contract names valid g"
  shows "newGauges g ns r = Some r' \<Longrightarrow> names r' = names r \<union> set ns"
proof (induction ns arbitrary: r)
  case (Cons n ns)
  then obtain r1 where "g n r = Some r1" "newGauges g ns r1 = Some r'" by (auto split: option.splits)
  with Cons.IH [of r1] assms show ?case by (auto simp: registry_contract_def)
qed simp

text \<open>The two names of a worker determine it.\<close>

lemma worker_gauges_inj:
  assumes "n \<in> set (worker_gauges w)" and "n \<in> set (worker_gauges w')"
  shows "w = w'"
proof -
  have "last (''tmloadtest_worker_'' @ v @ ''_state'') \<noteq> last (''tmloadtest_worker_'' @ v' @ ''_total_txs'')" for v v'
    by simp
  then have "''tmloadtest_worker_'' @ v @ ''_state'' \<noteq> ''tmloadtest_worker_'' @ v' @ ''_total_txs''" for v v'
    by metis
  with assms show ?thesis by (fastforce simp: worker_gauges_def)
qed

definition gauges_of :: "system \<Rightarrow> string set" where
  "gauges_of s = (\<Union>k \<in> acceptances s. set (worker_gauges (rw_id (rws s ! k))))"

definition metrics_ok :: "coordinator_config \<Rightarrow> string set \<Rightarrow> ('r \<Rightarrow> string set) \<Rightarrow> 'r coord_process option \<Rightarrow> bool" where
  "metrics_ok ccfg before names x \<longleftrightarrow>
     (case x of None \<Rightarrow> True
      | Some p \<Rightarrow> start_ok ccfg (p_sys p) \<and>
          names (p_metrics p) = before \<union> set coordinator_gauges \<union> gauges_of (p_sys p) \<and>
          inj_on (\<lambda>k. rw_id (rws (p_sys p) ! k)) (acceptances (p_sys p)))"

lemma acceptances_step:
  assumes "sys_step reads s t" and "start_ok ccfg s" and "\<not> accepts s t"
  shows "acceptances t = acceptances s" and "k \<in> acceptances s \<Longrightarrow> rw_id (rws t ! k) = rw_id (rws s ! k)"
proof -
  have told: "told_ok (rws s ! k)" if "k < length (rws s)" for k
    using assms(2) that by (simp add: start_ok_def)
  have kept: "accept_kept (rws s ! k) (rws t ! k)" if "k < length (rws s)" for k
    using accept_rel.step(2) [OF assms(1) that] .
  have new: "\<not> accepted (rws t ! k)" if "length (rws s) \<le> k" "k < length (rws t)" for k
    using accept_rel.step(3) [OF assms(1) that] by (simp add: accepted_def told_def newRemoteWorker_def)
  have len: "length (rws s) \<le> length (rws t)" using accept_rel.step(1) [OF assms(1)] .
  show "acceptances t = acceptances s"
    using told kept new len assms(3)
    by (auto simp: acceptances_def accepts_def accept_kept_def not_less [symmetric])
  show "k \<in> acceptances s \<Longrightarrow> rw_id (rws t ! k) = rw_id (rws s ! k)"
    using told kept by (auto simp: acceptances_def accept_kept_def)
qed

lemma gauges_of_cong:
  "acceptances t = acceptances s \<Longrightarrow> (\<And>k. k \<in> acceptances s \<Longrightarrow> rw_id (rws t ! k) = rw_id (rws s ! k)) \<Longrightarrow>
   gauges_of t = gauges_of s \<and>
   inj_on (\<lambda>k. rw_id (rws t ! k)) (acceptances t) = inj_on (\<lambda>k. rw_id (rws s ! k)) (acceptances s)"
  by (auto simp: gauges_of_def inj_on_def)

lemma gauges_of_new:
  assumes "k < length (rws s)" and "k \<notin> acceptances s" and "accepted rw" and "rw_id rw = rw_id (rws s ! k)"
  shows "gauges_of (set_rw k rw s) = gauges_of s \<union> set (worker_gauges (rw_id (rws s ! k)))"
    and "acceptances (set_rw k rw s) = insert k (acceptances s)"
    and "rw_id (rws (set_rw k rw s) ! i) = rw_id (rws s ! i)"
proof -
  show id: "rw_id (rws (set_rw k rw s) ! i) = rw_id (rws s ! i)" for i
    using assms(1,4) by (cases "i = k") simp_all
  show acc: "acceptances (set_rw k rw s) = insert k (acceptances s)"
    using assms(1,3) by (auto simp: acceptances_def nth_list_update)
  show "gauges_of (set_rw k rw s) = gauges_of s \<union> set (worker_gauges (rw_id (rws s ! k)))"
    unfolding gauges_of_def acc id by auto
qed

lemma accepted_accept: "accepted (rw_accept cfg None None rw)" "rw_id (rw_accept cfg None None rw) = rw_id rw"
  by (simp_all add: accepted_def rw_accept_def)

lemma accepting_not_accepted: "start_ok ccfg s \<Longrightarrow> k < length (rws s) \<Longrightarrow> rw_pc (rws s ! k) = Accepting \<Longrightarrow> k \<notin> acceptances s"
  by (auto simp: acceptances_def start_ok_def accepted_def told_ok_def dest!: nth_mem)

lemma metrics_ok_system:
  assumes "metrics_ok ccfg before names (Some p)" and "sys_step reads (p_sys p) s" and "\<not> accepts (p_sys p) s"
  shows "metrics_ok ccfg before names (Some (p\<lparr>p_sys := s\<rparr>))"
proof -
  have ok: "start_ok ccfg (p_sys p)" using assms(1) by (simp add: metrics_ok_def)
  then show ?thesis
    using assms(1) sys_step_start_ok [OF assms(2) ok] gauges_of_cong [OF acceptances_step [OF assms(2) ok assms(3)]]
    by (simp add: metrics_ok_def)
qed

lemma metrics_ok_gauge:
  "metrics_ok ccfg before names (Some p) \<Longrightarrow> p_metrics q = p_metrics p \<Longrightarrow> same_but_gauge (p_sys p) (p_sys q) \<Longrightarrow>
   metrics_ok ccfg before names (Some q)"
  by (auto simp: metrics_ok_def same_but_gauge_def start_ok_def gauges_of_def acceptances_def)

lemma metrics_ok_step:
  assumes "registry_contract names valid g" and "process_step reads g x y" and "metrics_ok ccfg before names x"
  shows "metrics_ok ccfg before names y"
  using assms(2)
proof (cases rule: process_step.cases)
  case (system p s')
  then show ?thesis using metrics_ok_system [of ccfg before names p reads s'] assms(3) by simp
next
  case (request p upgrade)
  have "\<not> accepts (p_sys p) (p_sys p\<lparr>rws := rws (p_sys p) @ [newRemoteWorker]\<rparr>)"
    by (auto simp: accepts_def nth_append)
  with request assms(3) metrics_ok_system [OF _ sys_step.connect, where ccfg = ccfg and before = before and names = names] show ?thesis
    by (cases upgrade) (simp_all add: newWebSocketHandler_def)
next
  case (accept k p rw' r')
  let ?s = "p_sys p" and ?w = "rw_id (rws (p_sys p) ! k)"
  have rw': "rw' = rw_accept (c_cfg (coord ?s)) None None (rws ?s ! k)" using createMetrics_rw accept(5) .
  have ok: "start_ok ccfg ?s" and inj: "inj_on (\<lambda>k. rw_id (rws ?s ! k)) (acceptances ?s)"
    and names: "names (p_metrics p) = before \<union> set coordinator_gauges \<union> gauges_of ?s"
    using assms(3) accept(1) by (simp_all add: metrics_ok_def)
  have new: "newGauges g (worker_gauges ?w) (p_metrics p) = Some r'"
    using accept(5) by (auto simp: createMetrics_def accepted_accept)
  have "set (worker_gauges ?w) \<inter> names (p_metrics p) = {}"
    using newGauges_fails [OF assms(1), of "worker_gauges ?w" "p_metrics p"] new by simp
  then have fresh: "rw_id (rws ?s ! j) \<noteq> ?w" if "j \<in> acceptances ?s" for j
    using that names by (fastforce simp: gauges_of_def worker_gauges_def)
  have sys: "sys_step reads ?s (set_rw k rw' ?s)"
    unfolding rw' by (rule sys_step.local [OF accept(3) rw_local.accept [OF accept(4)]])
  have "accepted rw'" "rw_id rw' = ?w" unfolding rw' by (rule accepted_accept)+
  note g = gauges_of_new [OF accept(3) accepting_not_accepted [OF ok accept(3,4)] this]
  have "inj_on (\<lambda>i. rw_id (rws (set_rw k rw' ?s) ! i)) (acceptances (set_rw k rw' ?s))"
    unfolding g using inj fresh by (fastforce simp: inj_on_def)
  then show ?thesis
    using sys_step_start_ok [OF sys ok] newGauges_names [OF assms(1) new] names
    by (simp add: accept(2) metrics_ok_def g Un_assoc del: set_rw_fields)
next
  case (kill p)
  show ?thesis
    unfolding kill(2) by (rule metrics_ok_gauge [of _ _ _ p])
      (use assms(3) kill(1) in \<open>auto simp: cancel_run_eq same_but_gauge_def\<close>)
qed (use assms(3) in \<open>simp_all add: metrics_ok_def spend_def\<close>)

interpretation process_metrics: kept_by_relation "process_step reads g" "\<lambda>x. registry_contract names valid g \<and> metrics_ok ccfg before names x"
  for reads g names valid ccfg before
  by unfold_locales (auto intro: metrics_ok_step)

text \<open>C5: the metrics registry of a coordinator process that has not panicked holds exactly what it held
  before, the gauges of the coordinator, and the two gauges of every remote worker that was ever
  accepted; and no two of these have the same id: an id is accepted at most once in the life of the
  process.\<close>

theorem metrics_exact:
  assumes "registry_contract names valid g" and "1 \<le> ExpectWorkers ccfg"
    and "process_start g r cfg ccfg = Some p" and "(process_step reads g)\<^sup>*\<^sup>* (Some p) (Some q)"
  shows "names (p_metrics q) = names r \<union> set coordinator_gauges \<union>
      (\<Union>k \<in> acceptances (p_sys q). set (worker_gauges (rw_id (rws (p_sys q) ! k)))) \<and>
    inj_on (\<lambda>k. rw_id (rws (p_sys q) ! k)) (acceptances (p_sys q))"
proof -
  have "newGauges g coordinator_gauges r = Some (p_metrics p)" "p_sys p = system_start cfg ccfg"
    using assms(3) by (auto simp: process_start_def split: if_splits)
  then have "metrics_ok ccfg (names r) names (Some p)"
    using newGauges_names [OF assms(1)] system_start_ok [OF assms(2), of cfg]
    by (simp add: metrics_ok_def gauges_of_def acceptances_def system_start_def)
  then have "metrics_ok ccfg (names r) names (Some q)"
    using process_metrics.run_keeps [OF assms(4)] assms(1) by blast
  then show ?thesis by (simp add: metrics_ok_def gauges_of_def)
qed

subsection \<open>A worker that comes back\<close>

lemma sys_step_was_waiting: "sys_step reads s t \<Longrightarrow> cpc t = C_Waiting \<Longrightarrow> cpc s = C_Waiting"
  by (erule sys_step.cases) (auto simp: do_test_def Let_def split: prod.splits option.splits)

text \<open>A run of the system in which the coordinator still waits, and accepts nobody, is one of the process.\<close>

lemma process_lift:
  assumes "(sys_step reads)\<^sup>*\<^sup>* s t" and "cpc t = C_Waiting" and "acceptances t = acceptances s"
    and "start_ok ccfg s" and "p_sys p = s" and "\<not> p_svrStopped p"
  shows "(process_step reads g)\<^sup>*\<^sup>* (Some p) (Some (p\<lparr>p_sys := t\<rparr>))"
  using assms(1-3)
proof (induction rule: rtranclp_induct)
  case base
  have "p\<lparr>p_sys := s\<rparr> = p" using assms(5) by (cases p) simp
  then show ?case by simp
next
  case (step y z)
  have ok: "start_ok ccfg y" using sys_start.run_keeps [OF step.hyps(1) assms(4)] .
  have okz: "start_ok ccfg z" using sys_step_start_ok [OF step.hyps(2) ok] .
  have mono: "acceptances a \<subseteq> acceptances b" if "sys_step reads a b" "start_ok ccfg a" for a b
    using accept_rel.step(1,2) [OF that(1)] that(2)
    by (auto simp: acceptances_def accept_kept_def start_ok_def)
  have "acceptances s \<subseteq> acceptances y"
    using step.hyps(1)
  proof (induction rule: rtranclp_induct)
    case (step a b)
    then show ?case using mono [of a b] sys_start.run_keeps [OF step.hyps(1) assms(4)] by blast
  qed simp
  with mono [OF step.hyps(2) ok] step.prems(2) have same: "acceptances y = acceptances s" by blast
  have "\<not> accepts y z"
  proof
    assume "accepts y z"
    then obtain k where k: "k < length (rws y)" "rw_pc (rws y ! k) = Accepting" "rw_pc (rws z ! k) = WaitingStart"
      by (auto simp: accepts_def)
    have "k < length (rws z)" using k(1) accept_rel.step(1) [OF step.hyps(2)] by simp
    then have "k \<in> acceptances z" using okz k(3) by (auto simp: acceptances_def accepted_def start_ok_def told_ok_def dest!: nth_mem)
    with accepting_not_accepted [OF ok k(1,2)] same step.prems(2) show False by blast
  qed
  moreover have "cpc y = C_Waiting" using sys_step_was_waiting [OF step.hyps(2) step.prems(1)] .
  moreover have "process_step reads g (Some (p\<lparr>p_sys := y\<rparr>)) (Some (p\<lparr>p_sys := z\<rparr>))"
  proof (cases "length (rws z) = length (rws y)")
    case True
    with step.hyps(2) calculation step.prems(1) process_step.system [of reads "p\<lparr>p_sys := y\<rparr>" z g] show ?thesis
      by (simp add: loop_end_seen_def)
  next
    case False
    with step.hyps(2) have "z = y\<lparr>rws := rws y @ [newRemoteWorker]\<rparr>"
      using do_wait_quiet do_test_quiet by (auto elim!: sys_step.cases)
    with assms(6) process_step.request [of "p\<lparr>p_sys := y\<rparr>" reads g None] show ?thesis
      by (simp add: newWebSocketHandler_def)
  qed
  ultimately show ?case
    using step.IH same step.prems by (simp add: rtranclp.rtrancl_into_rtrancl)
qed

abbreviation only_hello :: "nat \<Rightarrow> go_error + workerMsg \<Rightarrow> bool" where
  "only_hello k r \<equiv> r = Inr (zero_msg\<lparr>W_ID := ''w''\<rparr>)"

text \<open>The first of two workers is accepted after its duplicate evicted it; then it comes a third time.\<close>

definition first_accepted :: remote_worker where
  "first_accepted = rw_accept (flag_defaults ''kvstore'') None None ((asking ''w'')\<lparr>rw_reply := Some None, rw_pc := Accepting\<rparr>)"

definition accepted_two :: system where
  "accepted_two = set_rw 0 first_accepted evicted_two"

definition back_again :: system where
  "back_again = accepted_two\<lparr>coord := snd (registerRemoteWorker ''w'' 2 (coord accepted_two)),
     rws := rws accepted_two @ [(asking ''w'')\<lparr>rw_reply := Some None, rw_pc := Accepting\<rparr>]\<rparr>"

lemma evicted_two_fields [simp]:
  "cpc evicted_two = C_Waiting" "q_register evicted_two = []" "workers (coord evicted_two) = []"
  "expectedWorkers (coord evicted_two) = 2" "c_cfg (coord evicted_two) = flag_defaults ''kvstore''"
  "rws evicted_two ! 0 = (asking ''w'')\<lparr>rw_reply := Some None\<rparr>" "length (rws evicted_two) = 2"
  "rw_pc (rws evicted_two ! Suc 0) = Ended (Some duplicate_err)" "told (rws evicted_two ! Suc 0) = [workerRejected]"
  by (simp_all add: evicted_two_def start_two_eq unregisterRemoteWorker_def registerRemoteWorker_def told_def
      coord_two_def enter_waiting_def NewCoordinator_def two_workers_def ghas_def)

lemma run_first_accepting:
  "(sys_step only_hello)\<^sup>*\<^sup>* start_two (set_rw 0 ((asking ''w'')\<lparr>rw_reply := Some None, rw_pc := Accepting\<rparr>) evicted_two)"
proof -
  have "sys_step only_hello evicted_two (set_rw 0 (rw_registered None None (rws evicted_two ! 0)) evicted_two)"
    by (rule sys_step.local [OF _ rw_local.reply]) (simp_all add: asking_def)
  with run_evicted [of only_hello] show ?thesis
    by (simp add: rw_registered_def rtranclp.rtrancl_into_rtrancl)
qed

lemma run_back_again: "(sys_step only_hello)\<^sup>*\<^sup>* accepted_two back_again"
proof -
  let ?s = "accepted_two" and ?c = "coord accepted_two"
  have f: "q_register ?s = []" "cpc ?s = C_Waiting" "length (rws ?s) = 2" "expectedWorkers ?c = 2" "workers ?c = []"
    by (simp_all add: accepted_two_def)
  obtain c where c: "registerRemoteWorker ''w'' 2 ?c = (None, c)" "workers c = [(''w'', 2)]" "expectedWorkers c = 2"
    using f by (simp add: registerRemoteWorker_def ghas_def)
  have 1: "(sys_step only_hello)\<^sup>*\<^sup>* ?s (?s\<lparr>rws := rws ?s @ [asking ''w''], q_register := [2]\<rparr>)"
    using run_asks [OF rtranclp.rtrancl_refl [of "sys_step only_hello" ?s], of "''w''"] f by simp
  have 2: "(sys_step only_hello)\<^sup>*\<^sup>* ?s (?s\<lparr>coord := c, rws := rws ?s @ [(asking ''w'')\<lparr>rw_reply := Some None\<rparr>]\<rparr>)"
    by (rule sys_step_to [OF 1 sys_step.take_register [where k = 2 and q = "[]" and order = "\<lambda>m. m"]])
      (simp_all add: f do_wait_def wait_step_def answer_reg_def set_rw_def asking_def c nth_append list_update_append Let_def)
  show ?thesis
    by (rule sys_step_to [OF 2 sys_step.local [OF _ rw_local.reply [where answer = None and res = None]], where k1 = 2])
      (simp_all add: f asking_def newRemoteWorker_def rw_registered_def set_rw_def back_again_def c nth_append list_update_append)
qed

lemma restart_acceptances:
  "acceptances start_two = {}" "acceptances (set_rw 0 ((asking ''w'')\<lparr>rw_reply := Some None, rw_pc := Accepting\<rparr>) evicted_two) = {}"
  "acceptances accepted_two = {0}" "acceptances back_again = {0}"
proof -
  have a: "\<not> accepted (asking ''w'')" "\<not> accepted ((asking ''w'')\<lparr>rw_reply := x, rw_pc := y\<rparr>)"
    for x y
    by (simp_all add: accepted_def asking_def told_def newRemoteWorker_def)
  have b: "\<not> accepted (rws evicted_two ! Suc 0)" "accepted first_accepted"
    by (simp_all add: first_accepted_def accepted_accept) (simp add: accepted_def worker_states)
  have l: "length (rws accepted_two) = 2" by (simp add: accepted_two_def)
  have k: "k < 2 \<longleftrightarrow> k = 0 \<or> k = Suc 0" "k < 3 \<longleftrightarrow> k = 0 \<or> k = Suc 0 \<or> k = 2" for k :: nat by auto
  show "acceptances start_two = {}" by (simp add: acceptances_def start_two_eq)
  show "acceptances (set_rw 0 ((asking ''w'')\<lparr>rw_reply := Some None, rw_pc := Accepting\<rparr>) evicted_two) = {}"
    using a b by (auto simp: acceptances_def k nth_list_update split: if_splits)
  show acc: "acceptances accepted_two = {0}" using a b by (auto simp: acceptances_def accepted_two_def k nth_list_update split: if_splits)
  have "acceptances back_again = acceptances accepted_two \<union>
      {k. k = 2 \<and> accepted ((asking ''w'')\<lparr>rw_reply := Some None, rw_pc := Accepting\<rparr>)}"
    using l by (auto simp: acceptances_def back_again_def nth_append)
  then show "acceptances back_again = {0}" using a acc by simp
qed

lemma restart_run:
  assumes "registry_contract names valid g" and "list_all valid (coordinator_gauges @ worker_gauges ''w'')"
    and "names r \<inter> set (coordinator_gauges @ worker_gauges ''w'') = {}"
  obtains p q where "process_start g r (flag_defaults ''kvstore'') two_workers = Some p"
    "(process_step only_hello g)\<^sup>*\<^sup>* (Some p) (Some q)" "p_sys q = back_again"
    "names (p_metrics q) = names r \<union> set coordinator_gauges \<union> set (worker_gauges ''w'')"
proof -
  have d: "distinct coordinator_gauges" "distinct (worker_gauges ''w'')"
    "set coordinator_gauges \<inter> set (worker_gauges ''w'') = {}"
    by (simp_all add: coordinator_gauges_def worker_gauges_def)
  obtain r1 where r1: "newGauges g coordinator_gauges r = Some r1"
    using newGauges_fails [OF assms(1), of coordinator_gauges r] assms(2,3) d(1) by fastforce
  have n1: "names r1 = names r \<union> set coordinator_gauges" using newGauges_names [OF assms(1) r1] .
  obtain r2 where r2: "newGauges g (worker_gauges ''w'') r1 = Some r2"
    using newGauges_fails [OF assms(1), of "worker_gauges ''w''" r1] assms(2,3) d(2,3) n1 by fastforce
  obtain p where p: "process_start g r (flag_defaults ''kvstore'') two_workers = Some p" "p_sys p = start_two"
    "p_metrics p = r1" "\<not> p_svrStopped p"
    by (simp add: process_start_def r1 two_workers_def seconds_duration_pos start_two_def)
  have ok: "start_ok two_workers start_two" unfolding start_two_def by (rule system_start_ok) (simp add: two_workers_def)
  let ?s1 = "set_rw 0 ((asking ''w'')\<lparr>rw_reply := Some None, rw_pc := Accepting\<rparr>) evicted_two"
  let ?p1 = "p\<lparr>p_sys := ?s1\<rparr>"
  let ?p2 = "?p1\<lparr>p_sys := accepted_two, p_metrics := r2\<rparr>"
  have 1: "(process_step only_hello g)\<^sup>*\<^sup>* (Some p) (Some ?p1)"
    by (rule process_lift [OF run_first_accepting _ _ ok]) (simp_all add: p restart_acceptances)
  have ok1: "start_ok two_workers ?s1" using sys_start.run_keeps [OF run_first_accepting ok] .
  have "rw_id (rws (p_sys ?p1) ! 0) = ''w''" by (simp add: asking_def)
  then have "createMetrics g (rw_accept (c_cfg (coord (p_sys ?p1))) None None (rws (p_sys ?p1) ! 0)) (p_metrics ?p1) =
      Some (first_accepted, r2)"
    by (simp add: createMetrics_def accepted_accept r2 p(3) first_accepted_def) (simp add: rw_accept_def rw_write_def)
  then have "process_step only_hello g (Some ?p1) (Some (?p1\<lparr>p_sys := set_rw 0 first_accepted (p_sys ?p1), p_metrics := r2\<rparr>))"
    by (intro process_step.accept) simp_all
  moreover have "set_rw 0 first_accepted ?s1 = accepted_two" by (simp add: accepted_two_def set_rw_def)
  ultimately have 2: "process_step only_hello g (Some ?p1) (Some ?p2)" by simp
  have "sys_step only_hello ?s1 accepted_two"
    using sys_step.local [of 0 ?s1 only_hello, OF _ rw_local.accept [where res = None and res' = None]]
    by (simp add: accepted_two_def first_accepted_def set_rw_def)
  then have ok2: "start_ok two_workers accepted_two" using ok1 sys_step_start_ok by blast
  have 3: "(process_step only_hello g)\<^sup>*\<^sup>* (Some ?p2) (Some (?p2\<lparr>p_sys := back_again\<rparr>))"
    by (rule process_lift [OF run_back_again _ _ ok2]) (simp_all add: p restart_acceptances, simp_all add: back_again_def accepted_two_def)
  have "(process_step only_hello g)\<^sup>*\<^sup>* (Some p) (Some (?p2\<lparr>p_sys := back_again\<rparr>))"
    using 1 2 3 by (meson rtranclp.rtrancl_into_rtrancl rtranclp_trans)
  with p(1) show ?thesis
    by (rule that) (use newGauges_names [OF assms(1) r2] n1 in simp_all)
qed

text \<open>C38: a worker that is restarted under its id can bring the coordinator down.  With two workers
  expected, and nothing but registrations of one id read from any connection: the second
  registration is rejected and evicts the first, the third is answered with success, and on its
  acceptance the gauges of that id, which are never unregistered, exist already: the process
  panics.\<close>

theorem restarted_worker_panics:
  assumes "registry_contract names valid g" and "list_all valid (coordinator_gauges @ worker_gauges ''w'')"
    and "names r \<inter> set (coordinator_gauges @ worker_gauges ''w'') = {}"
  shows "\<exists>p. process_start g r (flag_defaults ''kvstore'') two_workers = Some p \<and>
    (process_step only_hello g)\<^sup>*\<^sup>* (Some p) None"
proof -
  obtain p q where run: "process_start g r (flag_defaults ''kvstore'') two_workers = Some p"
    "(process_step only_hello g)\<^sup>*\<^sup>* (Some p) (Some q)" and q: "p_sys q = back_again"
    "names (p_metrics q) = names r \<union> set coordinator_gauges \<union> set (worker_gauges ''w'')"
    by (rule restart_run [OF assms])
  have k: "2 < length (rws (p_sys q))" "rw_pc (rws (p_sys q) ! 2) = Accepting" "rw_id (rws (p_sys q) ! 2) = ''w''"
    by (simp_all add: q(1) back_again_def nth_append accepted_two_def asking_def)
  have "newGauges g (worker_gauges ''w'') (p_metrics q) = None"
    using newGauges_fails [OF assms(1), of "worker_gauges ''w''" "p_metrics q"] q(2) by (auto simp: worker_gauges_def)
  then have "createMetrics g (rw_accept cfg None None (rws (p_sys q) ! 2)) (p_metrics q) = None" for cfg
    by (simp add: createMetrics_def accepted_accept k(3))
  then have "process_step only_hello g (Some q) None" by (rule process_step.panic [OF k(1,2)])
  with run show ?thesis by (meson rtranclp.rtrancl_into_rtrancl)
qed

text \<open>A registry that keeps the names it was given.\<close>

definition name_registry :: "string \<Rightarrow> string list \<Rightarrow> string list option" where
  "name_registry n ns = (if n \<in> set ns then None else Some (n # ns))"

lemma name_registry_contract: "registry_contract set (\<lambda>_. True) name_registry"
  by (simp add: registry_contract_def name_registry_def)

theorem restarted_worker_panics_witness:
  "\<exists>p. process_start name_registry [] kv_cfg two_workers = Some p \<and>
     (process_step only_hello name_registry)\<^sup>*\<^sup>* (Some p) None"
  by (rule restarted_worker_panics [OF name_registry_contract]) (simp_all add: list_all_iff)

text \<open>After the first acceptance of that run the registry holds the two gauges of worker w.\<close>

theorem metrics_exact_witness:
  "\<exists>p q. process_start name_registry [] kv_cfg two_workers = Some p \<and>
     (process_step only_hello name_registry)\<^sup>*\<^sup>* (Some p) (Some q) \<and> acceptances (p_sys q) = {0} \<and>
     set (p_metrics q) = set coordinator_gauges \<union> set (worker_gauges ''w'')"
proof -
  obtain p q where q: "process_start name_registry [] kv_cfg two_workers = Some p"
    "(process_step only_hello name_registry)\<^sup>*\<^sup>* (Some p) (Some q)" "p_sys q = back_again"
    by (rule restart_run [OF name_registry_contract, of "[]"]) (simp_all add: list_all_iff)
  have "1 \<le> ExpectWorkers two_workers" by (simp add: two_workers_def)
  from metrics_exact [OF name_registry_contract this q(1,2)] q restart_acceptances(4) show ?thesis
    by (intro exI [of _ p] exI [of _ q])
      (simp add: back_again_def nth_append accepted_two_def first_accepted_def accepted_accept asking_def)
qed

end
