(* ===== verification/Coord_Exit.thy ===== *)
theory Coord_Exit
  imports Coord_Process
begin

section \<open>The end of a coordinator process\<close>

text \<open>
  How long the deferred calls of \<open>Coordinator.Run\<close> take, and that an interrupt always brings the
  process to its end, even while the workers are being told to start: every one of them is told at
  most once, so that there is room in its control channel.
\<close>

subsection \<open>The shutdown\<close>

definition shutdown_bound :: "coordinator_config \<Rightarrow> bool \<Rightarrow> duration" where
  "shutdown_bound ccfg early = (if early then 0 else max 0 (seconds_duration (ShutdownWait ccfg)))"

text \<open>\<open>early\<close>: the run was cancelled before its deferred calls began.\<close>

definition shutdown_ok :: "coordinator_config \<Rightarrow> bool \<Rightarrow> 'r coord_process option \<Rightarrow> bool" where
  "shutdown_ok ccfg early x \<longleftrightarrow>
     (case x of None \<Rightarrow> True
      | Some p \<Rightarrow> coordCfg (coord (p_sys p)) = ccfg \<and> 0 \<le> p_spent p \<and>
          (early \<longrightarrow> p_cancelled p \<and> p_phase p \<noteq> PostWait) \<and>
          p_spent p \<le> (case p_phase p of
             ClosingServer \<Rightarrow> shutdown_bound ccfg early
           | AwaitServer \<Rightarrow> shutdown_bound ccfg early + 5 * second
           | Exited \<Rightarrow> shutdown_bound ccfg early + 15 * second
           | _ \<Rightarrow> 0))"

lemma coordCfg_sys_step: "sys_step reads s t \<Longrightarrow> coordCfg (coord t) = coordCfg (coord s)"
  by (erule sys_step.cases) (simp_all add: enter_testing_def)

lemma coordCfg_process_step:
  assumes "process_step reads g (Some p) (Some q)"
  shows "coordCfg (coord (p_sys q)) = coordCfg (coord (p_sys p))"
  using process_step_sys [OF assms] coordCfg_sys_step by (auto simp: same_but_gauge_def)

lemma shutdown_ok_step:
  assumes "process_step reads g x y" and "shutdown_ok ccfg early x"
  shows "shutdown_ok ccfg early y"
proof -
  have s: "0 < second" by simp
  show ?thesis
    using assms(1)
  proof (cases rule: process_step.cases)
    case (system p s')
    with assms(2) coordCfg_sys_step [OF system(3)] show ?thesis by (simp add: shutdown_ok_def)
  next
    case (request p upgrade)
    with assms(2) show ?thesis by (cases upgrade) (simp_all add: shutdown_ok_def newWebSocketHandler_def)
  next
    case (kill p)
    with assms(2) show ?thesis by (simp add: shutdown_ok_def cancel_run_eq)
  next
    case (wait_over p)
    with assms(2) show ?thesis by (simp add: shutdown_ok_def spend_def shutdown_wait_def shutdown_bound_def)
  next
    case (wait_killed p d)
    with assms(2) show ?thesis by (simp add: shutdown_ok_def spend_def shutdown_wait_def shutdown_bound_def)
  next
    case (exit p d)
    with assms(2) show ?thesis by (simp add: shutdown_ok_def spend_def coordShutdownTimeout_def)
  next
    case (exit_timeout p)
    with assms(2) s show ?thesis by (simp add: shutdown_ok_def spend_def coordShutdownTimeout_def)
  qed (use assms(2) s in \<open>auto simp: shutdown_ok_def spend_def waits_def shutdown_bound_def split: phase.splits\<close>)
qed

interpretation process_shutdown: kept_by_relation "process_step reads g" "shutdown_ok ccfg early" for reads g ccfg early
  by unfold_locales (rule shutdown_ok_step)


subsection \<open>Room for the start messages\<close>

text \<open>
  A connection is registered, or waits to be, under at most one entry, so that the coordinator
  tells each of them once to start and finds room in its control channel.
\<close>

definition slots :: "system \<Rightarrow> nat list" where
  "slots s = q_register s @ gvals (workers (coord s))"

definition fresh_slots :: "system \<Rightarrow> nat list \<Rightarrow> bool" where
  "fresh_slots s ks \<longleftrightarrow> distinct ks \<and> (\<forall>k \<in> set ks. k < length (rws s) \<and> stateCtrl (rws s ! k) = [])"

definition slots_ok :: "system \<Rightarrow> bool" where
  "slots_ok s \<longleftrightarrow> distinct (slots s) \<and>
     (\<forall>k \<in> set (slots s). k < length (rws s) \<and> rw_pc (rws s ! k) \<notin> {ReadingID, Registering})"

definition room_ok :: "system \<Rightarrow> bool" where
  "room_ok s \<longleftrightarrow>
     (case cpc s of
        C_Waiting \<Rightarrow> \<forall>k < length (rws s). stateCtrl (rws s ! k) = []
      | C_Starting ws \<Rightarrow> fresh_slots s (map snd ws)
      | C_AwaitStart k ws \<Rightarrow> fresh_slots s (map snd ws)
      | _ \<Rightarrow> True)"

definition past_asking :: "remote_worker \<Rightarrow> remote_worker \<Rightarrow> bool" where
  "past_asking rw rw' \<longleftrightarrow> (rw_pc rw \<notin> {ReadingID, Registering} \<longrightarrow> rw_pc rw' \<notin> {ReadingID, Registering})"

lemma rw_local_past_asking: "rw_local reads cfg rw rw' \<Longrightarrow> past_asking rw rw'"
  by (erule rw_local.cases)
    (auto simp: past_asking_def rw_readID_def rw_registered_def rw_accept_def rw_start_ctrl_def
      rw_update_ctrl_def rw_update_def rw_stopped_def Let_def
      split: sum.splits option.splits prod.splits if_splits rw_pc.splits)

interpretation asking_rel: remote_relation reads past_asking for reads
  by unfold_locales (auto simp: rw_local_past_asking, auto simp: past_asking_def still_def rw_forwarded_def)

lemma rw_local_stateCtrl: "rw_local reads cfg rw rw' \<Longrightarrow> stateCtrl rw = [] \<Longrightarrow> stateCtrl rw' = []"
  by (erule rw_local.cases)
    (auto simp: rw_readID_def rw_registered_def rw_accept_def rw_write_def rw_update_def rw_stopped_def
      split: sum.splits option.splits rw_pc.splits)

lemma gset_new: "gget m k = None \<Longrightarrow> gset k v m = m @ [(k, v)]"
  by (induction m) (auto split: if_splits)

lemma gvals_gdel: "distinct (gvals m) \<Longrightarrow> distinct (gvals (gdel k m))" "set (gvals (gdel k m)) \<subseteq> set (gvals m)"
  by (auto simp: AList.delete_eq distinct_map inj_on_def)

lemma gvals_fewer:
  assumes "m' = m \<or> (\<exists>w. m' = gdel w m)"
  shows "set (gvals m') \<subseteq> set (gvals m)" and "distinct (gvals m) \<Longrightarrow> distinct (gvals m')"
  using assms gvals_gdel by (metis order_refl)+

lemma moves_slot: "xs = ys \<or> xs = ys @ [k] \<Longrightarrow> distinct (k # q @ ys) \<Longrightarrow> distinct (q @ xs) \<and> set (q @ xs) \<subseteq> set (k # q @ ys)"
  by auto

lemma register_workers:
  "wait_step (RegisterReq w k) c = (c', resp, nxt) \<Longrightarrow>
   gvals (workers c') = gvals (workers c) \<or> gvals (workers c') = gvals (workers c) @ [k]"
  by (auto simp: wait_step_def registerRemoteWorker_def gset_new ghas_def Let_def split: if_splits)

lemma do_wait_workers: "workers (coord (do_wait ev order s)) = workers (fst (wait_step ev (coord s)))"
  by (simp add: do_wait_def Let_def split: prod.split wait_next.split)

lemma do_wait_register: "q_register (do_wait ev order s) = q_register s"
  by (simp add: do_wait_def answer_reg_def finish_def Let_def split: prod.split wait_next.split wait_event.split option.split)

lemma test_step_workers:
  "test_step ev (c, n) = ((c', n'), r) \<Longrightarrow> workers c' = workers c \<or> (\<exists>w. workers c' = gdel w (workers c))"
  by (cases ev) (auto simp: test_step_def handle_update_def unregisterRemoteWorker_def Let_def split: if_splits)

lemma do_test_workers:
  "workers (coord (do_test ev s)) = workers (coord s) \<or> (\<exists>w. workers (coord (do_test ev s)) = gdel w (workers (coord s)))"
proof -
  obtain c n r where t: "test_step ev (coord s, completed s) = ((c, n), r)" by (metis prod.exhaust)
  then have "workers (coord (do_test ev s)) = workers c"
    by (cases r) (simp_all add: do_test_def leave_testing_def)
  with test_step_workers [OF t] show ?thesis by simp
qed

lemma do_test_register: "q_register (do_test ev s) = q_register s"
  by (auto simp: do_test_def finish_def Let_def split: prod.splits option.splits)

lemma slots_set_rw [simp]: "slots (set_rw k rw s) = slots s"
  by (simp add: slots_def)

lemma fewer_slots:
  assumes "workers (coord t) = workers (coord s) \<or> (\<exists>w. workers (coord t) = gdel w (workers (coord s)))"
    and "q_register t = q_register s"
  shows "set (slots t) \<subseteq> set (slots s)" and "distinct (slots s) \<Longrightarrow> distinct (slots t)"
proof -
  show "set (slots t) \<subseteq> set (slots s)"
    using gvals_fewer(1) [OF assms(1)] unfolding slots_def set_append assms(2) by blast
  show "distinct (slots t)" if "distinct (slots s)"
    using gvals_fewer [OF assms(1)] that unfolding slots_def distinct_append assms(2) by blast
qed

text \<open>Which entries a step can add: only the one of a connection that asks now.\<close>

lemma sys_step_slots:
  assumes "sys_step reads s t" and "distinct (slots s)" and "\<forall>k \<in> set (slots s). rw_pc (rws s ! k) \<noteq> Registering"
  shows "distinct (slots t) \<and> (\<forall>k \<in> set (slots t). k \<in> set (slots s) \<or>
     k < length (rws s) \<and> rw_pc (rws t ! k) = AwaitingReply)"
  using assms(1)
proof (cases rule: sys_step.cases)
  case (ask_register k)
  with assms(2,3) have "k \<notin> set (slots s)" by blast
  with ask_register assms(2) show ?thesis by (auto simp: slots_def)
next
  case (take_register k q order)
  obtain c resp nxt where w: "wait_step (RegisterReq (rw_id (rws s ! k)) k) (coord s) = (c, resp, nxt)" by (rule prod_cases3)
  have "slots t = q @ gvals (workers c)" by (simp add: take_register(1) slots_def do_wait_workers do_wait_register w)
  moreover have "slots s = k # q @ gvals (workers (coord s))" by (simp add: slots_def take_register(3))
  ultimately show ?thesis using moves_slot [OF register_workers [OF w]] assms(2) by (metis subsetD)
next
  case (take_unregister w e q order)
  then have "workers (coord t) = gdel w (workers (coord s))" "q_register t = q_register s"
    by (simp_all add: do_wait_workers do_wait_register wait_step_def unregisterRemoteWorker_def)
  then show ?thesis using fewer_slots [of t s] assms(2) by auto
next
  case (wait_ends ev order)
  then have "workers (coord t) = workers (coord s)" "q_register t = q_register s"
    by (auto simp: do_wait_workers do_wait_register wait_step_def)
  then show ?thesis using fewer_slots [of t s] assms(2) by auto
next
  case (test_update m q now)
  then show ?thesis
    using assms(2) fewer_slots [OF do_test_workers [of "WorkerUpdate m now" "s\<lparr>q_update := q\<rparr>"] do_test_register]
    by (auto simp: slots_def)
next
  case (test_unregister w e q)
  then show ?thesis
    using assms(2) fewer_slots [OF do_test_workers [of "WorkerUnregister w e" "s\<lparr>q_unregister := q\<rparr>"] do_test_register]
    by (auto simp: slots_def)
next
  case (test_timer now)
  then show ?thesis
    using assms(2) fewer_slots [OF do_test_workers [of "ProgressTimer now" s] do_test_register] by auto
next
  case (test_ends ev)
  then show ?thesis
    using assms(2) fewer_slots [OF do_test_workers [of ev s] do_test_register] by auto
qed (use assms(2) in \<open>simp_all add: slots_def finish_def enter_testing_def\<close>)

lemma sys_step_slots_ok:
  assumes "sys_step reads s t" and "slots_ok s"
  shows "slots_ok t"
proof -
  have pcs: "\<forall>k \<in> set (slots s). rw_pc (rws s ! k) \<noteq> Registering" and d: "distinct (slots s)"
    using assms(2) by (auto simp: slots_ok_def)
  have "k < length (rws t) \<and> rw_pc (rws t ! k) \<notin> {ReadingID, Registering}" if k: "k \<in> set (slots t)" for k
  proof (cases "k \<in> set (slots s)")
    case True
    with assms(2) asking_rel.step(1,2) [OF assms(1)] show ?thesis by (auto simp: slots_ok_def past_asking_def)
  next
    case False
    with k sys_step_slots [OF assms(1) d pcs] asking_rel.step(1) [OF assms(1)] show ?thesis by auto
  qed
  with sys_step_slots [OF assms(1) d pcs] show ?thesis by (simp add: slots_ok_def)
qed

lemma answer_reg_ctrl: "i < length (rws s) \<Longrightarrow> stateCtrl (rws (answer_reg ev resp s) ! i) = stateCtrl (rws s ! i)"
  by (auto simp: answer_reg_def nth_update_in split: wait_event.split option.split)

lemma do_wait_ctrl:
  "\<forall>r. cpc (do_wait ev order s) \<noteq> C_Returned r \<Longrightarrow> i < length (rws s) \<Longrightarrow>
   stateCtrl (rws (do_wait ev order s) ! i) = stateCtrl (rws s ! i)"
  using answer_reg_ctrl [of i "s\<lparr>coord := c\<rparr>" for c]
  by (auto simp: do_wait_def Let_def split: prod.splits wait_next.splits)

lemma do_test_rws: "\<forall>r. cpc (do_test ev s) \<noteq> C_Returned r \<Longrightarrow> rws (do_test ev s) = rws s \<and> cpc (do_test ev s) = cpc s"
  by (auto simp: do_test_def Let_def split: prod.splits option.splits)

lemma sys_step_ctrl:
  assumes "sys_step reads s t" and "\<forall>r. cpc t \<noteq> C_Returned r" and "i < length (rws s)" and "stateCtrl (rws s ! i) = []"
  shows "stateCtrl (rws t ! i) = [] \<or> (\<exists>w ws. cpc s = C_Starting ((w, i) # ws) \<and> cpc t = C_AwaitStart i ws)"
  using assms(1)
proof (cases rule: sys_step.cases)
  case (local k rw')
  with assms(3,4) rw_local_stateCtrl [OF local(3)] show ?thesis by (auto simp: nth_update_in)
next
  case (take_register k q order)
  with assms do_wait_ctrl [of _ _ "s\<lparr>q_register := q\<rparr>" i] show ?thesis by simp
next
  case (take_unregister w e q order)
  with assms do_wait_ctrl [of _ _ "s\<lparr>q_unregister := q\<rparr>" i] show ?thesis by simp
next
  case (wait_ends ev order)
  with assms do_wait_ctrl [of _ _ s i] show ?thesis by simp
next
  case (test_update m q now)
  with assms do_test_rws [of "WorkerUpdate m now" "s\<lparr>q_update := q\<rparr>"] show ?thesis by simp
next
  case (test_unregister w e q)
  with assms do_test_rws [of "WorkerUnregister w e" "s\<lparr>q_unregister := q\<rparr>"] show ?thesis by simp
next
  case (test_timer now)
  with assms do_test_rws [of "ProgressTimer now" s] show ?thesis by simp
next
  case (test_ends ev)
  with assms do_test_rws [of ev s] show ?thesis by simp
qed (use assms(2-4) in \<open>auto simp: nth_append nth_update_in rw_forwarded_def rw_send_ctrl_def rw_set_state_eq\<close>)

definition cpc_moves :: "system \<Rightarrow> system \<Rightarrow> bool" where
  "cpc_moves s t \<longleftrightarrow> cpc t = cpc s \<or> (\<exists>r. cpc t = C_Returned r) \<or>
     (case (cpc s, cpc t) of
        (C_Waiting, C_Starting ws) \<Rightarrow> mset (map snd ws) = mset (gvals (workers (coord t)))
      | (C_Starting ws, C_AwaitStart k ws') \<Rightarrow> \<exists>w. ws = (w, k) # ws'
      | (C_AwaitStart k ws, C_Starting ws') \<Rightarrow> ws' = ws
      | (C_Starting ws, C_Testing) \<Rightarrow> ws = []
      | _ \<Rightarrow> False)"

lemma do_wait_moves:
  assumes "(\<forall>m. ranges_over (order m) m) \<or> (\<forall>c. snd (snd (wait_step ev c)) \<noteq> AllConnected)" and "cpc s = C_Waiting"
  shows "cpc (do_wait ev order s) = C_Waiting \<or> (\<exists>r. cpc (do_wait ev order s) = C_Returned r) \<or>
    (\<exists>ws. cpc (do_wait ev order s) = C_Starting ws \<and> mset (map snd ws) = mset (gvals (workers (coord (do_wait ev order s)))))"
proof -
  obtain c resp nxt where 1: "wait_step ev (coord s) = (c, resp, nxt)" by (rule prod_cases3)
  show ?thesis
  proof (cases nxt)
    case AllConnected
    with 1 assms(1) have "mset (order (workers c)) = mset (workers c)" by (metis ranges_over_def snd_conv)
    then have "mset (map snd (order (workers c))) = mset (gvals (workers c))" by (metis mset_map)
    with 1 AllConnected show ?thesis by (simp add: do_wait_def)
  qed (use 1 assms(2) in \<open>simp_all add: do_wait_def\<close>)
qed

lemma cpc_moves_wait:
  assumes "cpc t = C_Waiting \<or> (\<exists>r. cpc t = C_Returned r) \<or>
      (\<exists>ws. cpc t = C_Starting ws \<and> mset (map snd ws) = mset (gvals (workers (coord t))))" and "cpc s = C_Waiting"
  shows "cpc_moves s t"
  using assms by (auto simp: cpc_moves_def)

lemma sys_step_moves:
  assumes "sys_step reads s t"
  shows "cpc_moves s t"
  using assms
proof (cases rule: sys_step.cases)
  case (take_register k q order)
  then show ?thesis
    using do_wait_moves [of order "RegisterReq (rw_id (rws s ! k)) k" "s\<lparr>q_register := q\<rparr>"]
    by (intro cpc_moves_wait) simp_all
next
  case (take_unregister w e q order)
  then show ?thesis
    using do_wait_moves [of order "UnregisterReq w" "s\<lparr>q_unregister := q\<rparr>"]
    by (intro cpc_moves_wait) (simp_all add: wait_step_def)
next
  case (wait_ends ev order)
  then show ?thesis
    using do_wait_moves [of order ev s] by (intro cpc_moves_wait) (auto simp: wait_step_def)
next
  case (test_update m q now)
  with do_test_rws [of "WorkerUpdate m now" "s\<lparr>q_update := q\<rparr>"] show ?thesis by (auto simp: cpc_moves_def)
next
  case (test_unregister w e q)
  with do_test_rws [of "WorkerUnregister w e" "s\<lparr>q_unregister := q\<rparr>"] show ?thesis by (auto simp: cpc_moves_def)
next
  case (test_timer now)
  with do_test_rws [of "ProgressTimer now" s] show ?thesis by (auto simp: cpc_moves_def)
next
  case (test_ends ev)
  with do_test_rws [of ev s] show ?thesis by (auto simp: cpc_moves_def)
qed (simp_all add: cpc_moves_def)

definition started_ok :: "system \<Rightarrow> bool" where
  "started_ok s \<longleftrightarrow> slots_ok s \<and> room_ok s"

lemma sys_step_started_ok:
  assumes "sys_step reads s t" and "started_ok s"
  shows "started_ok t"
proof -
  have len: "length (rws s) \<le> length (rws t)" using asking_rel.step(1) [OF assms(1)] .
  have slots: "slots_ok t" using sys_step_slots_ok [OF assms(1)] assms(2) by (simp add: started_ok_def)
  have ctrl: "stateCtrl (rws t ! i) = [] \<or> (\<exists>w ws. cpc s = C_Starting ((w, i) # ws) \<and> cpc t = C_AwaitStart i ws)"
    if "\<forall>r. cpc t \<noteq> C_Returned r" "i < length (rws s)" "stateCtrl (rws s ! i) = []" for i
    using sys_step_ctrl [OF assms(1) that] .
  have new: "stateCtrl (rws t ! i) = []" if "length (rws s) \<le> i" "i < length (rws t)" for i
    using asking_rel.step(3) [OF assms(1) that] by (simp add: newRemoteWorker_def)
  have fresh: "fresh_slots t (map snd ws)"
    if f: "fresh_slots s (map snd ws)" and r: "\<forall>r. cpc t \<noteq> C_Returned r"
      and h: "\<And>w i ws'. cpc s = C_Starting ((w, i) # ws') \<Longrightarrow> cpc t = C_AwaitStart i ws' \<Longrightarrow> i \<notin> set (map snd ws)" for ws
  proof -
    have "i < length (rws t) \<and> stateCtrl (rws t ! i) = []" if i: "i \<in> set (map snd ws)" for i
      using i f h ctrl [OF r, of i] len
      unfolding fresh_slots_def by (metis order_less_le_trans)
    with f show ?thesis by (simp add: fresh_slots_def)
  qed
  have room: "room_ok s" and moves: "cpc_moves s t" using assms(2) sys_step_moves [OF assms(1)] by (simp_all add: started_ok_def)
  have "room_ok t"
  proof (cases "cpc t")
    case C_Waiting
    with moves have "cpc s = C_Waiting" by (auto simp: cpc_moves_def split: coord_pc.splits)
    with room C_Waiting ctrl new show ?thesis by (simp add: room_ok_def) (metis coord_pc.distinct(1) coord_pc.distinct(7) not_less)
  next
    case (C_Starting ws)
    with moves consider "cpc s = C_Starting ws" | "cpc s = C_Waiting" "mset (map snd ws) = mset (gvals (workers (coord t)))"
      | k where "cpc s = C_AwaitStart k ws"
      by (auto simp: cpc_moves_def split: coord_pc.splits)
    then show ?thesis
    proof cases
      case 2
      have "distinct (gvals (workers (coord t)))" "\<forall>k \<in> set (gvals (workers (coord t))). k < length (rws t)"
        using slots by (auto simp: slots_ok_def slots_def)
      then have "distinct (map snd ws)" "\<forall>k \<in> set (map snd ws). k < length (rws t)"
        using 2(2) by (metis mset_eq_imp_distinct_iff, metis mset_eq_setD)
      moreover have "stateCtrl (rws t ! k) = []" if "k < length (rws t)" for k
        using room 2(1) C_Starting ctrl [of k] new [OF _ that] by (cases "k < length (rws s)") (auto simp: room_ok_def)
      ultimately show ?thesis using C_Starting by (simp add: room_ok_def fresh_slots_def)
    qed (use room fresh [of ws] C_Starting in \<open>auto simp: room_ok_def\<close>)
  next
    case (C_AwaitStart k ws)
    with moves consider "cpc s = C_AwaitStart k ws" | w where "cpc s = C_Starting ((w, k) # ws)"
      by (auto simp: cpc_moves_def split: coord_pc.splits)
    then show ?thesis
    proof cases
      case 2
      with room have "fresh_slots s (map snd ws)" "k \<notin> set (map snd ws)" by (auto simp: room_ok_def fresh_slots_def)
      with fresh [of ws] 2 C_AwaitStart show ?thesis by (simp add: room_ok_def)
    qed (use room fresh [of ws] C_AwaitStart in \<open>auto simp: room_ok_def\<close>)
  qed (simp_all add: room_ok_def)
  with slots show ?thesis by (simp add: started_ok_def)
qed

lemma started_ok_start: "started_ok (system_start cfg ccfg)"
  by (simp add: started_ok_def slots_ok_def room_ok_def slots_def system_start_def enter_waiting_def NewCoordinator_def)

subsection \<open>The end can always be reached\<close>

definition exit_ok :: "'r coord_process option \<Rightarrow> bool" where
  "exit_ok x \<longleftrightarrow>
     (case x of None \<Rightarrow> True
      | Some p \<Rightarrow> started_ok (p_sys p) \<and>
          (if p_phase p = Looping
           then \<not> cancelTrap (p_trap p) \<and> (trap_pc (p_trap p) = Armed \<or> p_stop p)
           else \<exists>r. cpc (p_sys p) = C_Returned r))"

lemma started_ok_gauge: "same_but_gauge s t \<Longrightarrow> started_ok s \<Longrightarrow> started_ok t \<and> cpc t = cpc s"
  by (auto simp: same_but_gauge_def started_ok_def slots_ok_def room_ok_def slots_def fresh_slots_def split: coord_pc.splits)

lemma exit_ok_step:
  assumes "process_step reads g x y" and "exit_ok x"
  shows "exit_ok y"
proof (cases y)
  case None
  then show ?thesis by (simp add: exit_ok_def)
next
  case (Some q)
  then obtain p where p: "x = Some p" using assms(1) process_step_from_panic by (cases x) auto
  have sys: "sys_step reads (p_sys p) (p_sys q) \<or> same_but_gauge (p_sys p) (p_sys q)"
    using process_step_sys assms(1) p Some by simp
  then have "started_ok (p_sys q)"
    using assms(2) p sys_step_started_ok started_ok_gauge by (auto simp: exit_ok_def)
  moreover have "\<exists>r. cpc (p_sys q) = C_Returned r" if "cpc (p_sys p) = C_Returned r" for r
    using sys that started_ok_gauge sys_step_moves [of reads "p_sys p" "p_sys q"] by (auto simp: cpc_moves_def same_but_gauge_def)
  ultimately show ?thesis
    using assms p Some
    by (auto simp: exit_ok_def trap_defs spend_def cancel_run_eq elim!: process_step.cases split: if_splits)
qed

interpretation process_exit: kept_by_relation "process_step reads g" exit_ok for reads g
  by unfold_locales (rule exit_ok_step)

text \<open>The deferred calls run to their end.\<close>

abbreviation proc_run ::
  "(nat \<Rightarrow> go_error + workerMsg \<Rightarrow> bool) \<Rightarrow> (string \<Rightarrow> 'r \<Rightarrow> 'r option) \<Rightarrow> 'r coord_process \<Rightarrow> 'r coord_process \<Rightarrow> bool" where
  "proc_run reads g p q \<equiv> (process_step reads g)\<^sup>*\<^sup>* (Some p) (Some q)"

lemma proc_step_run: "process_step reads g (Some p) (Some q) \<Longrightarrow> proc_run reads g q z \<Longrightarrow> proc_run reads g p z"
  by (rule converse_rtranclp_into_rtranclp)

lemma deferred_calls_end:
  assumes "p_phase p \<noteq> Looping"
  shows "\<exists>z. proc_run reads g p z \<and> p_phase z = Exited \<and> p_sys z = p_sys p"
proof -
  have await: "\<exists>z. proc_run reads g p z \<and> p_phase z = Exited \<and> p_sys z = p_sys p"
    if "p_phase p = AwaitServer" for p :: "'a coord_process"
    using process_step.exit_timeout [OF that, of reads g]
    by (intro exI [of _ "spend coordShutdownTimeout (p\<lparr>p_phase := Exited\<rparr>)"]) (simp add: spend_def r_into_rtranclp)
  have closing: "\<exists>z. proc_run reads g p z \<and> p_phase z = Exited \<and> p_sys z = p_sys p"
    if "p_phase p = ClosingServer" for p :: "'a coord_process"
    using proc_step_run [OF process_step.server_shut [OF that, of 0 reads g]] await [of "spend 0 (p\<lparr>p_phase := AwaitServer\<rparr>)"]
    by (fastforce simp: spend_def)
  have wait: "\<exists>z. proc_run reads g p z \<and> p_phase z = Exited \<and> p_sys z = p_sys p"
    if "p_phase p = PostWait" for p :: "'a coord_process"
    using proc_step_run [OF process_step.wait_over [OF that, of reads g]]
      closing [of "spend (max 0 (shutdown_wait p)) (p\<lparr>p_waitTrap := closeTrap (p_waitTrap p), p_phase := ClosingServer\<rparr>)"]
    by (fastforce simp: spend_def)
  have down: "\<exists>z. proc_run reads g p z \<and> p_phase z = Exited \<and> p_sys z = p_sys p"
    if "p_phase p = ShuttingDown" for p :: "'a coord_process"
  proof (cases "waits p")
    case True
    then show ?thesis
      using proc_step_run [OF process_step.wait [OF that True, of reads g]]
        wait [of "p\<lparr>p_waitTrap := trapInterrupts, p_phase := PostWait\<rparr>"] by fastforce
  next
    case False
    then show ?thesis
      using proc_step_run [OF process_step.no_wait [OF that False, of reads g]]
        closing [of "p\<lparr>p_phase := ClosingServer\<rparr>"] by fastforce
  qed
  show ?thesis
    using assms down wait closing await by (cases "p_phase p") auto
qed

lemma returned_ends:
  assumes "cpc (p_sys p) = C_Returned r"
  shows "\<exists>z. proc_run reads g p z \<and> p_phase z = Exited \<and> p_sys z = p_sys p"
proof (cases "p_phase p = Looping")
  case True
  then show ?thesis
    using proc_step_run [OF process_step.return [OF True assms, of reads g]]
      deferred_calls_end [of "p\<lparr>p_trap := closeTrap (p_trap p), p_phase := ShuttingDown\<rparr>"] by fastforce
qed (rule deferred_calls_end)

text \<open>A run whose stop channel is closed can end from wherever its loops are.\<close>

lemma still_no_accept:
  "(\<And>i. i < length (rws s) \<Longrightarrow> rw_pc (rws t ! i) = rw_pc (rws s ! i)) \<Longrightarrow> \<not> accepts s t"
  by (auto simp: accepts_def)

lemma proc_system_step:
  assumes "sys_step reads (p_sys p) t" and "length (rws t) = length (rws (p_sys p))"
    and "\<And>i. i < length (rws (p_sys p)) \<Longrightarrow> rw_pc (rws t ! i) = rw_pc (rws (p_sys p) ! i)" and "loop_end_seen p t"
  shows "proc_run reads g p (p\<lparr>p_sys := t\<rparr>)"
  using process_step.system [OF assms(1,4) still_no_accept [OF assms(3)] assms(2)] by (rule r_into_rtranclp)

definition ended_by :: "(nat \<Rightarrow> go_error + workerMsg \<Rightarrow> bool) \<Rightarrow> (string \<Rightarrow> 'r \<Rightarrow> 'r option) \<Rightarrow> 'r coord_process \<Rightarrow> bool" where
  "ended_by reads g p \<longleftrightarrow> (\<exists>t err. proc_run reads g p (p\<lparr>p_sys := t\<rparr>) \<and> cpc t = C_Returned (Some err))"

lemma ended_by_step:
  assumes "sys_step reads (p_sys p) t" and "length (rws t) = length (rws (p_sys p))"
    and "\<And>i. i < length (rws (p_sys p)) \<Longrightarrow> rw_pc (rws t ! i) = rw_pc (rws (p_sys p) ! i)" and "loop_end_seen p t"
    and "ended_by reads g (p\<lparr>p_sys := t\<rparr>)"
  shows "ended_by reads g p"
proof -
  obtain u err where "proc_run reads g (p\<lparr>p_sys := t\<rparr>) (p\<lparr>p_sys := u\<rparr>)" "cpc u = C_Returned (Some err)"
    using assms(5) by (auto simp: ended_by_def)
  with proc_system_step [of reads p t g] assms(1-4) show ?thesis
    unfolding ended_by_def by (metis (no_types, lifting) rtranclp_trans)
qed

lemma ended_by_now:
  assumes "sys_step reads (p_sys p) t" and "length (rws t) = length (rws (p_sys p))"
    and "\<And>i. i < length (rws (p_sys p)) \<Longrightarrow> rw_pc (rws t ! i) = rw_pc (rws (p_sys p) ! i)" and "loop_end_seen p t"
    and "cpc t = C_Returned (Some err)"
  shows "ended_by reads g p"
  using proc_system_step [of reads p t g] assms unfolding ended_by_def by metis

lemma stop_ends_loops:
  assumes "p_stop p" and "started_ok (p_sys p)" and "\<forall>r. cpc (p_sys p) \<noteq> C_Returned r"
  shows "ended_by reads g p"
proof -
  have testing: "ended_by reads g p" if "p_stop p" "cpc (p_sys p) = C_Testing" for p :: "'a coord_process"
  proof (rule ended_by_now)
    show "sys_step reads (p_sys p) (do_test TestStop (p_sys p))" by (rule sys_step.test_ends [OF that(2)]) simp
    show "cpc (do_test TestStop (p_sys p)) = C_Returned (Some ''load testing cancelled'')"
      by (simp add: do_test_def test_step_def Let_def)
    then show "loop_end_seen p (do_test TestStop (p_sys p))" using that by (simp add: loop_end_seen_def)
  qed (use do_test_quiet [where ev = TestStop and s = "p_sys p"] in \<open>auto simp: still_def\<close>)
  have awaiting: "ended_by reads g p" if "cpc (p_sys p) = C_AwaitStart k ws" for p :: "'a coord_process" and k ws
  proof (rule ended_by_now)
    let ?t = "finish (Some ''timed out waiting for response for control message'') (p_sys p)"
    show "sys_step reads (p_sys p) ?t" by (rule sys_step.start_timeout [OF that])
    show "cpc ?t = C_Returned (Some ''timed out waiting for response for control message'')" by simp
    show "loop_end_seen p ?t" using that by (simp add: loop_end_seen_def)
  qed (simp_all add: rws_finish)
  show ?thesis
  proof (cases "cpc (p_sys p)")
    case C_Waiting
    show ?thesis
    proof (rule ended_by_now)
      let ?t = "do_wait WaitStop (\<lambda>m. m) (p_sys p)"
      show "sys_step reads (p_sys p) ?t" by (rule sys_step.wait_ends [OF C_Waiting]) simp
      show "cpc ?t = C_Returned (Some ''wait routine cancelled'')" by (simp add: do_wait_def wait_step_def)
      then show "loop_end_seen p ?t" using assms(1) C_Waiting by (simp add: loop_end_seen_def)
    qed (use do_wait_quiet [where ev = WaitStop and s = "p_sys p"] in \<open>auto simp: still_def\<close>)
  next
    case C_Testing
    then show ?thesis using testing assms(1) by blast
  next
    case (C_AwaitStart k ws)
    then show ?thesis by (rule awaiting)
  next
    case (C_Starting ws)
    show ?thesis
    proof (cases ws)
      case Nil
      let ?t = "(p_sys p)\<lparr>cpc := C_Testing, coord := enter_testing 0 (coord (p_sys p)), completed := 0\<rparr>"
      show ?thesis
      proof (rule ended_by_step)
        show "sys_step reads (p_sys p) ?t" by (rule sys_step.all_started) (simp add: C_Starting Nil)
        show "loop_end_seen p ?t" by (simp add: loop_end_seen_def C_Starting)
        show "ended_by reads g (p\<lparr>p_sys := ?t\<rparr>)" by (rule testing) (simp_all add: assms(1))
      qed simp_all
    next
      case (Cons x xs)
      obtain w k where x: "x = (w, k)" by (cases x)
      have k: "k < length (rws (p_sys p))" "stateCtrl (rws (p_sys p) ! k) = []"
        using assms(2) C_Starting Cons x by (simp_all add: started_ok_def room_ok_def fresh_slots_def)
      let ?t = "set_rw k (rw_send_ctrl workerTesting [] (rws (p_sys p) ! k)) ((p_sys p)\<lparr>cpc := C_AwaitStart k xs\<rparr>)"
      show ?thesis
      proof (rule ended_by_step)
        show "sys_step reads (p_sys p) ?t" by (rule sys_step.tell_start) (simp_all add: C_Starting Cons x k)
        show "loop_end_seen p ?t" by (simp add: loop_end_seen_def C_Starting)
        show "ended_by reads g (p\<lparr>p_sys := ?t\<rparr>)" by (rule awaiting [of _ k xs]) simp
      qed (simp_all add: nth_update_in rw_send_ctrl_def)
    qed
  qed (use assms(3) in blast)
qed


text \<open>An interrupt while the coordinator waits for its workers.\<close>

lemma cancelled_exit:
  "\<exists>p q z. process_start name_registry [] kv_cfg two_workers = Some p \<and>
     (process_step only_hello name_registry)\<^sup>*\<^sup>* (Some p) (Some q) \<and> p_cancelled q \<and> p_phase q = Looping \<and>
     (process_step only_hello name_registry)\<^sup>*\<^sup>* (Some q) (Some z) \<and> p_phase z = Exited"
proof -
  obtain p where p: "process_start name_registry [] kv_cfg two_workers = Some p" "p_sys p = system_start kv_cfg two_workers"
    "p_trap p = trapInterrupts" "p_phase p = Looping"
    by (simp add: process_start_def two_workers_def seconds_duration_pos coordinator_gauges_def name_registry_def)
  let ?p1 = "p\<lparr>p_trap := notify (p_trap p), p_waitTrap := p_waitTrap p\<rparr>"
  let ?q = "cancel_run (?p1\<lparr>p_trap := fire (p_trap ?p1)\<rparr>)"
  have "process_step only_hello name_registry (Some p) (Some ?p1)"
    using process_step.signal [of only_hello name_registry p] p(4) by simp
  moreover have "process_step only_hello name_registry (Some ?p1) (Some ?q)"
    by (rule process_step.kill) (simp add: trap_defs p(3) trapInterrupts_def)
  ultimately have run: "(process_step only_hello name_registry)\<^sup>*\<^sup>* (Some p) (Some ?q)"
    by (meson r_into_rtranclp rtranclp.rtrancl_into_rtrancl)
  have q: "p_stop ?q" "p_cancelled ?q" "p_phase ?q = Looping" "same_but_gauge (p_sys p) (p_sys ?q)"
    by (auto simp: cancel_run_eq same_but_gauge_def p(4))
  have "started_ok (p_sys ?q)" "\<forall>r. cpc (p_sys ?q) \<noteq> C_Returned r"
    using started_ok_gauge [OF q(4)] started_ok_start p(2) by (simp_all add: system_start_def)
  then have "ended_by only_hello name_registry ?q" by (rule stop_ends_loops [OF q(1)])
  then obtain t err where t: "proc_run only_hello name_registry ?q (?q\<lparr>p_sys := t\<rparr>)" "cpc t = C_Returned (Some err)"
    by (auto simp: ended_by_def)
  obtain z where "proc_run only_hello name_registry (?q\<lparr>p_sys := t\<rparr>) z" "p_phase z = Exited"
    using returned_ends [of "?q\<lparr>p_sys := t\<rparr>" "Some err" only_hello name_registry] t(2) by auto
  with p(1) run q t(1) show ?thesis by (meson rtranclp_trans)
qed



end
