(* ===== verification/Coord_Types.thy ===== *)
theory Coord_Types
  imports Coord_System Simple_Socket
begin

section \<open>The types of what a coordinator receives and keeps\<close>

text \<open>
  Integers are unbounded in the model, and Go's are not: here it is shown that every number a
  coordinator has, whatever its connections deliver, is a Go integer, so that the model and the
  program mean the same numbers.
\<close>

subsection \<open>Messages\<close>

definition msg_typed :: "workerMsg \<Rightarrow> bool" where
  "msg_typed m \<longleftrightarrow> in_i64 (W_TxCount m) \<and> in_i64 (W_TotalTxBytes m) \<and> pred_option config_ints (W_Config m)"

text \<open>What every field's decoder keeps, decoding keeps, whatever members an object has.\<close>

lemma decode_members_keeps:
  "decode_members fs ms r = Some r' \<Longrightarrow> P r \<Longrightarrow>
   (\<And>t dec j r r'. (t, dec) \<in> set fs \<Longrightarrow> dec j r = Some r' \<Longrightarrow> P r \<Longrightarrow> P r') \<Longrightarrow> P r'"
proof (induction fs ms r rule: decode_members.induct)
  case (2 fs k j ms r)
  show ?case
  proof (cases "map_of fs (map lower_char k)")
    case None
    with 2 show ?thesis by simp
  next
    case (Some dec)
    with 2(3) obtain r1 where r1: "dec j r = Some r1" "decode_members fs ms r1 = Some r'" by (auto split: option.splits)
    have "P r1" using 2(5) [OF map_of_SomeD [OF Some] r1(1) 2(4)] .
    with 2(2) [OF Some r1(1)] r1(2) 2(5) show ?thesis by blast
  qed
qed simp

lemma config_of_json_ints: "config_of_json j c = Some c' \<Longrightarrow> config_ints c \<Longrightarrow> config_ints c'"
proof -
  have "config_ints r'" if "(t, dec) \<in> set config_fields" "dec j r = Some r'" "config_ints r" for t dec j r r'
    using that
    by (auto simp: config_fields_def set_int_def set_str_def set_strs_def set_bool_def config_ints_def
        split: json.splits if_splits)
  then show "config_of_json j c = Some c' \<Longrightarrow> config_ints c \<Longrightarrow> config_ints c'"
    using decode_members_keeps [of config_fields _ c c' config_ints]
    by (auto simp: config_of_json_def split: json.splits)
qed

lemma workerMsg_of_json_typed:
  assumes "workerMsg_of_json j = Some m"
  shows "msg_typed m"
proof -
  have zero: "config_ints zero_config" by (simp add: config_ints_def zero_config_def in_i64_def)
  have "msg_typed r'" if "(t, dec) \<in> set workerMsg_fields" "dec j r = Some r'" "msg_typed r" for t dec j r r'
  proof (cases "dec = set_config")
    case True
    with that(2,3) zero config_of_json_ints show ?thesis
      by (auto simp: set_config_def msg_typed_def split: json.splits option.splits)
  next
    case False
    with that show ?thesis
      by (auto simp: workerMsg_fields_def set_int_def set_str_def msg_typed_def split: json.splits if_splits)
  qed
  then have "decode_members workerMsg_fields ms zero_msg = Some m \<Longrightarrow> msg_typed zero_msg \<Longrightarrow> msg_typed m" for ms
    using decode_members_keeps [of workerMsg_fields ms zero_msg m msg_typed] by blast
  with assms show ?thesis
    by (auto simp: workerMsg_of_json_def msg_typed_def zero_msg_def in_i64_def split: json.splits)
qed

text \<open>So a message that was read can be sent on and is read there as it was.\<close>

lemma ReadWorkerMsg_typed: "ReadWorkerMsg r = Inr m \<Longrightarrow> msg_typed m"
  by (auto simp: ReadWorkerMsg_def workerMsg_of_json_typed split: sum.splits prod.splits if_splits option.splits)

lemma typed_resent: "msg_typed m \<Longrightarrow> ReadWorkerMsg (Inr (TextMessage, WriteWorkerMsg_data m)) = Inr m"
  by (simp add: ReadWorkerMsg_def WriteWorkerMsg_data_def workerMsg_roundtrip msg_typed_def)

subsection \<open>The state of the coordinator\<close>

definition typed_read :: "go_error + workerMsg \<Rightarrow> bool" where
  "typed_read r \<longleftrightarrow> (case r of Inl _ \<Rightarrow> True | Inr m \<Rightarrow> msg_typed m)"

definition rw_typed :: "remote_worker \<Rightarrow> bool" where
  "rw_typed rw \<longleftrightarrow> in_i64 (rw_txCount rw) \<and> (case rw_pc rw of Forwarding m \<Rightarrow> msg_typed m | _ \<Rightarrow> True)"

definition vals_typed :: "(string, int) gomap \<Rightarrow> bool" where
  "vals_typed m \<longleftrightarrow> (\<forall>v \<in> set (gvals m). in_i64 v)"

lemma vals_typed_gset: "vals_typed m \<Longrightarrow> in_i64 v \<Longrightarrow> vals_typed (gset k v m)"
  unfolding vals_typed_def by (rule gvals_gset_all)

definition coord_typed :: "coordinator \<Rightarrow> bool" where
  "coord_typed c \<longleftrightarrow> vals_typed (totalTxsPerWorker c) \<and> vals_typed (totalBytesPerWorker c) \<and>
     in_i64 (c_totalTxs c) \<and> in_i64 (c_totalBytes c) \<and> stateMetric c \<in> {0..5}"

definition sys_typed :: "system \<Rightarrow> bool" where
  "sys_typed s \<longleftrightarrow> list_all msg_typed (q_update s) \<and> list_all rw_typed (rws s) \<and> coord_typed (coord s)"

definition typed_rel :: "remote_worker \<Rightarrow> remote_worker \<Rightarrow> bool" where
  "typed_rel rw rw' \<longleftrightarrow> (rw_typed rw \<longrightarrow> rw_typed rw')"

lemma rw_local_typed: "rw_local typed_read cfg rw rw' \<Longrightarrow> typed_rel rw rw'"
  by (erule rw_local.cases)
    (auto simp: typed_rel_def rw_typed_def typed_read_def rw_readID_def rw_registered_def rw_accept_def rw_write_def
      rw_start_ctrl_def rw_update_ctrl_def rw_update_def rw_stopped_def msg_typed_def Let_def
      split: sum.splits option.splits prod.splits if_splits rw_pc.splits)

interpretation typed_step: remote_relation "\<lambda>_. typed_read" typed_rel
  by unfold_locales
    (auto simp: rw_local_typed, auto simp: typed_rel_def rw_typed_def still_def rw_forwarded_def)

lemma rws_typed_step:
  assumes "sys_step (\<lambda>_. typed_read) s t" and "list_all rw_typed (rws s)"
  shows "list_all rw_typed (rws t)"
proof -
  have "rw_typed (rws t ! i)" if "i < length (rws t)" for i
  proof (cases "i < length (rws s)")
    case True
    with typed_step.step(2) [OF assms(1)] assms(2) show ?thesis by (simp add: typed_rel_def list_all_length)
  next
    case False
    with typed_step.step(3) [OF assms(1) _ that] show ?thesis by (simp add: newRemoteWorker_def rw_typed_def in_i64_def)
  qed
  then show ?thesis by (simp add: list_all_length)
qed

lemma in_i64_zero: "in_i64 0"
  by (simp add: in_i64_def)

lemma coord_typed_simps [simp]:
  "coord_typed (logTestingProgress n now c) = coord_typed (c\<lparr>c_totalTxs := 0, c_totalBytes := 0\<rparr>)"
  "coord_typed (unregisterRemoteWorker w c) = coord_typed c" "coord_typed (leave_testing c) = coord_typed c"
  by (auto simp: coord_typed_def logTestingProgress_def go_sum_eq unregisterRemoteWorker_def leave_testing_def in_i64_zero
      Let_def split: prod.splits)

lemma coord_typed_weaker: "coord_typed c \<Longrightarrow> coord_typed (c\<lparr>c_totalTxs := 0, c_totalBytes := 0\<rparr>)"
  by (simp add: coord_typed_def in_i64_def)

lemma coord_typed_track: "coord_typed c \<Longrightarrow> msg_typed m \<Longrightarrow> coord_typed (track_update m c)"
  by (simp add: coord_typed_def track_update_def msg_typed_def vals_typed_gset Let_def)

lemma coord_typed_register: "coord_typed c \<Longrightarrow> coord_typed (snd (registerRemoteWorker w k c))"
  by (simp add: coord_typed_def registerRemoteWorker_def vals_typed_gset in_i64_def)

lemma test_step_typed:
  assumes "test_step ev (c, n) = ((c', n'), r)" and "coord_typed c"
    and "case ev of WorkerUpdate m _ \<Rightarrow> msg_typed m | _ \<Rightarrow> True"
  shows "coord_typed c'"
  using assms
  by (cases ev) (auto simp: test_step_def handle_update_def Let_def coord_typed_track coord_typed_weaker
      split: if_splits)

lemma finish_typed: "coord_typed (coord s) \<Longrightarrow> coord_typed (coord (finish res s))"
  by (simp add: finish_def coord_typed_def)

lemma do_test_typed:
  assumes "coord_typed (coord s)" and "case ev of WorkerUpdate m _ \<Rightarrow> msg_typed m | _ \<Rightarrow> True"
  shows "coord_typed (coord (do_test ev s))"
proof -
  obtain c n r where t: "test_step ev (coord s, completed s) = ((c, n), r)" by (metis prod.exhaust)
  with test_step_typed [OF t assms] show ?thesis
    by (cases r) (simp_all add: do_test_def Let_def finish_typed)
qed

lemma do_wait_typed:
  assumes "coord_typed (coord s)"
  shows "coord_typed (coord (do_wait ev order s))"
proof -
  obtain c resp nxt where 1: "wait_step ev (coord s) = (c, resp, nxt)" by (rule prod_cases3)
  have "coord_typed c"
    using 1 assms coord_typed_register [OF assms]
    by (cases ev) (auto simp: wait_step_def Let_def split: prod.splits, metis snd_conv)
  with 1 show ?thesis by (cases nxt) (simp_all add: do_wait_def finish_typed)
qed

lemma sys_step_typed:
  assumes "sys_step (\<lambda>_. typed_read) s t" and "sys_typed s"
  shows "sys_typed t"
proof -
  have c: "coord_typed (coord s)" and q: "list_all msg_typed (q_update s)" and r: "list_all rw_typed (rws s)"
    using assms(2) by (simp_all add: sys_typed_def)
  have "list_all msg_typed (q_update t) \<and> coord_typed (coord t)"
    using assms(1)
  proof (cases rule: sys_step.cases)
    case (forward k m)
    with r have "msg_typed m" by (auto simp: rw_typed_def list_all_length)
    with forward c q show ?thesis by simp
  next
    case (test_update m q' now)
    with q have "msg_typed m" "list_all msg_typed q'" by simp_all
    with test_update c do_test_typed [of "s\<lparr>q_update := q'\<rparr>" "WorkerUpdate m now"] show ?thesis by simp
  next
    case (test_ends ev)
    with c q do_test_typed [of s ev] show ?thesis by auto
  qed (use c q in \<open>simp_all add: do_wait_typed do_test_typed finish_typed,
      simp_all add: finish_def enter_testing_def coord_typed_def\<close>)
  with rws_typed_step [OF assms(1) r] show ?thesis by (simp add: sys_typed_def)
qed

interpretation sys_types: kept_by_relation "sys_step (\<lambda>_. typed_read)" sys_typed
  by unfold_locales (rule sys_step_typed)



end
