(* ===== verification/Spec2Isabelle.thy ===== *)
theory Spec2Isabelle
  imports Rand_Str Client_KVStore Load_Transactor Transactor_Group Network_Info Simple_Socket
    Agg_Stats Load_Coordinator Remote_Worker Coord_System Worker_Client Standalone_Cli Rpc_Types Outage_Sim
    Logrus_Logging Transactor_Limit Whole_System Coord_Exit Coord_Types
begin

text \<open>
  A model of tm-load-test, a distributed load tester for Tendermint nodes, and its correctness.

  \<^bold>\<open>The program.\<close>  A load test is run by transactors (pkg/loadtest/transactor.go), each owning one
  WebSockets connection to a node and sending it batches of transactions made by a client
  (client.go, client_kvstore.go) until a time limit, a transaction limit, an error or a
  cancellation.  A transactor group (transactor_group.go) runs one transactor per connection and
  endpoint and sums their counts.  The endpoints are given, or found by crawling the network
  (tm_network_info.go).  In distributed mode a coordinator (coordinator.go) waits for the expected
  number of workers, sends them the configuration, starts them, and follows their updates
  (messages.go, states.go) over WebSockets (websockets.go), one remote worker (remote_worker.go)
  for each connection; at the end it writes the statistics (stats.go).  The other end of such a
  connection is a worker (worker.go): it registers, waits for its start, runs a transactor group and
  reports its progress.  Without a coordinator one process runs the group itself (loadtest.go).  The
  three are commands (cli.go, cmd/tm-load-test), and a separate server (internal/outagesim,
  cmd/tm-outage-sim-server) stops and starts a node on request.

  \<^bold>\<open>The theories.\<close>
  \<^item> Go_Prelude, Go_Map, Go_Float, Go_Text, Go_Encoding: what the source uses of Go.  An \<open>int\<close> or
    \<open>int64\<close> is an \<open>int\<close> wrapped by \<open>i64\<close> where it can overflow; a \<open>uint64\<close> is a 64-bit word; a
    \<open>float64\<close> is a rational rounded by \<open>f64\<close>; a map is an association list, and a range over it any
    permutation of the list (\<open>ranges_over\<close>); an \<open>error\<close> is its text; a panic is an outer \<open>None\<close>.
    Strings, JSON values, base64, hex, and the decimal forms of numbers are here.  Two locales,
    \<open>kept_by_steps\<close> and \<open>kept_by_relation\<close>, state once that what every step keeps holds in every
    reachable state, and \<open>dictionary\<close> states the laws of a map.
  \<^item> Rand_Str (rand.go), Load_Config (config.go, client.go, the flag defaults of cli.go),
    Client_KVStore (client_kvstore.go): configuration, its validation, and the kvstore client.
    The locale \<open>exact_size_clients\<close> is the contract a client factory owes to the transactor; it is
    interpreted on the kvstore factory.
  \<^item> Load_Transactor (transactor.go): the batch is a function, the send loop a step relation in which
    cancellation can come between any two steps.  Transactor_Limit composes the steps of whole passes
    of the loop and shows that the transaction limit ends it.
  \<^item> Transactor_Group (transactor_group.go): the transactors of a group, the progress reporter and the
    goroutines of \<open>Wait\<close> as one step relation.
  \<^item> Network_Info (tm_network_info.go): the crawl as functions of the events its channels deliver.
    Rpc_Types (rpc.go): the types of the node's answer, their decoders as tables of fields, and
    \<open>netInfo\<close>, which gives the crawl its answers.
  \<^item> Worker_Msgs (messages.go, states.go, the JSON tags of config.go), Simple_Socket (websockets.go):
    the options, the reads and writes with their deadlines, the read pump, and the event loop with
    the flush at its end; \<open>sock_run\<close> puts the two goroutines together.
  \<^item> Agg_Stats (stats.go).
  \<^item> Load_Coordinator (coordinator.go), Remote_Worker (remote_worker.go): the handlers of the two
    event loops.  Coord_System: the goroutines of a coordinator process together, with the bounded
    channels between them, as one step relation.
    The locale \<open>remote_relation\<close> states once what every step does to each remote worker.
    Coord_Process adds to the goroutines what surrounds them in the process: the metrics registry,
    the interrupt trap, the web server and the graceful shutdown; Coord_Exit shows how long that
    takes and that it can always be reached; Coord_Types that every number a coordinator keeps is a
    Go integer.  Signal_Trap (cli.go) is the trap itself.
  \<^item> Worker_Client (worker.go): \<open>Run\<close> as a step relation over explicit program points, with the group
    of Transactor_Group as a part of its state and the interrupts that can come at any point.
  \<^item> Standalone_Cli (loadtest.go, cli.go, cmd/tm-load-test): the standalone execution, the commands
    with their log level and exit codes (\<open>cli_Run\<close>), and the flag defaults.
  \<^item> Logrus_Logging (internal/logging): the fields of a logger, with the aliasing of its maps.
    Outage_Sim (internal/outagesim, cmd/tm-outage-sim-server): the handler of its HTTP requests and
    the service commands it issues.
  \<^item> Whole_Links puts the goroutines of the coordinator process (Coord_System), any workers
    (Worker_Client) and the connections between them, with the wire format of Worker_Msgs, into one
    step relation; Whole_Run is a complete run of it; Whole_System proves what the success of the
    coordinator means for the workers and their transactors.
  \<^item> This theory: the worker's end and the coordinator's end of a connection against each other.

  \<^bold>\<open>What is shown.\<close>  Of the core: what a batch sends and counts, that the transaction limit holds for
  what is counted in every schedule, that a stop is final, that no error is lost and that the close
  message is last; that the totals of a group are exact when its \<open>Wait\<close> is done; that the kvstore
  client makes transactions of exactly the configured size with room for distinct keys; that a
  message survives its encoding; that a socket is first in, first out; that a round of the crawl
  finds exactly the peers and the endpoints selected are exactly the ones asked for; that the
  coordinator starts with exactly the expected workers, keeps the protocol with each worker and
  succeeds only if each of them completed, with exact totals; that a worker's conversation has the
  form the coordinator expects, that its success means a finished test reported exactly, and that
  the two ends agree on the handshake; that the success of a coordinator means that as many workers as
  it expected each ran the test with its configuration to the end, and that the totals it reports
  are the sums of what their transactors counted; that no worker id is accepted twice in the life of a
  coordinator process, that an interrupt can always end it, in bounded time once its loops have
  ended; that a standalone success means a finished test and an exact
  statistics file; that the node's answer is decoded to exactly what it states.  Several properties prove a defect:
  a limit that a slow connection overruns, a panic on a validated configuration, a connectivity
  requirement that is not enforced, a completion that is lost, two ways in which a connection that
  is rejected disturbs a running test, a worker that brings the coordinator down by coming back, an
  interrupt that is lost, a test of no endpoints that
  succeeds, and logger fields that are not restored.

  \<^bold>\<open>Arguments of the model.\<close>  The network, the clock, the random source, the URL parser, the DNS and
  the Unicode tables above Latin-1 are arguments, and a schedule is any sequence of steps.  No fuel
  is used: a loop driven by events recurses on the events, the others terminate on a measure.

  \<^bold>\<open>Not modelled.\<close>  Logging calls, locks (an operation under a lock is one step), the HTTP server of
  the coordinator beyond its start and end, the Prometheus registry, which is an argument of the
  process with its contract \<open>registry_contract\<close>, the parsing of
  command lines by Cobra and the flag package and their help texts, and the programs that
  service_mgmt.go starts (pidof and systemctl, through sudo), whose results are arguments of the handler.  The \<open>ToJSON\<close> methods of the
  configurations only render a record for the log.
\<close>

section \<open>The worker and the coordinator together\<close>

text \<open>
  The handshake of a worker with the remote worker that serves its connection: the registration as
  the remote worker reads it, the acceptance as the worker reads it, and the start.
\<close>

definition hello :: "'w worker \<Rightarrow> remote_worker" where
  "hello w = rw_readID (on_wire (fst (last (k_said (w_register None w))))) None newRemoteWorker"

definition welcomed :: "config \<Rightarrow> 'w worker \<Rightarrow> remote_worker" where
  "welcomed cfg w = rw_accept cfg None None (hello w)"

definition started :: "config \<Rightarrow> 'w worker \<Rightarrow> remote_worker" where
  "started cfg w = rw_start_ctrl (workerTesting, []) None (welcomed cfg w)"

lemma hello_fields:
  assumes "k_id w \<noteq> []"
  shows "hello w = newRemoteWorker\<lparr>rw_id := k_id w, rw_pc := Registering\<rparr>"
proof -
  have "on_wire (zero_msg\<lparr>W_ID := k_id w\<rparr>) = Inr (zero_msg\<lparr>W_ID := k_id w\<rparr>)"
    by (rule on_wire_same) (simp_all add: zero_msg_def)
  with assms show ?thesis
    by (simp add: hello_def w_register_def rw_readID_def)
qed

text \<open>C23: the two ends of a connection agree on the handshake: the coordinator's end reads the id the
  worker has and goes on to register it; the worker reads the acceptance, takes over exactly the
  coordinator's configuration and waits; and on the coordinator's start it goes on to its load
  test while the coordinator's end goes on to its updates.\<close>

theorem handshake_agrees:
  assumes "k_id w \<noteq> []" and "\<not> k_stop w" and "config_ints cfg" and "Config_Validate reg cfg = None"
  shows "rw_pc (hello w) = Registering \<and> rw_id (hello w) = k_id w \<and>
    (let w1 = w_registered reg (on_wire (last (rw_out (welcomed cfg w)))) None (w_register None w);
         w2 = w_poll (on_wire (last (rw_out (started cfg w)))) None w1
     in k_pc w1 = W_WaitingStart \<and> k_cfg w1 = cfg \<and> rw_pc (welcomed cfg w) = WaitingStart \<and>
        k_pc w2 = W_Adding \<and> k_cfg w2 = cfg \<and> rw_pc (started cfg w) = Updating)"
proof -
  let ?acc = "(state_msg (k_id w) workerAccepted [])\<lparr>W_Config := Some cfg\<rparr>"
  let ?go = "state_msg (k_id w) workerTesting []"
  note h = hello_fields [OF assms(1)]
  have 1: "last (rw_out (welcomed cfg w)) = ?acc" "rw_pc (welcomed cfg w) = WaitingStart"
    by (simp_all add: welcomed_def rw_accept_def rw_write_def h)
  have 2: "last (rw_out (started cfg w)) = ?go" "rw_pc (started cfg w) = Updating"
    by (simp_all add: started_def welcomed_def rw_start_ctrl_def rw_accept_def rw_write_def h Let_def)
  have "on_wire ?acc = Inr ?acc" "on_wire ?go = Inr ?go"
    using assms(3) by (intro on_wire_same; simp add: state_msg_def zero_msg_def)+
  with 1 2 h assms show ?thesis
    by (simp add: w_registered_def w_poll_def w_register_def w_say_def state_msg_def)
qed

theorem handshake_agrees_witness:
  "k_pc (w_poll (on_wire (last (rw_out (started solo_cfg demo_worker)))) None
     (w_registered demo_registry (on_wire (last (rw_out (welcomed solo_cfg demo_worker)))) None
        (w_register None demo_worker))) = W_Adding"
proof -
  have "Config_Validate demo_registry solo_cfg = None"
    by (simp add: Config_Validate_def demo_factory_def solo_cfg_def flag_defaults_def
        validBroadcastTxMethods_def validEndpointSelectMethods_def SelectSuppliedEndpoints_def)
  moreover have "config_ints solo_cfg" by (simp add: config_ints_def solo_cfg_def flag_defaults_def in_i64_def)
  moreover have "k_id demo_worker \<noteq> []" "\<not> k_stop demo_worker" by (simp_all add: demo_worker_def)
  ultimately show ?thesis using handshake_agrees [of demo_worker solo_cfg demo_registry] by (simp add: Let_def)
qed

lemma conversation_states:
  assumes "conversation t" and "st \<in> set (tl t)"
  shows "st \<in> {workerTesting, workerCompleted, workerFailed}"
proof -
  from assms(2) obtain x u where t: "t = x # u" "st \<in> set u" by (cases t) auto
  from assms(1) obtain n where "prefix u (replicate n workerTesting @ [workerCompleted, workerFailed]) \<or>
      u = replicate n workerTesting @ [workerFailed]"
    by (auto simp: conversation_def spoke_def t)
  with t(2) show ?thesis by (auto dest!: set_mono_prefix)
qed

text \<open>The coordinator understands every update of a worker: whatever a worker says after its
  registration, in any schedule, the coordinator's end of the connection either ends with the
  worker's own failure or passes the message on, and of a message passed on the coordinator never
  makes an unexpected state: it goes on, or ends with success.\<close>

theorem updates_understood:
  assumes "NewWorker ucd uuid wcfg = Inr w0" and "(worker_step reg env)\<^sup>*\<^sup>* w0 w"
    and "m \<in> set (tl (map fst (k_said w)))"
  shows "(rw_pc (rw_update (Inr m) rw) = Forwarding m \<and>
      snd (handle_update m now (c, n)) \<in> {None, Some None}) \<or>
    rw_pc (rw_update (Inr m) rw) = Ending (Some (''remote worker failed: '' @ W_Error m))"
proof -
  have "worker_ok w" using assms(2) NewWorker_ok [OF assms(1)] by (rule worker_inv.run_keeps)
  then have "conversation (talk w)" by (auto simp: worker_ok_def intro: said_ok_conversation)
  moreover have "W_State m \<in> set (tl (talk w))"
    using assms(3) by (cases "k_said w") (auto simp: talk_def)
  ultimately have "W_State m \<in> {workerTesting, workerCompleted, workerFailed}"
    by (rule conversation_states)
  then show ?thesis
    by (auto simp: rw_update_def handle_update_def Let_def worker_states)
qed

theorem updates_understood_witness:
  "\<exists>w m. (worker_step demo_registry (demo_env 1))\<^sup>*\<^sup>* demo_worker w \<and> m = fst (last (k_said w)) \<and>
     snd (handle_update m (0, 0, 0) (NewCoordinator solo_cfg two_workers, 0)) \<in> {None, Some None}"
proof -
  obtain w where w: "(worker_step demo_registry (demo_env 1))\<^sup>*\<^sup>* demo_worker w" "k_pc w = W_Ended None"
    using demo_success by blast
  have "worker_ok w" using w(1) NewWorker_ok [OF demo_worker_new] by (rule worker_inv.run_keeps)
  with w(2) obtain n where t: "talk w = spoke n @ [workerCompleted]" by (auto simp: worker_ok_def)
  then have ne: "k_said w \<noteq> []" "tl (k_said w) \<noteq> []" by (auto simp: talk_def spoke_def)
  let ?m = "fst (last (k_said w))"
  have "?m \<in> set (tl (map fst (k_said w)))"
    using ne by (metis last_in_set last_map last_tl list.map_disc_iff map_tl)
  from updates_understood [OF demo_worker_new w(1) this, of newRemoteWorker "(0, 0, 0)"
      "NewCoordinator solo_cfg two_workers" 0]
  have "snd (handle_update ?m (0, 0, 0) (NewCoordinator solo_cfg two_workers, 0)) \<in> {None, Some None} \<or>
      rw_pc (rw_update (Inr ?m) newRemoteWorker) = Ending (Some (''remote worker failed: '' @ W_Error ?m))"
    by blast
  moreover have "W_State ?m = workerCompleted"
    using t ne(1) by (metis (no_types, lifting) last_map last_snoc talk_def)
  ultimately show ?thesis
    using w(1) by (auto simp: rw_update_def worker_states)
qed

end
